(* ===== verification/Prelude.thy ===== *)
theory Prelude
  imports Main "HOL-Library.Word" "HOL-Library.List_Lexorder" "HOL-Library.Char_ord"
begin

text \<open>
  What every component of tsnixcache shares: the byte type, the parts of Go's standard library
  the sources call on strings and paths (packages \<^verbatim>\<open>strings\<close>, \<^verbatim>\<open>path\<close>, \<^verbatim>\<open>path/filepath\<close>,
  \<^verbatim>\<open>strconv\<close>), and the lemmas about them that carry the component proofs.

  A Go string is a sequence of bytes, and a HOL \<^typ>\<open>string\<close> is a list of 8-bit characters, so
  \<^typ>\<open>string\<close> is Go's \<^verbatim>\<open>string\<close> with \<^verbatim>\<open>len\<close> as \<^const>\<open>length\<close>.  The order on strings is
  the lexicographic order of bytes, which is Go's \<^verbatim>\<open><\<close> on strings.  A fallible function returns
  a sum: \<^const>\<open>Inl\<close> the error, \<^const>\<open>Inr\<close> the value.
\<close>

unbundle bit_operations_syntax

named_theorems go_simps \<open>simplification rules of the standard-library models\<close>

section \<open>Types\<close>

type_synonym byte = "8 word"
type_synonym bytes = "byte list"
type_synonym uint64 = "64 word"

text \<open>\<^verbatim>\<open>[]byte(s)\<close> and \<^verbatim>\<open>string(b)\<close>.\<close>

definition byte_of :: "char \<Rightarrow> byte" where
  "byte_of c = word_of_nat (of_char c)"

definition bytes_of :: "string \<Rightarrow> bytes" where
  "bytes_of s = map byte_of s"

definition string_of :: "bytes \<Rightarrow> string" where
  "string_of b = map (\<lambda>w. char_of (unat w)) b"

section \<open>Package strings\<close>

definition HasPrefix :: "string \<Rightarrow> string \<Rightarrow> bool" where
  "HasPrefix s p \<longleftrightarrow> take (length p) s = p"

definition HasSuffix :: "string \<Rightarrow> string \<Rightarrow> bool" where
  "HasSuffix s p \<longleftrightarrow> length p \<le> length s \<and> drop (length s - length p) s = p"

definition TrimPrefix :: "string \<Rightarrow> string \<Rightarrow> string" where
  "TrimPrefix s p = (if HasPrefix s p then drop (length p) s else s)"

definition TrimSuffix :: "string \<Rightarrow> string \<Rightarrow> string" where
  "TrimSuffix s p = (if HasSuffix s p then take (length s - length p) s else s)"

definition CutPrefix :: "string \<Rightarrow> string \<Rightarrow> string \<times> bool" where
  "CutPrefix s p = (if HasPrefix s p then (drop (length p) s, True) else (s, False))"

definition CutSuffix :: "string \<Rightarrow> string \<Rightarrow> string \<times> bool" where
  "CutSuffix s p = (if HasSuffix s p then (take (length s - length p) s, True) else (s, False))"

text \<open>\<open>cut_opt sep s\<close> splits \<open>s\<close> around the first occurrence of \<open>sep\<close>.\<close>

fun cut_opt :: "string \<Rightarrow> string \<Rightarrow> (string \<times> string) option" where
  "cut_opt sep [] = (if sep = [] then Some ([], []) else None)"
| "cut_opt sep (c # cs) =
     (if HasPrefix (c # cs) sep then Some ([], drop (length sep) (c # cs))
      else map_option (\<lambda>(b, a). (c # b, a)) (cut_opt sep cs))"

text \<open>\<^verbatim>\<open>strings.Cut\<close>: before, after, found; \<open>(s, '''', False)\<close> when the separator is absent.\<close>

definition Cut :: "string \<Rightarrow> string \<Rightarrow> string \<times> string \<times> bool" where
  "Cut s sep = (case cut_opt sep s of None \<Rightarrow> (s, [], False) | Some (b, a) \<Rightarrow> (b, a, True))"

text \<open>\<^verbatim>\<open>strings.TrimRight\<close> with a cutset.\<close>

definition TrimRight :: "string \<Rightarrow> char set \<Rightarrow> string" where
  "TrimRight s cs = rev (dropWhile (\<lambda>c. c \<in> cs) (rev s))"

section \<open>Packages path and path/filepath (Unix)\<close>

definition path_Base :: "string \<Rightarrow> string" where
  "path_Base p =
     (if p = [] then ''.''
      else let q = rev (dropWhile (\<lambda>c. c = CHR ''/'') (rev p));
               r = rev (takeWhile (\<lambda>c. c \<noteq> CHR ''/'') (rev q))
           in if r = [] then ''/'' else r)"

text \<open>\<^verbatim>\<open>strings.Split\<close> at a single character.\<close>

fun split_char :: "char \<Rightarrow> string \<Rightarrow> string list" where
  "split_char c [] = [[]]"
| "split_char c (x # xs) =
     (if x = c then [] # split_char c xs
      else case split_char c xs of [] \<Rightarrow> [[x]] | w # ws \<Rightarrow> (x # w) # ws)"

fun join_char :: "char \<Rightarrow> string list \<Rightarrow> string" where
  "join_char c [] = []"
| "join_char c [s] = s"
| "join_char c (s # t # r) = s @ c # join_char c (t # r)"

text \<open>
  \<^verbatim>\<open>path.Clean\<close>: the components, with empty and \<^verbatim>\<open>.\<close> ones dropped and \<^verbatim>\<open>..\<close> cancelling the one
  before it; at the root of an absolute path \<^verbatim>\<open>..\<close> is dropped.  The stack is kept reversed.
\<close>

definition clean_step :: "bool \<Rightarrow> string list \<Rightarrow> string \<Rightarrow> string list" where
  "clean_step rooted stack w =
     (if w = [] \<or> w = ''.'' then stack
      else if w = ''..'' then
        (case stack of
           [] \<Rightarrow> if rooted then [] else [''..'']
         | prev # rest \<Rightarrow> if prev = ''..'' then ''..'' # stack else rest)
      else w # stack)"

definition path_Clean :: "string \<Rightarrow> string" where
  "path_Clean p =
     (if p = [] then ''.''
      else let rooted = (hd p = CHR ''/'');
               ws = rev (foldl (clean_step rooted) [] (split_char CHR ''/'' p))
           in if rooted then CHR ''/'' # join_char CHR ''/'' ws
              else if ws = [] then ''.'' else join_char CHR ''/'' ws)"

text \<open>\<^verbatim>\<open>filepath.Join\<close>: the non-empty elements joined with slashes and cleaned.\<close>

definition filepath_Join :: "string list \<Rightarrow> string" where
  "filepath_Join es =
     (let ne = filter (\<lambda>e. e \<noteq> []) es in if ne = [] then [] else path_Clean (join_char CHR ''/'' ne))"

section \<open>Package strconv\<close>

definition digit_char :: "nat \<Rightarrow> char" where
  "digit_char d = char_of (48 + d)"

fun format_nat :: "nat \<Rightarrow> string" where
  "format_nat n = (if n < 10 then [digit_char n] else format_nat (n div 10) @ [digit_char (n mod 10)])"

declare format_nat.simps [simp del]

definition FormatUint :: "uint64 \<Rightarrow> string" where
  "FormatUint v = format_nat (unat v)"

section \<open>Lemmas\<close>

lemma div_mod_unique: "m = d * q + r \<Longrightarrow> r < d \<Longrightarrow> m div d = q \<and> m mod d = (r::nat)"
  by simp

lemma length_tl_dropWhile_le: "length (tl (dropWhile P xs)) \<le> length xs"
  by (rule le_trans [OF _ length_dropWhile_le [of P]]) simp

lemma bytes_of_simps [simp]:
  "bytes_of [] = []"
  "bytes_of (c # cs) = byte_of c # bytes_of cs"
  "bytes_of (s @ t) = bytes_of s @ bytes_of t"
  "length (bytes_of s) = length s"
  by (simp_all add: bytes_of_def)

lemma unat_byte_of [simp]: "unat (byte_of c) = of_char c"
  by (simp add: byte_of_def unat_of_nat)

lemma char_of_unat_byte_of [simp]: "char_of (unat (byte_of c)) = c"
  by simp

lemma byte_of_char_of_unat [simp]: "byte_of (char_of (unat w)) = w"
  using unsigned_less [where 'a = nat and w = w] by (simp add: byte_of_def)

lemma string_of_bytes_of [simp]: "string_of (bytes_of s) = s"
  by (simp add: string_of_def bytes_of_def comp_def)

lemma bytes_of_string_of [simp]: "bytes_of (string_of b) = b"
  by (simp add: string_of_def bytes_of_def comp_def)

lemma bytes_of_inj: "bytes_of s = bytes_of t \<longleftrightarrow> s = t"
  by (metis string_of_bytes_of)

lemma HasPrefix_append [simp]: "HasPrefix (p @ s) p"
  by (simp add: HasPrefix_def)

lemma HasPrefix_iff: "HasPrefix s p \<longleftrightarrow> (\<exists>t. s = p @ t)"
  by (metis HasPrefix_def append_eq_conv_conj append_take_drop_id)

lemma HasSuffix_iff: "HasSuffix s p \<longleftrightarrow> (\<exists>t. s = t @ p)"
  unfolding HasSuffix_def
  by (metis append_eq_conv_conj append_take_drop_id diff_add_inverse2 le_add2 length_append length_drop)

lemma TrimPrefix_append [simp]: "TrimPrefix (p @ s) p = s"
  by (simp add: TrimPrefix_def)

lemma CutPrefix_append [simp]: "CutPrefix (p @ s) p = (s, True)"
  by (simp add: CutPrefix_def)

lemma CutPrefix_True_iff: "CutPrefix s p = (t, True) \<longleftrightarrow> s = p @ t"
  by (auto simp: CutPrefix_def HasPrefix_iff split: if_splits)

lemma cut_opt_char:
  "cut_opt [c] s =
     (if c \<in> set s then Some (takeWhile (\<lambda>x. x \<noteq> c) s, tl (dropWhile (\<lambda>x. x \<noteq> c) s)) else None)"
  by (induction s) (auto simp: HasPrefix_def)

lemma Cut_char:
  "Cut s [c] =
     (if c \<in> set s then (takeWhile (\<lambda>x. x \<noteq> c) s, tl (dropWhile (\<lambda>x. x \<noteq> c) s), True)
      else (s, [], False))"
  by (simp add: Cut_def cut_opt_char)

lemma Cut_char_append:
  assumes "c \<notin> set a"
  shows "Cut (a @ c # b) [c] = (a, b, True)"
  using assms by (auto simp: Cut_char takeWhile_append dropWhile_append)

lemma Cut_char_notin:
  assumes "c \<notin> set a"
  shows "Cut a [c] = (a, [], False)"
  using assms by (simp add: Cut_char)

lemma cut_opt_Some_append: "cut_opt sep s = Some (b, a) \<Longrightarrow> s = b @ sep @ a"
proof (induction s arbitrary: b)
  case Nil
  then show ?case by (simp split: if_splits)
next
  case (Cons c cs)
  show ?case
  proof (cases "HasPrefix (c # cs) sep")
    case True
    with Cons.prems show ?thesis by (auto simp: HasPrefix_iff)
  next
    case False
    with Cons.prems obtain b' where "cut_opt sep cs = Some (b', a)" and "b = c # b'"
      by auto
    with Cons.IH show ?thesis by simp
  qed
qed

lemma Cut_True_append: "Cut s sep = (b, a, True) \<Longrightarrow> s = b @ sep @ a"
  by (auto simp: Cut_def split: option.splits prod.splits dest: cut_opt_Some_append)

lemma path_Base_suffix:
  assumes "CHR ''/'' \<notin> set b" and "b \<noteq> []"
  shows "path_Base (d @ CHR ''/'' # b) = b"
proof -
  have rb: "rev b \<noteq> []" and hd: "hd (rev b) \<noteq> CHR ''/''"
    using assms by (auto simp: hd_rev dest: last_in_set)
  have dw: "dropWhile (\<lambda>c. c = CHR ''/'') (rev b @ r) = rev b @ r" for r
    using rb hd by (cases "rev b") auto
  have tw: "takeWhile (\<lambda>c. c \<noteq> CHR ''/'') (rev b @ CHR ''/'' # r) = rev b" for r
    using assms(1) by (simp add: takeWhile_append)
  show ?thesis
    using assms(2) by (simp add: path_Base_def Let_def dw tw)
qed

lemma format_nat_nonempty [simp]: "format_nat n \<noteq> []"
  by (subst format_nat.simps) simp

lemma format_nat_digits: "c \<in> set (format_nat n) \<Longrightarrow> 48 \<le> (of_char c :: nat) \<and> (of_char c :: nat) \<le> 57"
proof (induction n rule: format_nat.induct)
  case (1 n)
  then show ?case
    by (subst (asm) (2) format_nat.simps) (auto simp: digit_char_def split: if_splits)
qed

section \<open>Runs of a step relation\<close>

text \<open>An invariant that every step preserves holds in every state a run reaches.\<close>

locale step_invariant =
  fixes step :: "'s \<Rightarrow> 's \<Rightarrow> bool" and inv :: "'s \<Rightarrow> bool"
  assumes preserved: "inv s \<Longrightarrow> step s s' \<Longrightarrow> inv s'"
begin

lemma reach: "step\<^sup>*\<^sup>* s s' \<Longrightarrow> inv s \<Longrightarrow> inv s'"
  by (induction rule: rtranclp_induct) (auto intro: preserved)

end

end
