(* ===== verification/Nixbase32.thy ===== *)
theory Nixbase32
  imports Prelude
begin

text \<open>
  Package \<^verbatim>\<open>nixbase32\<close> (\<^verbatim>\<open>nixbase32/nixbase32.go\<close>): the Nix base-32 encoding of byte strings.
  The encoder and the decoder are the loops of the source over byte lists; the lemmas relate both
  to one bit-level reading of a byte list (\<open>bbit\<close>), from which the round trips follow.
\<close>

section \<open>Tables\<close>

definition alphabet :: string where
  "alphabet = ''0123456789abcdfghijklmnpqrsvwxyz''"

definition encTable :: string where
  "encTable = alphabet"

text \<open>The table \<^verbatim>\<open>init\<close> computes: 0xff everywhere, then the digit of every alphabet character.\<close>

definition decTable :: "char \<Rightarrow> byte" where
  "decTable = foldl (\<lambda>t i. t(alphabet ! i := word_of_nat i)) (\<lambda>_. 0xff) [0..<length alphabet]"

definition HashPartLen :: nat where
  "HashPartLen = 32"

datatype nixbase32_error = ErrInvalidChar char nat | ErrNonCanonical nat

section \<open>Encoding\<close>

definition encodedLen :: "nat \<Rightarrow> nat" where
  "encodedLen n = (n * 8 + 4) div 5"

definition enc_digit :: "bytes \<Rightarrow> nat \<Rightarrow> uint64" where
  "enc_digit b bitPos =
     (let bPos = bitPos div 8; bitOff = bitPos mod 8;
          low = b ! bPos;
          high = (if bPos + 1 < length b then b ! (bPos + 1) else 0)
      in drop_bit bitOff (push_bit 8 (ucast high) OR ucast low) AND 0x1f)"

definition EncodeToString :: "bytes \<Rightarrow> string" where
  "EncodeToString b =
     (let n = encodedLen (length b)
      in map (\<lambda>i. encTable ! unat (enc_digit b ((n - 1 - i) * 5))) [0..<n])"

section \<open>Decoding\<close>

text \<open>One iteration of the decoder's loop, at character \<open>i\<close> of \<open>s\<close>.\<close>

definition decode_char :: "string \<Rightarrow> nat \<Rightarrow> bytes \<Rightarrow> nat \<Rightarrow> nixbase32_error + bytes" where
  "decode_char s outLen out i =
     (let ch = s ! i; val = decTable ch
      in if val = 0xff then Inl (ErrInvalidChar ch i)
         else let bitPos = (length s - 1 - i) * 5; bPos = bitPos div 8; bitOff = bitPos mod 8
              in if outLen \<le> bPos
                 then (if val \<noteq> 0 then Inl (ErrNonCanonical i) else Inr out)
                 else let out1 = out[bPos := out ! bPos OR push_bit bitOff val];
                          carry = drop_bit (8 - bitOff) val
                      in if carry \<noteq> 0
                         then (if outLen \<le> bPos + 1 then Inl (ErrNonCanonical i)
                               else Inr (out1[bPos + 1 := out1 ! (bPos + 1) OR carry]))
                         else Inr out1)"

fun decode_loop :: "string \<Rightarrow> nat \<Rightarrow> bytes \<Rightarrow> nat list \<Rightarrow> nixbase32_error + bytes" where
  "decode_loop s outLen out [] = Inr out"
| "decode_loop s outLen out (i # is) =
     (case decode_char s outLen out i of
        Inl e \<Rightarrow> Inl e
      | Inr out' \<Rightarrow> decode_loop s outLen out' is)"

definition DecodeString :: "string \<Rightarrow> nixbase32_error + bytes" where
  "DecodeString s =
     (let outLen = length s * 5 div 8
      in decode_loop s outLen (replicate outLen 0) [0..<length s])"

definition ValidHashPart :: "string \<Rightarrow> bool" where
  "ValidHashPart s \<longleftrightarrow> length s = HashPartLen \<and> list_all (\<lambda>c. decTable c \<noteq> 0xff) s"

section \<open>The tables are inverse to each other\<close>

lemma length_alphabet [simp]: "length alphabet = 32"
  by (simp add: alphabet_def)

lemma distinct_alphabet: "distinct alphabet"
  by (simp add: alphabet_def)

lemma foldl_table_other:
  "c \<notin> (\<lambda>i. xs ! i) ` set is \<Longrightarrow> foldl (\<lambda>t i. t(xs ! i := f i)) t0 is c = t0 c"
  by (induction "is" arbitrary: t0) auto

lemma foldl_table_nth:
  assumes "distinct xs" and "i < n" and "n \<le> length xs"
  shows "foldl (\<lambda>t i. t(xs ! i := f i)) t0 [0..<n] (xs ! i) = f i"
  using assms
proof (induction n)
  case (Suc n)
  then show ?case
    by (cases "i = n") (auto simp: nth_eq_iff_index_eq)
qed simp

lemma decTable_alphabet: "i < 32 \<Longrightarrow> decTable (alphabet ! i) = word_of_nat i"
  unfolding decTable_def
  by (rule foldl_table_nth) (auto simp: distinct_alphabet)

lemma decTable_other: "c \<notin> set alphabet \<Longrightarrow> decTable c = 0xff"
  unfolding decTable_def
  by (subst foldl_table_other) (auto simp: in_set_conv_nth)

lemma decTable_valid: "decTable c \<noteq> 0xff \<longleftrightarrow> c \<in> set alphabet"
proof
  assume "c \<in> set alphabet"
  then obtain i where i: "i < 32" "c = alphabet ! i"
    by (auto simp: in_set_conv_nth)
  then have "unat (decTable c) = i"
    by (simp add: decTable_alphabet unat_of_nat)
  with i show "decTable c \<noteq> 0xff" by auto
qed (use decTable_other in blast)

lemma decTable_inj:
  assumes "c \<in> set alphabet"
  shows "unat (decTable c) < 32 \<and> encTable ! unat (decTable c) = c"
proof -
  obtain i where i: "i < 32" "c = alphabet ! i"
    using assms by (auto simp: in_set_conv_nth)
  then have "unat (decTable c) = i"
    by (simp add: decTable_alphabet unat_of_nat)
  with i show ?thesis by (simp add: encTable_def)
qed

section \<open>The bit-level reading of a byte list\<close>

definition bbit :: "bytes \<Rightarrow> nat \<Rightarrow> bool" where
  "bbit b n \<longleftrightarrow> n div 8 < length b \<and> bit (b ! (n div 8)) (n mod 8)"

lemma bbit_eqI:
  assumes "length a = length b" and "\<And>n. n < 8 * length b \<Longrightarrow> bbit a n = bbit b n"
  shows "a = b"
proof (rule nth_equalityI [OF assms(1)])
  fix i assume i: "i < length a"
  show "a ! i = b ! i"
  proof (rule bit_word_eqI)
    fix n :: nat assume n: "n < LENGTH(8)"
    then have "(8 * i + n) div 8 = i" "(8 * i + n) mod 8 = n" by auto
    moreover have "8 * i + n < 8 * length b" using i n assms(1) by simp
    ultimately show "bit (a ! i) n = bit (b ! i) n"
      using assms(2) [of "8 * i + n"] i assms(1) by (simp add: bbit_def)
  qed
qed

lemma bit_mask5: "bit (0x1f :: uint64) n \<longleftrightarrow> n < 5"
proof -
  have "(0x1f :: uint64) = mask 5" by (simp add: mask_eq_exp_minus_1)
  then show ?thesis by (simp only: bit_mask_iff) (auto simp: possible_bit_word)
qed

lemma bit_enc_digit:
  assumes "p div 8 < length b"
  shows "bit (enc_digit b p) j \<longleftrightarrow> j < 5 \<and> bbit b (p + j)"
proof -
  define q r where "q = p div 8" and "r = p mod 8"
  have p: "p = 8 * q + r" and r: "r < 8" by (auto simp: q_def r_def)
  have "bbit b (p + j) \<longleftrightarrow>
          (if r + j < 8 then bit (b ! q) (r + j) else q + 1 < length b \<and> bit (b ! (q + 1)) (r + j - 8))"
    if "j < 5"
  proof (cases "r + j < 8")
    case True
    then have "(p + j) div 8 = q \<and> (p + j) mod 8 = r + j"
      by (intro div_mod_unique) (auto simp: p)
    with True assms show ?thesis by (simp add: bbit_def q_def)
  next
    case False
    then have *: "p + j = 8 * (q + 1) + (r + j - 8)" "r + j - 8 < 8"
      using r that by (auto simp: p)
    then have "(p + j) div 8 = q + 1 \<and> (p + j) mod 8 = r + j - 8"
      by (rule div_mod_unique)
    with False show ?thesis by (auto simp: bbit_def)
  qed
  moreover have "bit (enc_digit b p) j \<longleftrightarrow>
      j < 5 \<and> (if r + j < 8 then bit (b ! q) (r + j) else q + 1 < length b \<and> bit (b ! (q + 1)) (r + j - 8))"
    using r bit_imp_le_length [of "b ! q" "r + j"]
    by (auto simp del: bit_numeral_word_iff simp: enc_digit_def Let_def q_def [symmetric] r_def [symmetric] bit_mask5
        bit_and_iff bit_or_iff bit_drop_bit_eq bit_push_bit_iff bit_unsigned_iff)
  ultimately show ?thesis by auto
qed

lemma enc_digit_less: "p div 8 < length b \<Longrightarrow> unat (enc_digit b p) < 32"
proof -
  assume "p div 8 < length b"
  then have "enc_digit b p = take_bit 5 (enc_digit b p)"
    by (intro bit_word_eqI) (auto simp: bit_enc_digit bit_take_bit_iff)
  then have "take_bit 5 (unat (enc_digit b p)) = unat (enc_digit b p)"
    by (metis unsigned_take_bit_eq)
  then show ?thesis by (simp add: take_bit_nat_eq_self_iff)
qed

section \<open>The encoder, digit by digit\<close>

lemma encodedLen_bits: "8 * n \<le> 5 * encodedLen n \<and> 5 * encodedLen n < 8 * n + 5"
  unfolding encodedLen_def by presburger

lemma encodedLen_outLen: "encodedLen n * 5 div 8 = n"
  using encodedLen_bits [of n] by (intro div_nat_eqI) auto

lemma digit_in_range: "k < encodedLen n \<Longrightarrow> (k * 5) div 8 < n"
  using encodedLen_bits [of n] by (auto simp: less_mult_imp_div_less)

lemma length_EncodeToString [simp]: "length (EncodeToString b) = encodedLen (length b)"
  by (simp add: EncodeToString_def Let_def)

lemma decTable_EncodeToString:
  assumes "k < encodedLen (length b)"
  shows "decTable (EncodeToString b ! (encodedLen (length b) - 1 - k)) = ucast (enc_digit b (k * 5))"
    and "EncodeToString b ! (encodedLen (length b) - 1 - k) \<in> set alphabet"
proof -
  let ?d = "enc_digit b (k * 5)"
  have lt: "unat ?d < 32"
    using assms by (intro enc_digit_less digit_in_range)
  have nth: "EncodeToString b ! (encodedLen (length b) - 1 - k) = alphabet ! unat ?d"
    using assms by (simp add: EncodeToString_def Let_def encTable_def)
  show "EncodeToString b ! (encodedLen (length b) - 1 - k) \<in> set alphabet"
    using lt nth by simp
  show "decTable (EncodeToString b ! (encodedLen (length b) - 1 - k)) = ucast ?d"
    using lt by (simp only: nth decTable_alphabet) (simp add: unsigned_ucast_eq)
qed

section \<open>The decoder, bit by bit\<close>

text \<open>The digit at weight \<open>k\<close> of an encoded string.\<close>

definition dig :: "string \<Rightarrow> nat \<Rightarrow> byte" where
  "dig s k = decTable (s ! (length s - 1 - k))"

lemma bit_decTable_less:
  assumes "c \<in> set alphabet" and "bit (decTable c) j"
  shows "j < 5"
proof -
  have "unat (decTable c) < 2 ^ 5" using decTable_inj [OF assms(1)] by simp
  then have "take_bit 5 (unat (decTable c)) = unat (decTable c)"
    by (simp add: take_bit_nat_eq_self_iff)
  moreover have "bit (unat (decTable c)) j"
    using assms(2) by (simp add: bit_unsigned_iff bit_imp_le_length)
  ultimately show ?thesis
    by (metis bit_take_bit_iff)
qed

lemma bbit_update:
  "bbit (out[q := w]) n \<longleftrightarrow> (if n div 8 = q \<and> q < length out then bit w (n mod 8) else bbit out n)"
  by (auto simp: bbit_def nth_list_update)

lemma bbit_nth: "n div 8 = q \<Longrightarrow> q < length out \<Longrightarrow> bit (out ! q) (n mod 8) \<longleftrightarrow> bbit out n"
  by (simp add: bbit_def)

text \<open>The bits of digit \<open>k\<close> lie inside an output of \<open>outLen\<close> bytes.\<close>

definition fits :: "string \<Rightarrow> nat \<Rightarrow> nat \<Rightarrow> bool" where
  "fits s outLen k \<longleftrightarrow> (\<forall>j. bit (dig s k) j \<longrightarrow> 5 * k + j < 8 * outLen)"

lemma decode_char_invalid:
  assumes "s ! i \<notin> set alphabet"
  shows "decode_char s outLen out i = Inl (ErrInvalidChar (s ! i) i)"
  using assms decTable_valid [of "s ! i"] by (simp add: decode_char_def Let_def)

lemma split_digit_bits:
  fixes v :: byte
  assumes small: "\<And>j. bit v j \<Longrightarrow> j < 5"
  shows "(n div 8 = p div 8 \<and> bit (push_bit (p mod 8) v) (n mod 8)) \<or>
         (n div 8 = p div 8 + 1 \<and> bit (drop_bit (8 - p mod 8) v) (n mod 8))
         \<longleftrightarrow> p \<le> n \<and> bit v (n - p)"
proof -
  define q r where "q = p div 8" and "r = p mod 8"
  define a m where "a = n div 8" and "m = n mod 8"
  have p: "p = 8 * q + r" and n: "n = 8 * a + m" and r: "r < 8" and m: "m < 8"
    by (auto simp: q_def r_def a_def m_def)
  have "(a = q \<and> r \<le> m \<and> bit v (m - r)) \<or> (a = q + 1 \<and> bit v (8 - r + m)) \<longleftrightarrow> p \<le> n \<and> bit v (n - p)"
  proof
    assume "(a = q \<and> r \<le> m \<and> bit v (m - r)) \<or> (a = q + 1 \<and> bit v (8 - r + m))"
    then show "p \<le> n \<and> bit v (n - p)"
    proof
      assume *: "a = q \<and> r \<le> m \<and> bit v (m - r)"
      then have "n - p = m - r" by (simp add: p n)
      with * show ?thesis by (simp add: p n)
    next
      assume *: "a = q + 1 \<and> bit v (8 - r + m)"
      then have "n - p = 8 - r + m" using r by (simp add: p n)
      with * r show ?thesis by (simp add: p n)
    qed
  next
    assume *: "p \<le> n \<and> bit v (n - p)"
    then have "n - p < 5" using small by blast
    with * have "a = q \<and> r \<le> m \<or> a = q + 1" using r m unfolding p n by linarith
    then show "(a = q \<and> r \<le> m \<and> bit v (m - r)) \<or> (a = q + 1 \<and> bit v (8 - r + m))"
    proof
      assume "a = q \<and> r \<le> m"
      moreover from this have "n - p = m - r" by (simp add: p n)
      ultimately show ?thesis using * by simp
    next
      assume "a = q + 1"
      moreover from this have "n - p = 8 - r + m" using r by (simp add: p n)
      ultimately show ?thesis using * by simp
    qed
  qed
  moreover have "bit (push_bit r v) m \<longleftrightarrow> r \<le> m \<and> bit v (m - r)"
    using m by (simp add: bit_push_bit_iff)
  ultimately show ?thesis
    by (simp add: q_def [symmetric] r_def [symmetric] a_def [symmetric] m_def [symmetric] bit_drop_bit_eq)
qed

lemma carry_nonzero:
  fixes v :: byte
  shows "drop_bit (8 - p mod 8) v \<noteq> 0 \<longleftrightarrow> (\<exists>j. bit v j \<and> 8 * (p div 8 + 1) \<le> p + j)"
proof -
  have "drop_bit (8 - p mod 8) v \<noteq> 0 \<longleftrightarrow> (\<exists>m. bit v (8 - p mod 8 + m))"
  proof -
    have "m < 8" if "bit v (8 - p mod 8 + m)" for m
      using bit_imp_le_length [OF that] by simp
    then have "(\<exists>m. bit v (8 - p mod 8 + m)) \<longleftrightarrow> (\<exists>m<8. bit v (8 - p mod 8 + m))" by blast
    then show ?thesis by (simp add: bit_eq_iff bit_drop_bit_eq)
  qed
  also have "\<dots> \<longleftrightarrow> (\<exists>j. bit v j \<and> 8 - p mod 8 \<le> j)"
    by (metis le_add1 le_Suc_ex)
  also have "\<dots> \<longleftrightarrow> (\<exists>j. bit v j \<and> 8 * (p div 8 + 1) \<le> p + j)"
  proof -
    have "8 - p mod 8 \<le> j \<longleftrightarrow> 8 * (p div 8 + 1) \<le> p + j" for j
      by presburger
    then show ?thesis by simp
  qed
  finally show ?thesis .
qed

lemma decode_char_unfold:
  assumes "i < length s" and "s ! i \<in> set alphabet" and "k = length s - 1 - i"
    and "v = dig s k" and "p = k * 5"
  shows "decode_char s outLen out i =
     (if outLen \<le> p div 8 then (if v \<noteq> 0 then Inl (ErrNonCanonical i) else Inr out)
      else let out1 = out[p div 8 := out ! (p div 8) OR push_bit (p mod 8) v];
               carry = drop_bit (8 - p mod 8) v
           in if carry \<noteq> 0
              then (if outLen \<le> p div 8 + 1 then Inl (ErrNonCanonical i)
                    else Inr (out1[p div 8 + 1 := out1 ! (p div 8 + 1) OR carry]))
              else Inr out1)"
    and "\<And>j. bit v j \<Longrightarrow> j < 5"
proof -
  have v: "decTable (s ! i) = v" using assms by (simp add: dig_def)
  moreover have "v \<noteq> 0xff" using assms(2) decTable_valid v by auto
  ultimately show "decode_char s outLen out i =
     (if outLen \<le> p div 8 then (if v \<noteq> 0 then Inl (ErrNonCanonical i) else Inr out)
      else let out1 = out[p div 8 := out ! (p div 8) OR push_bit (p mod 8) v];
               carry = drop_bit (8 - p mod 8) v
           in if carry \<noteq> 0
              then (if outLen \<le> p div 8 + 1 then Inl (ErrNonCanonical i)
                    else Inr (out1[p div 8 + 1 := out1 ! (p div 8 + 1) OR carry]))
              else Inr out1)"
    by (simp only: decode_char_def Let_def assms(3) [symmetric] assms(5) if_False simp_thms)
  show "\<And>j. bit v j \<Longrightarrow> j < 5"
    using bit_decTable_less [OF assms(2)] v by simp
qed

lemma decode_char_not_fits:
  assumes "i < length s" and "s ! i \<in> set alphabet" and "k = length s - 1 - i"
    and "\<not> fits s outLen k"
  shows "decode_char s outLen out i = Inl (ErrNonCanonical i)"
proof -
  define v p where v: "v = dig s k" and p: "p = k * 5"
  note step = decode_char_unfold [OF assms(1-3) v p]
  from assms(4) obtain j where j: "bit v j" "8 * outLen \<le> p + j"
    by (auto simp: fits_def v p not_less mult.commute)
  show ?thesis
  proof (cases "outLen \<le> p div 8")
    case True
    then show ?thesis using j by (auto simp: step(1))
  next
    case False
    have "p + j < 8 * (p div 8 + 2)"
      using step(2) [OF j(1)] by presburger
    with j(2) have "8 * outLen < 8 * (p div 8 + 2)" by linarith
    with False have "outLen = p div 8 + 1" by simp
    moreover from this j have "drop_bit (8 - p mod 8) v \<noteq> 0" using carry_nonzero by auto
    ultimately show ?thesis by (simp add: step(1))
  qed
qed

lemma decode_char_fits:
  assumes "i < length s" and "s ! i \<in> set alphabet" and "k = length s - 1 - i"
    and fits: "fits s outLen k" and out: "length out = outLen"
  shows "\<exists>out'. decode_char s outLen out i = Inr out' \<and> length out' = outLen \<and>
           (\<forall>n. bbit out' n \<longleftrightarrow> bbit out n \<or> (5 * k \<le> n \<and> bit (dig s k) (n - 5 * k)))"
proof -
  define v p where v: "v = dig s k" and p: "p = k * 5"
  note step = decode_char_unfold [OF assms(1-3) v p]
  have f: "p + j < 8 * outLen" if "bit v j" for j
    using fits that by (simp add: fits_def v p mult.commute)
  have bits: "5 * k \<le> n \<and> bit (dig s k) (n - 5 * k) \<longleftrightarrow>
        (n div 8 = p div 8 \<and> bit (push_bit (p mod 8) v) (n mod 8)) \<or>
        (n div 8 = p div 8 + 1 \<and> bit (drop_bit (8 - p mod 8) v) (n mod 8))" for n
    using split_digit_bits [OF step(2), where n = n and p = p] by (simp add: v p mult.commute)
  consider "outLen \<le> p div 8" | "p div 8 < outLen" "drop_bit (8 - p mod 8) v = 0"
    | "p div 8 < outLen" "drop_bit (8 - p mod 8) v \<noteq> 0" by linarith
  then show ?thesis
  proof cases
    case 1
    have "\<not> bit v j" for j
    proof
      assume "bit v j"
      then have "p + j < 8 * outLen" by (rule f)
      moreover have "8 * outLen \<le> 8 * (p div 8)" using 1 by simp
      moreover have "8 * (p div 8) \<le> p" by simp
      ultimately show False by linarith
    qed
    then have "v = 0" by (auto intro: bit_eqI)
    with 1 show ?thesis by (auto simp: step(1) out bits)
  next
    case 2
    then show ?thesis by (auto simp: step(1) Let_def bits out bbit_update bbit_nth bit_or_iff)
  next
    case 3
    then obtain j where "bit v j" "8 * (p div 8 + 1) \<le> p + j" using carry_nonzero by blast
    with f [of j] have "8 * (p div 8 + 1) < 8 * outLen" by simp
    then have "p div 8 + 1 < outLen" by simp
    with 3 show ?thesis by (auto simp: step(1) Let_def bits out bbit_update bbit_nth bit_or_iff)
  qed
qed

text \<open>The whole loop: on success the bits of the output are the bits of all the digits.\<close>

lemma decode_loop_ok:
  assumes "m \<le> length s" and "length out = outLen"
    and "\<And>i. m \<le> i \<Longrightarrow> i < length s \<Longrightarrow> s ! i \<in> set alphabet \<and> fits s outLen (length s - 1 - i)"
  shows "\<exists>out'. decode_loop s outLen out [m..<length s] = Inr out' \<and> length out' = outLen \<and>
           (\<forall>n. bbit out' n \<longleftrightarrow> bbit out n \<or> (n div 5 < length s - m \<and> bit (dig s (n div 5)) (n mod 5)))"
  using assms
proof (induction "length s - m" arbitrary: m out)
  case 0
  then show ?case by simp
next
  case (Suc d)
  then have m: "m < length s" and d: "d = length s - Suc m" by simp_all
  define k where k: "k = length s - 1 - m"
  have km: "length s - m = Suc k" using m by (simp add: k)
  obtain out1 where out1: "decode_char s outLen out m = Inr out1" "length out1 = outLen"
    "\<And>n. bbit out1 n \<longleftrightarrow> bbit out n \<or> (5 * k \<le> n \<and> bit (dig s k) (n - 5 * k))"
    using decode_char_fits [OF m _ k, where outLen = outLen and out = out] Suc.prems(2,3) m k by blast
  obtain out' where out': "decode_loop s outLen out1 [Suc m..<length s] = Inr out'" "length out' = outLen"
    "\<And>n. bbit out' n \<longleftrightarrow> bbit out1 n \<or> (n div 5 < length s - Suc m \<and> bit (dig s (n div 5)) (n mod 5))"
    using Suc.hyps(1) [of "Suc m" out1, OF d _ out1(2)] Suc.prems(3) m by (metis Suc_leD Suc_leI)
  have small: "bit (dig s k) j \<Longrightarrow> j < 5" for j
    using bit_decTable_less Suc.prems(3) [of m] m by (auto simp: dig_def k)
  have "5 * k \<le> n \<and> bit (dig s k) (n - 5 * k) \<longleftrightarrow> n div 5 = k \<and> bit (dig s (n div 5)) (n mod 5)" for n
  proof
    assume *: "5 * k \<le> n \<and> bit (dig s k) (n - 5 * k)"
    then have "n - 5 * k < 5" using small by blast
    with * have "n div 5 = k \<and> n mod 5 = n - 5 * k" by (intro div_mod_unique) auto
    with * show "n div 5 = k \<and> bit (dig s (n div 5)) (n mod 5)" by simp
  next
    assume *: "n div 5 = k \<and> bit (dig s (n div 5)) (n mod 5)"
    then have "5 * k \<le> n \<and> n mod 5 = n - 5 * k" using minus_mod_eq_mult_div [of n 5] by auto
    with * show "5 * k \<le> n \<and> bit (dig s k) (n - 5 * k)" by auto
  qed
  moreover have "length s - Suc m = k" using m by (simp add: k)
  ultimately have "\<forall>n. bbit out' n \<longleftrightarrow> bbit out n \<or> (n div 5 < length s - m \<and> bit (dig s (n div 5)) (n mod 5))"
    by (simp only: out'(3) out1(3) km less_Suc_eq) blast
  then show ?case
    using out1(1) out'(1,2) m by (simp add: upt_conv_Cons)
qed

lemma decode_loop_sound:
  assumes "decode_loop s outLen out [m..<length s] = Inr out'" and "length out = outLen"
    and "m \<le> i" and "i < length s"
  shows "s ! i \<in> set alphabet \<and> fits s outLen (length s - 1 - i)"
  using assms
proof (induction "length s - m" arbitrary: m out)
  case 0
  then show ?case by simp
next
  case (Suc d)
  then have m: "m < length s" and d: "d = length s - Suc m" by simp_all
  with Suc.prems(1) obtain out1 where out1: "decode_char s outLen out m = Inr out1"
    and rest: "decode_loop s outLen out1 [Suc m..<length s] = Inr out'"
    by (auto simp: upt_conv_Cons split: sum.splits)
  have ok: "s ! m \<in> set alphabet \<and> fits s outLen (length s - 1 - m)"
    using out1 decode_char_invalid decode_char_not_fits [OF m _ refl] by fastforce
  then have len: "length out1 = outLen"
    using decode_char_fits [OF m _ refl, where outLen = outLen and out = out] out1 Suc.prems(2) by auto
  show ?case
  proof (cases "i = m")
    case True
    with ok show ?thesis by simp
  next
    case False
    then show ?thesis
      using Suc.hyps(1) [of "Suc m" out1] Suc.hyps(2) rest len Suc.prems m by simp
  qed
qed

section \<open>Decoding characterised, and the round trips\<close>

lemma DecodeString_Inr_iff:
  "DecodeString s = Inr b \<longleftrightarrow>
     set s \<subseteq> set alphabet \<and> (\<forall>k < length s. fits s (length s * 5 div 8) k) \<and>
     length b = length s * 5 div 8 \<and>
     (\<forall>n. bbit b n \<longleftrightarrow> n div 5 < length s \<and> bit (dig s (n div 5)) (n mod 5))"
    (is "_ \<longleftrightarrow> ?A \<and> ?F \<and> ?L \<and> ?B b")
proof -
  define z where "z = replicate (length s * 5 div 8) (0 :: byte)"
  have z: "length z = length s * 5 div 8" "\<not> bbit z n" for n
    by (auto simp: z_def bbit_def)
  have dec: "DecodeString s = decode_loop s (length s * 5 div 8) z [0..<length s]"
    by (simp add: DecodeString_def Let_def z_def)
  have complete: "\<exists>out. DecodeString s = Inr out \<and> length out = length s * 5 div 8 \<and> ?B out" if ?A ?F
    using decode_loop_ok [of 0 s z] that z by (auto simp: dec subset_iff)
  have sound: "?A \<and> ?F" if "DecodeString s = Inr b"
  proof -
    have *: "s ! i \<in> set alphabet \<and> fits s (length s * 5 div 8) (length s - 1 - i)" if "i < length s" for i
      using decode_loop_sound [OF \<open>DecodeString s = Inr b\<close> [unfolded dec] z(1) _ that] by simp
    moreover have "fits s (length s * 5 div 8) k" if "k < length s" for k
      using * [of "length s - 1 - k"] that by simp
    ultimately show ?thesis by (auto simp: in_set_conv_nth)
  qed
  show ?thesis
    using complete sound bbit_eqI [of b] by (metis (no_types, lifting) Inr_inject)
qed

lemma dig_EncodeToString:
  "k < encodedLen (length b) \<Longrightarrow> dig (EncodeToString b) k = ucast (enc_digit b (k * 5))"
  by (simp only: dig_def length_EncodeToString decTable_EncodeToString)

lemma set_EncodeToString: "set (EncodeToString b) \<subseteq> set alphabet"
proof
  fix c assume "c \<in> set (EncodeToString b)"
  then obtain i where i: "i < encodedLen (length b)" "c = EncodeToString b ! i"
    by (auto simp: in_set_conv_nth)
  then show "c \<in> set alphabet"
    using decTable_EncodeToString(2) [of "encodedLen (length b) - 1 - i" b] by simp
qed

lemma bit_dig_EncodeToString:
  assumes "k < encodedLen (length b)"
  shows "bit (dig (EncodeToString b) k) j \<longleftrightarrow> j < 5 \<and> bbit b (5 * k + j)"
proof -
  have "bit (ucast (enc_digit b (k * 5)) :: byte) j \<longleftrightarrow> bit (enc_digit b (k * 5)) j \<and> j < 8"
    by (simp add: bit_unsigned_iff conj_commute)
  also have "\<dots> \<longleftrightarrow> j < 5 \<and> bbit b (k * 5 + j)"
    unfolding bit_enc_digit [OF digit_in_range [OF assms]] by linarith
  finally show ?thesis by (simp only: dig_EncodeToString [OF assms] mult.commute [of k 5])
qed

lemma bbit_less: "bbit b n \<Longrightarrow> n < 8 * length b"
  by (auto simp: bbit_def)

lemma Decode_Encode: "DecodeString (EncodeToString b) = Inr b"
proof -
  let ?E = "encodedLen (length b)"
  have "bbit b n \<longleftrightarrow> n div 5 < ?E \<and> bit (dig (EncodeToString b) (n div 5)) (n mod 5)" for n
  proof -
    have "n div 5 < ?E" if "bbit b n"
      using bbit_less [OF that] encodedLen_bits [of "length b"] by (simp add: less_mult_imp_div_less)
    then show ?thesis by (auto simp: bit_dig_EncodeToString)
  qed
  moreover have "fits (EncodeToString b) (length b) k" if "k < ?E" for k
    using bbit_less by (simp only: fits_def bit_dig_EncodeToString [OF that]) blast
  ultimately show ?thesis
    unfolding DecodeString_Inr_iff length_EncodeToString encodedLen_outLen
    using set_EncodeToString by blast
qed

lemma alphabet_eqI: "c \<in> set alphabet \<Longrightarrow> d \<in> set alphabet \<Longrightarrow> decTable c = decTable d \<Longrightarrow> c = d"
  using decTable_inj by metis

lemma Encode_digit_of_Decode:
  assumes "DecodeString s = Inr b" and "k < encodedLen (length b)" and "k < length s"
  shows "EncodeToString b ! (encodedLen (length b) - 1 - k) = s ! (length s - 1 - k)"
proof -
  have dec: "set s \<subseteq> set alphabet" "\<And>n. bbit b n \<longleftrightarrow> n div 5 < length s \<and> bit (dig s (n div 5)) (n mod 5)"
    using assms(1) by (auto simp: DecodeString_Inr_iff)
  have s: "s ! (length s - 1 - k) \<in> set alphabet" using dec(1) assms(3) by auto
  have "bit (dig (EncodeToString b) k) j \<longleftrightarrow> bit (dig s k) j" for j
  proof -
    have "(5 * k + j) div 5 = k \<and> (5 * k + j) mod 5 = j" if "j < 5"
      using div_mod_unique [OF refl that] .
    moreover have "j < 5" if "bit (dig s k) j"
      using bit_decTable_less [OF s] that unfolding dig_def .
    ultimately show ?thesis
      unfolding bit_dig_EncodeToString [OF assms(2)] dec(2) using assms(3) by metis
  qed
  then have "dig (EncodeToString b) k = dig s k" by (auto intro: bit_eqI)
  then show ?thesis
    unfolding dig_def length_EncodeToString
    by (rule alphabet_eqI [OF decTable_EncodeToString(2) [OF assms(2)] s])
qed

lemma Decode_leading_zero:
  assumes "DecodeString s = Inr b" and "encodedLen (length b) \<le> k" and "k < length s"
  shows "s ! (length s - 1 - k) = CHR ''0''"
proof -
  have dec: "set s \<subseteq> set alphabet" "fits s (length b) k"
    using assms(1,3) by (auto simp: DecodeString_Inr_iff)
  have "\<not> bit (dig s k) j" for j
    using dec(2) encodedLen_bits [of "length b"] assms(2) by (auto simp: fits_def dest!: spec [of _ j])
  then have "dig s k = 0" by (auto intro: bit_eqI)
  then have "decTable (s ! (length s - 1 - k)) = decTable (alphabet ! 0)"
    by (simp add: dig_def decTable_alphabet)
  then have "s ! (length s - 1 - k) = alphabet ! 0"
    using dec(1) assms(3) by (intro alphabet_eqI) auto
  then show ?thesis by (simp add: alphabet_def)
qed

lemma encodedLen_le: "encodedLen (n * 5 div 8) \<le> n \<and> n \<le> encodedLen (n * 5 div 8) + 1"
proof -
  define q where "q = n * 5 div 8"
  have "8 * q \<le> 5 * n \<and> 5 * n < 8 * q + 8"
    unfolding q_def using div_mult_mod_eq [of "n * 5" 8] mod_less_divisor [of 8 "n * 5"] by linarith
  with encodedLen_bits [of q] show ?thesis unfolding q_def by linarith
qed

lemma Decode_canonical:
  assumes "DecodeString s = Inr b"
  shows "s = EncodeToString b \<or> s = CHR ''0'' # EncodeToString b"
proof -
  let ?E = "encodedLen (length b)"
  have len: "length b = length s * 5 div 8" using assms by (simp add: DecodeString_Inr_iff)
  have E: "?E \<le> length s" "length s \<le> ?E + 1" using encodedLen_le [of "length s"] by (auto simp: len)
  have dig: "EncodeToString b ! i = s ! (length s - ?E + i)" if "i < ?E" for i
    using Encode_digit_of_Decode [OF assms, of "?E - 1 - i"] that E by simp
  show ?thesis
  proof (cases "length s = ?E")
    case True
    then have "s = EncodeToString b" using dig by (auto intro!: nth_equalityI)
    then show ?thesis ..
  next
    case False
    with E have l: "length s = Suc ?E" by simp
    have "s ! i = (CHR ''0'' # EncodeToString b) ! i" if "i < length s" for i
      using Decode_leading_zero [OF assms, of ?E] dig [of "i - 1"] that l by (cases i) auto
    then have "s = CHR ''0'' # EncodeToString b" using l by (auto intro!: nth_equalityI)
    then show ?thesis ..
  qed
qed


lemma dig_Cons: "k < length s \<Longrightarrow> dig (c # s) k = dig s k"
  by (simp add: dig_def nth_Cons')

lemma dig_Cons_zero: "dig (CHR ''0'' # s) (length s) = 0"
  using decTable_alphabet [of 0] by (simp add: dig_def alphabet_def)

lemma Decode_zero_Encode:
  assumes "(encodedLen (length b) + 1) * 5 div 8 = length b"
  shows "DecodeString (CHR ''0'' # EncodeToString b) = Inr b"
proof -
  let ?e = "EncodeToString b" and ?E = "encodedLen (length b)"
  note enc = Decode_Encode [of b, unfolded DecodeString_Inr_iff length_EncodeToString encodedLen_outLen]
  have digs: "dig (CHR ''0'' # ?e) k = (if k < ?E then dig ?e k else 0)" if "k < Suc ?E" for k
    using that dig_Cons [of k ?e] dig_Cons_zero [of ?e] by (auto simp: less_Suc_eq)
  have "bbit b n \<longleftrightarrow> n div 5 < Suc ?E \<and> bit (dig (CHR ''0'' # ?e) (n div 5)) (n mod 5)" for n
    using enc digs [of "n div 5"] by (auto split: if_splits)
  moreover have "fits (CHR ''0'' # ?e) (length b) k" if "k < Suc ?E" for k
    using enc digs [OF that] by (auto simp: fits_def)
  moreover have "CHR ''0'' \<in> set alphabet" by (simp add: alphabet_def)
  ultimately show ?thesis
    unfolding DecodeString_Inr_iff using assms enc by simp
qed

lemma Decode_total_on_alphabet:
  assumes "set s \<subseteq> set alphabet" and "8 * n = 5 * length s"
  shows "\<exists>b. DecodeString s = Inr b \<and> length b = n"
proof -
  have "5 * length s div 8 = n" unfolding assms(2) [symmetric] by simp
  then have len: "length s * 5 div 8 = n" by (simp only: mult.commute)
  have "fits s n k" if "k < length s" for k
  proof -
    have "5 * k + j < 8 * n" if "bit (dig s k) j" for j
    proof -
      have "s ! (length s - 1 - k) \<in> set alphabet" using assms(1) \<open>k < length s\<close> by auto
      then have "j < 5" using that bit_decTable_less unfolding dig_def by blast
      with \<open>k < length s\<close> assms(2) show ?thesis by linarith
    qed
    then show ?thesis by (simp add: fits_def)
  qed
  then have "\<exists>out. decode_loop s n (replicate n 0) [0..<length s] = Inr out \<and> length out = n"
    using decode_loop_ok [of 0 s "replicate n 0" n] assms(1) by (auto simp: subset_iff)
  then show ?thesis by (auto simp: DecodeString_def Let_def len)
qed

lemma ValidHashPart_iff_Encode: "ValidHashPart s \<longleftrightarrow> (\<exists>b. length b = 20 \<and> s = EncodeToString b)"
proof
  assume "ValidHashPart s"
  then have s: "length s = 32" "set s \<subseteq> set alphabet"
    by (auto simp: ValidHashPart_def HashPartLen_def list_all_iff decTable_valid)
  then obtain b where "DecodeString s = Inr b" and len: "length b = 20"
    using Decode_total_on_alphabet [of s 20] by auto
  then have "s = EncodeToString b \<or> s = CHR ''0'' # EncodeToString b" using Decode_canonical by blast
  with s len show "\<exists>b. length b = 20 \<and> s = EncodeToString b"
    by (auto simp: encodedLen_def)
next
  assume "\<exists>b. length b = 20 \<and> s = EncodeToString b"
  then show "ValidHashPart s"
    using set_EncodeToString
    by (auto simp: ValidHashPart_def HashPartLen_def list_all_iff decTable_valid encodedLen_def)
qed

section \<open>Properties\<close>

text \<open>
  C1: the base-32 encoding round-trips.  Every byte string decodes from its own encoding, and the
  encoding is exactly \<^verbatim>\<open>(8 n + 4) / 5\<close> characters of the Nix alphabet.
\<close>

theorem nixbase32_roundtrip:
  "DecodeString (EncodeToString b) = Inr b \<and>
   length (EncodeToString b) = encodedLen (length b) \<and> set (EncodeToString b) \<subseteq> set alphabet"
  using Decode_Encode set_EncodeToString by simp

text \<open>
  C2: decoding is exact up to one redundant leading zero.  \<^verbatim>\<open>DecodeString\<close> returns \<open>b\<close> for
  the encoding of \<open>b\<close>, for that encoding with one character \<^verbatim>\<open>0\<close> in front when the longer string
  stands for equally many bytes, and for no other string.
\<close>

theorem nixbase32_decode_canonical:
  "DecodeString s = Inr b \<longleftrightarrow>
     s = EncodeToString b \<or>
     (s = CHR ''0'' # EncodeToString b \<and> (encodedLen (length b) + 1) * 5 div 8 = length b)"
proof
  assume dec: "DecodeString s = Inr b"
  then have "length b = length s * 5 div 8" by (simp add: DecodeString_Inr_iff)
  with Decode_canonical [OF dec]
  show "s = EncodeToString b \<or>
     (s = CHR ''0'' # EncodeToString b \<and> (encodedLen (length b) + 1) * 5 div 8 = length b)"
    by auto
qed (use Decode_Encode Decode_zero_Encode in blast)

text \<open>
  The store-path hash parts that \<^verbatim>\<open>ValidHashPart\<close> accepts are exactly the encodings of 20-byte
  digests.
\<close>

theorem ValidHashPart_exact: "ValidHashPart s \<longleftrightarrow> (\<exists>b. length b = 20 \<and> s = EncodeToString b)"
  by (rule ValidHashPart_iff_Encode)

end
