(* ===== verification/GoText.thy ===== *)
theory GoText
  imports Prelude
begin

text \<open>
  The text codecs of Go's standard library that the sources call: \<^verbatim>\<open>strconv.ParseUint\<close>,
  \<^verbatim>\<open>encoding/hex\<close>, \<^verbatim>\<open>encoding/base64\<close> (\<^verbatim>\<open>StdEncoding\<close> and \<^verbatim>\<open>RawStdEncoding\<close>) and the UTF-8
  decoding of \<^verbatim>\<open>for _, r := range s\<close> with \<^verbatim>\<open>unicode.IsSpace\<close> and \<^verbatim>\<open>unicode.IsControl\<close>.
  Errors keep their kind; the byte offset of a base64 \<^verbatim>\<open>CorruptInputError\<close> is left out.
\<close>

section \<open>strconv.ParseUint, base 10, 64 bits\<close>

datatype num_error = ErrSyntax | ErrRange

definition is_digit :: "char \<Rightarrow> bool" where
  "is_digit c \<longleftrightarrow> 48 \<le> (of_char c :: nat) \<and> (of_char c :: nat) \<le> 57"

definition digit_val :: "char \<Rightarrow> nat" where
  "digit_val c = of_char c - 48"

fun parse_digits :: "nat \<Rightarrow> string \<Rightarrow> num_error + nat" where
  "parse_digits n [] = Inr n"
| "parse_digits n (c # cs) =
     (if \<not> is_digit c then Inl ErrSyntax
      else if 2 ^ 64 \<le> n * 10 + digit_val c then Inl ErrRange
      else parse_digits (n * 10 + digit_val c) cs)"

definition ParseUint :: "string \<Rightarrow> num_error + uint64" where
  "ParseUint s =
     (if s = [] then Inl ErrSyntax
      else case parse_digits 0 s of Inl e \<Rightarrow> Inl e | Inr n \<Rightarrow> Inr (word_of_nat n))"

section \<open>Package encoding/hex\<close>

datatype codec_error = HexInvalidByte char | HexErrLength | CorruptInputError

definition hex_digits :: string where
  "hex_digits = ''0123456789abcdef''"

definition hex_val :: "char \<Rightarrow> nat option" where
  "hex_val c =
     (let n = of_char c in
      if 48 \<le> n \<and> n \<le> 57 then Some (n - 48)
      else if 97 \<le> n \<and> n \<le> 102 then Some (n - 87)
      else if 65 \<le> n \<and> n \<le> 70 then Some (n - 55)
      else None)"

fun hex_DecodeString :: "string \<Rightarrow> codec_error + bytes" where
  "hex_DecodeString [] = Inr []"
| "hex_DecodeString [c] = (case hex_val c of None \<Rightarrow> Inl (HexInvalidByte c) | Some _ \<Rightarrow> Inl HexErrLength)"
| "hex_DecodeString (a # b # cs) =
     (case hex_val a of None \<Rightarrow> Inl (HexInvalidByte a)
      | Some x \<Rightarrow>
        (case hex_val b of None \<Rightarrow> Inl (HexInvalidByte b)
         | Some y \<Rightarrow>
           (case hex_DecodeString cs of Inl e \<Rightarrow> Inl e
            | Inr r \<Rightarrow> Inr (word_of_nat (x * 16 + y) # r))))"

definition hex_EncodedLen :: "nat \<Rightarrow> nat" where
  "hex_EncodedLen n = n * 2"

definition hex_EncodeToString :: "bytes \<Rightarrow> string" where
  "hex_EncodeToString b = concat (map (\<lambda>w. [hex_digits ! (unat w div 16), hex_digits ! (unat w mod 16)]) b)"

section \<open>Package encoding/base64\<close>

definition b64_alphabet :: string where
  "b64_alphabet = ''ABCDEFGHIJKLMNOPQRSTUVWXYZabcdefghijklmnopqrstuvwxyz0123456789+/''"

definition b64_char :: "nat \<Rightarrow> char" where
  "b64_char n = b64_alphabet ! n"

definition b64_val :: "char \<Rightarrow> nat option" where
  "b64_val c =
     (let n = of_char c in
      if 65 \<le> n \<and> n \<le> 90 then Some (n - 65)
      else if 97 \<le> n \<and> n \<le> 122 then Some (n - 71)
      else if 48 \<le> n \<and> n \<le> 57 then Some (n + 4)
      else if n = 43 then Some 62
      else if n = 47 then Some 63
      else None)"

text \<open>The 6-bit digits of one quantum of three, two or one bytes.\<close>

definition b64_quad :: "byte \<Rightarrow> byte \<Rightarrow> byte \<Rightarrow> nat list" where
  "b64_quad x y z =
     [unat x div 4, unat x mod 4 * 16 + unat y div 16, unat y mod 16 * 4 + unat z div 64, unat z mod 64]"

fun base64_EncodeToString :: "bytes \<Rightarrow> string" where
  "base64_EncodeToString [] = []"
| "base64_EncodeToString [x] = map b64_char (take 2 (b64_quad x 0 0)) @ ''==''"
| "base64_EncodeToString [x, y] = map b64_char (take 3 (b64_quad x y 0)) @ ''=''"
| "base64_EncodeToString (x # y # z # r) = map b64_char (b64_quad x y z) @ base64_EncodeToString r"

definition base64_EncodedLen :: "nat \<Rightarrow> nat" where
  "base64_EncodedLen n = (n + 2) div 3 * 4"

definition byte3 :: "nat \<Rightarrow> nat \<Rightarrow> nat \<Rightarrow> nat \<Rightarrow> bytes" where
  "byte3 a b c d =
     (let val = a * 2 ^ 18 + b * 2 ^ 12 + c * 2 ^ 6 + d
      in [word_of_nat (val div 2 ^ 16), word_of_nat (val div 2 ^ 8 mod 256), word_of_nat (val mod 256)])"

definition is_newline :: "char \<Rightarrow> bool" where
  "is_newline c \<longleftrightarrow> of_char c = (10::nat) \<or> of_char c = (13::nat)"

text \<open>
  One quantum at a time over the input without its line breaks.  \<open>pad\<close> distinguishes
  \<^verbatim>\<open>StdEncoding\<close> (padding character \<^verbatim>\<open>=\<close>) from \<^verbatim>\<open>RawStdEncoding\<close> (none); neither is strict, so the
  unused low bits of a last partial quantum are ignored.
\<close>

fun base64_quanta :: "bool \<Rightarrow> string \<Rightarrow> codec_error + bytes" where
  "base64_quanta pad [] = Inr []"
| "base64_quanta pad (c0 # c1 # c2 # c3 # cs) =
     (case (b64_val c0, b64_val c1, b64_val c2, b64_val c3) of
        (Some a, Some b, Some c, Some d) \<Rightarrow>
          (case base64_quanta pad cs of Inl e \<Rightarrow> Inl e | Inr r \<Rightarrow> Inr (byte3 a b c d @ r))
      | (Some a, Some b, Some c, None) \<Rightarrow>
          (if pad \<and> c3 = CHR ''='' \<and> cs = [] then Inr (take 2 (byte3 a b c 0)) else Inl CorruptInputError)
      | (Some a, Some b, None, _) \<Rightarrow>
          (if pad \<and> c2 = CHR ''='' \<and> c3 = CHR ''='' \<and> cs = [] then Inr (take 1 (byte3 a b 0 0))
           else Inl CorruptInputError)
      | _ \<Rightarrow> Inl CorruptInputError)"
| "base64_quanta pad [c0, c1, c2] =
     (case (b64_val c0, b64_val c1, b64_val c2) of
        (Some a, Some b, Some c) \<Rightarrow> if pad then Inl CorruptInputError else Inr (take 2 (byte3 a b c 0))
      | _ \<Rightarrow> Inl CorruptInputError)"
| "base64_quanta pad [c0, c1] =
     (case (b64_val c0, b64_val c1) of
        (Some a, Some b) \<Rightarrow> if pad then Inl CorruptInputError else Inr (take 1 (byte3 a b 0 0))
      | _ \<Rightarrow> Inl CorruptInputError)"
| "base64_quanta pad [c0] = Inl CorruptInputError"

definition base64_DecodeString :: "bool \<Rightarrow> string \<Rightarrow> codec_error + bytes" where
  "base64_DecodeString pad s = base64_quanta pad (filter (\<lambda>c. \<not> is_newline c) s)"

abbreviation StdEncoding_DecodeString :: "string \<Rightarrow> codec_error + bytes" where
  "StdEncoding_DecodeString \<equiv> base64_DecodeString True"

abbreviation RawStdEncoding_DecodeString :: "string \<Rightarrow> codec_error + bytes" where
  "RawStdEncoding_DecodeString \<equiv> base64_DecodeString False"

section \<open>UTF-8 and package unicode\<close>

text \<open>
  The first rune of a non-empty string and its width (\<^verbatim>\<open>utf8.DecodeRuneInString\<close>): an encoding
  that is not valid UTF-8 is \<^verbatim>\<open>U+FFFD\<close> of width one.
\<close>

definition is_cont :: "nat \<Rightarrow> bool" where
  "is_cont b \<longleftrightarrow> 0x80 \<le> b \<and> b \<le> 0xBF"

definition DecodeRune :: "nat list \<Rightarrow> nat \<times> nat" where
  "DecodeRune b =
     (case b of
        [] \<Rightarrow> (0xFFFD, 0)
      | b0 # t \<Rightarrow>
          if b0 < 0x80 then (b0, 1)
          else if 0xC2 \<le> b0 \<and> b0 \<le> 0xDF \<and> 1 \<le> length t \<and> is_cont (t ! 0)
          then ((b0 - 0xC0) * 64 + (t ! 0 - 0x80), 2)
          else if 0xE0 \<le> b0 \<and> b0 \<le> 0xEF \<and> 2 \<le> length t \<and>
                  (if b0 = 0xE0 then 0xA0 else 0x80) \<le> t ! 0 \<and>
                  t ! 0 \<le> (if b0 = 0xED then 0x9F else 0xBF) \<and> is_cont (t ! 1)
          then ((b0 - 0xE0) * 4096 + (t ! 0 - 0x80) * 64 + (t ! 1 - 0x80), 3)
          else if 0xF0 \<le> b0 \<and> b0 \<le> 0xF4 \<and> 3 \<le> length t \<and>
                  (if b0 = 0xF0 then 0x90 else 0x80) \<le> t ! 0 \<and>
                  t ! 0 \<le> (if b0 = 0xF4 then 0x8F else 0xBF) \<and> is_cont (t ! 1) \<and> is_cont (t ! 2)
          then ((b0 - 0xF0) * 262144 + (t ! 0 - 0x80) * 4096 + (t ! 1 - 0x80) * 64 + (t ! 2 - 0x80), 4)
          else (0xFFFD, 1))"

lemma DecodeRune_width_pos: "0 < snd (DecodeRune (b # t))"
  by (simp add: DecodeRune_def)

text \<open>The runes \<^verbatim>\<open>for _, r := range s\<close> visits.\<close>

function runes :: "nat list \<Rightarrow> nat list" where
  "runes [] = []"
| "runes (b # t) = fst (DecodeRune (b # t)) # runes (drop (snd (DecodeRune (b # t))) (b # t))"
  by pat_completeness auto
termination
  by (relation "measure length") (use DecodeRune_width_pos in \<open>auto simp del: drop_Suc_Cons\<close>)

definition range_runes :: "string \<Rightarrow> nat list" where
  "range_runes s = runes (map of_char s)"

definition unicode_IsSpace :: "nat \<Rightarrow> bool" where
  "unicode_IsSpace r \<longleftrightarrow>
     (if r \<le> 0xFF then r \<in> {9, 10, 11, 12, 13, 32, 0x85, 0xA0}
      else r = 0x1680 \<or> (0x2000 \<le> r \<and> r \<le> 0x200A) \<or> r \<in> {0x2028, 0x2029, 0x202F, 0x205F, 0x3000})"

text \<open>\<^verbatim>\<open>strings.Fields\<close>: the maximal runs of runes that are not white space.\<close>

function fields_loop :: "nat list \<Rightarrow> nat list \<Rightarrow> nat list list" where
  "fields_loop cur [] = (if cur = [] then [] else [cur])"
| "fields_loop cur (b # t) =
     (let w = snd (DecodeRune (b # t)); rest = drop w (b # t) in
      if unicode_IsSpace (fst (DecodeRune (b # t)))
      then (if cur = [] then [] else [cur]) @ fields_loop [] rest
      else fields_loop (cur @ take w (b # t)) rest)"
  by pat_completeness auto
termination
  by (relation "measure (\<lambda>(_, l). length l)") (use DecodeRune_width_pos in \<open>auto simp del: drop_Suc_Cons\<close>)

definition strings_Fields :: "string \<Rightarrow> string list" where
  "strings_Fields s = map (map char_of) (fields_loop [] (map of_char s))"

text \<open>
  \<^verbatim>\<open>strings.TrimSpace\<close>: white space goes rune by rune at both ends; the last rune is found as
  \<^verbatim>\<open>utf8.DecodeLastRuneInString\<close> does, from the last start byte within four.
\<close>

function trim_left :: "nat list \<Rightarrow> nat list" where
  "trim_left [] = []"
| "trim_left (b # t) =
     (if unicode_IsSpace (fst (DecodeRune (b # t))) then trim_left (drop (snd (DecodeRune (b # t))) (b # t)) else b # t)"
  by pat_completeness auto
termination
  by (relation "measure length") (use DecodeRune_width_pos in \<open>auto simp del: drop_Suc_Cons\<close>)

definition DecodeLastRune :: "nat list \<Rightarrow> nat \<times> nat" where
  "DecodeLastRune b =
     (case filter (\<lambda>k. k \<le> length b \<and> \<not> is_cont (b ! (length b - k))) [1, 2, 3, 4] of
        [] \<Rightarrow> (0xFFFD, 1)
      | k # _ \<Rightarrow> (case DecodeRune (drop (length b - k) b) of (r, w) \<Rightarrow> if w = k then (r, w) else (0xFFFD, 1)))"

lemma DecodeLastRune_width_pos: "0 < snd (DecodeLastRune b)"
  by (auto simp: DecodeLastRune_def filter_eq_Cons_iff split: list.splits prod.splits)

function trim_right :: "nat list \<Rightarrow> nat list" where
  "trim_right b =
     (if b \<noteq> [] \<and> unicode_IsSpace (fst (DecodeLastRune b)) then trim_right (take (length b - snd (DecodeLastRune b)) b) else b)"
  by pat_completeness auto
termination
  by (relation "measure length") (use DecodeLastRune_width_pos in \<open>auto simp: min_def not_le intro!: diff_less\<close>)

declare trim_right.simps [simp del]

definition TrimSpace :: "string \<Rightarrow> string" where
  "TrimSpace s = map char_of (trim_right (trim_left (map of_char s)))"

definition unicode_IsControl :: "nat \<Rightarrow> bool" where
  "unicode_IsControl r \<longleftrightarrow> r \<le> 0x1F \<or> (0x7F \<le> r \<and> r \<le> 0x9F)"

lemma trim_right_suffix_not_space: "trim_right b = [] \<or> \<not> unicode_IsSpace (fst (DecodeLastRune (trim_right b)))"
  by (induction b rule: trim_right.induct) (subst (1 2) trim_right.simps, simp)

section \<open>Numbers\<close>

lemma parse_digits_append:
  "parse_digits n (s @ t) = (case parse_digits n s of Inl e \<Rightarrow> Inl e | Inr m \<Rightarrow> parse_digits m t)"
  by (induction s arbitrary: n) auto

lemma digit_char_props:
  assumes "d < 10"
  shows "is_digit (digit_char d)" and "digit_val (digit_char d) = d"
  using assms by (simp_all add: is_digit_def digit_val_def digit_char_def)

lemma parse_digits_format_nat: "n < 2 ^ 64 \<Longrightarrow> parse_digits 0 (format_nat n) = Inr n"
proof (induction n rule: format_nat.induct)
  case (1 n)
  show ?case
  proof (cases "n < 10")
    case True
    with 1(2) show ?thesis by (subst format_nat.simps) (simp add: digit_char_props)
  next
    case False
    with 1 have "parse_digits 0 (format_nat (n div 10)) = Inr (n div 10)" by simp
    with False 1(2) show ?thesis
      by (subst format_nat.simps) (simp add: parse_digits_append digit_char_props)
  qed
qed

lemma ParseUint_FormatUint [go_simps]: "ParseUint (FormatUint v) = Inr v"
  using unsigned_less [where 'a = nat and w = v]
  by (simp add: ParseUint_def FormatUint_def parse_digits_format_nat)

lemma format_nat_length: "n < 10 ^ Suc k \<Longrightarrow> length (format_nat n) \<le> Suc k"
proof (induction k arbitrary: n)
  case (Suc k)
  then have "n div 10 < 10 ^ Suc k" by (simp add: less_mult_imp_div_less)
  then show ?case using Suc.IH by (subst format_nat.simps) simp
qed (subst format_nat.simps, simp)

lemma FormatUint_length: "length (FormatUint v) \<le> 20"
proof -
  have "unat v < 2 ^ 64" using unsigned_less [where 'a = nat and w = v] by simp
  also have "(2 :: nat) ^ 64 < 10 ^ Suc 19" by simp
  finally have "unat v < 10 ^ Suc 19" .
  from format_nat_length [OF this] show ?thesis by (simp add: FormatUint_def)
qed

lemma FormatUint_nonempty [simp]: "FormatUint v \<noteq> []"
  by (simp add: FormatUint_def)

lemma FormatUint_chars: "c \<in> set (FormatUint v) \<Longrightarrow> is_digit c"
  using format_nat_digits by (auto simp: FormatUint_def is_digit_def)

section \<open>Hexadecimal\<close>

lemma hex_val_digit: "n < 16 \<Longrightarrow> hex_val (hex_digits ! n) = Some n"
  by (simp add: hex_val_def hex_digits_def less_Suc_eq numeral_eq_Suc, elim disjE; simp)

lemma hex_Decode_Encode: "hex_DecodeString (hex_EncodeToString b) = Inr b"
proof (induction b)
  case (Cons w b)
  have "unat w < 256" using unsigned_less [where 'a = nat and w = w] by simp
  then have "unat w div 16 < 16" "unat w mod 16 < 16" by auto
  with Cons show ?case
    by (simp add: hex_EncodeToString_def hex_val_digit)
qed (simp add: hex_EncodeToString_def)

lemma hex_Decode_length: "hex_DecodeString s = Inr b \<Longrightarrow> length s = 2 * length b"
  by (induction s arbitrary: b rule: hex_DecodeString.induct) (auto split: option.splits sum.splits)

lemma length_hex_Encode: "length (hex_EncodeToString b) = hex_EncodedLen (length b)"
  by (induction b) (auto simp: hex_EncodeToString_def hex_EncodedLen_def)

section \<open>Base 64\<close>

lemma b64_val_alphabet: "map b64_val b64_alphabet = map Some [0..<64]"
  unfolding b64_alphabet_def b64_val_def Let_def by (simp add: upt_rec_numeral upt_rec [of 0] upt_rec [of "Suc 0"] numeral_2_eq_2 [symmetric])

lemma b64_alphabet_clean:
  "list_all (\<lambda>c. c \<noteq> CHR ''='' \<and> c \<noteq> CHR '':'' \<and> \<not> is_newline c) b64_alphabet"
  unfolding b64_alphabet_def is_newline_def by simp

lemma b64_char_props:
  assumes "n < 64"
  shows "b64_val (b64_char n) = Some n" and "b64_char n \<noteq> CHR ''=''" and "\<not> is_newline (b64_char n)"
    and "b64_char n \<noteq> CHR '':''"
proof -
  have len: "length b64_alphabet = 64" by (simp add: b64_alphabet_def)
  then show "b64_val (b64_char n) = Some n"
    using assms arg_cong [OF b64_val_alphabet, of "\<lambda>l. l ! n"] by (simp add: b64_char_def)
  have "b64_char n \<in> set b64_alphabet" using assms len by (simp add: b64_char_def)
  then show "b64_char n \<noteq> CHR ''=''" "\<not> is_newline (b64_char n)" "b64_char n \<noteq> CHR '':''"
    using b64_alphabet_clean unfolding list_all_iff by blast+
qed

lemma b64_quad_less: "d \<in> set (b64_quad x y z) \<Longrightarrow> d < 64"
proof -
  have "unat x < 256" "unat y < 256" "unat z < 256"
    using unsigned_less [where 'a = nat and w = x] unsigned_less [where 'a = nat and w = y]
      unsigned_less [where 'a = nat and w = z] by simp_all
  then have "unat x div 4 < 64" "unat y div 16 < 16" "unat z div 64 < 4"
    by (simp_all add: less_mult_imp_div_less)
  moreover have "unat x mod 4 < 4" "unat y mod 16 < 16" "unat z mod 64 < 64" by simp_all
  ultimately show "d \<in> set (b64_quad x y z) \<Longrightarrow> d < 64"
    unfolding b64_quad_def by (simp, elim disjE; linarith)
qed

lemma b64_bytes:
  fixes x y z :: nat
  assumes "x < 256" "y < 256" "z < 256"
  shows "(x div 4) * 2 ^ 18 + (x mod 4 * 16 + y div 16) * 2 ^ 12 + (y mod 16 * 4 + z div 64) * 2 ^ 6 + z mod 64
         = x * 65536 + y * 256 + z"
proof -
  obtain p q where "x = p * 4 + q" "x div 4 = p" "x mod 4 = q"
    by (metis div_mult_mod_eq)
  moreover obtain r s where "y = r * 16 + s" "y div 16 = r" "y mod 16 = s"
    by (metis div_mult_mod_eq)
  moreover obtain t u where "z = t * 64 + u" "z div 64 = t" "z mod 64 = u"
    by (metis div_mult_mod_eq)
  ultimately show ?thesis by (simp only:) simp
qed

lemma byte3_quad:
  "byte3 (b64_quad x y z ! 0) (b64_quad x y z ! 1) (b64_quad x y z ! 2) (b64_quad x y z ! 3) = [x, y, z]"
proof -
  have b: "unat x < 256" "unat y < 256" "unat z < 256"
    using unsigned_less [where 'a = nat and w = x] unsigned_less [where 'a = nat and w = y]
      unsigned_less [where 'a = nat and w = z] by simp_all
  define v where "v = unat x * 65536 + unat y * 256 + unat z"
  have "v div 65536 = unat x" "v div 256 mod 256 = unat y" "v mod 256 = unat z"
  proof -
    have v: "v div 256 = unat x * 256 + unat y \<and> v mod 256 = unat z"
      using b by (intro div_mod_unique) (simp_all add: v_def)
    have w: "(unat x * 256 + unat y) div 256 = unat x \<and> (unat x * 256 + unat y) mod 256 = unat y"
      using b by (intro div_mod_unique) simp_all
    have "v div 65536 = v div 256 div 256" by (simp add: div_mult2_eq [symmetric])
    then show "v div 65536 = unat x" "v div 256 mod 256 = unat y" "v mod 256 = unat z"
      using v w by simp_all
  qed
  then show ?thesis
    unfolding byte3_def b64_quad_def Let_def
    using b64_bytes [OF b] by (simp add: v_def [symmetric])
qed


lemma b64_quad_cases:
  obtains a b c d where "b64_quad x y z = [a, b, c, d]" "a < 64" "b < 64" "c < 64" "d < 64"
    "byte3 a b c d = [x, y, z]"
proof -
  obtain a b c d where q: "b64_quad x y z = [a, b, c, d]" by (simp add: b64_quad_def)
  then show thesis
    using that b64_quad_less [of _ x y z] byte3_quad [of x y z] by simp
qed

lemma b64_quad_pad:
  "b64_quad x y 0 ! 3 = 0" "b64_quad x 0 0 ! 2 = 0" "b64_quad x 0 0 ! 3 = 0"
  by (simp_all add: b64_quad_def)

lemma base64_quanta_Encode: "base64_quanta True (base64_EncodeToString b) = Inr b"
proof (induction b rule: base64_EncodeToString.induct)
  case (2 x)
  obtain a b c d where q: "b64_quad x 0 0 = [a, b, c, d]" "a < 64" "b < 64" "byte3 a b c d = [x, 0, 0]"
    by (rule b64_quad_cases)
  moreover have "c = 0" "d = 0" using b64_quad_pad(2,3) [of x] q(1) by simp_all
  ultimately show ?case using b64_char_props by (simp add: b64_val_def)
next
  case (3 x y)
  obtain a b c d where q: "b64_quad x y 0 = [a, b, c, d]" "a < 64" "b < 64" "c < 64" "byte3 a b c d = [x, y, 0]"
    by (rule b64_quad_cases)
  moreover have "d = 0" using b64_quad_pad(1) [of x y] q(1) by simp
  ultimately show ?case using b64_char_props by (simp add: b64_val_def)
next
  case (4 x y z r)
  obtain a b c d where "b64_quad x y z = [a, b, c, d]" "a < 64" "b < 64" "c < 64" "d < 64" "byte3 a b c d = [x, y, z]"
    by (rule b64_quad_cases)
  then show ?case using 4 b64_char_props by simp
qed simp

lemma base64_raw_quanta_Encode:
  "base64_quanta False (takeWhile (\<lambda>c. c \<noteq> CHR ''='') (base64_EncodeToString b)) = Inr b"
proof (induction b rule: base64_EncodeToString.induct)
  case (2 x)
  obtain a b c d where q: "b64_quad x 0 0 = [a, b, c, d]" "a < 64" "b < 64" "byte3 a b c d = [x, 0, 0]"
    by (rule b64_quad_cases)
  moreover have "c = 0" "d = 0" using b64_quad_pad(2,3) [of x] q(1) by simp_all
  ultimately show ?case using b64_char_props by simp
next
  case (3 x y)
  obtain a b c d where q: "b64_quad x y 0 = [a, b, c, d]" "a < 64" "b < 64" "c < 64" "byte3 a b c d = [x, y, 0]"
    by (rule b64_quad_cases)
  moreover have "d = 0" using b64_quad_pad(1) [of x y] q(1) by simp
  ultimately show ?case using b64_char_props by simp
next
  case (4 x y z r)
  obtain a b c d where "b64_quad x y z = [a, b, c, d]" "a < 64" "b < 64" "c < 64" "d < 64" "byte3 a b c d = [x, y, z]"
    by (rule b64_quad_cases)
  then show ?case using 4 b64_char_props by simp
qed simp

lemma base64_Encode_chars:
  "c \<in> set (base64_EncodeToString b) \<Longrightarrow> \<not> is_newline c \<and> c \<noteq> CHR '':''"
proof (induction b rule: base64_EncodeToString.induct)
  case (2 x)
  then show ?case
    by (cases rule: b64_quad_cases [of x 0 0]) (use b64_char_props in \<open>auto simp: is_newline_def\<close>)
next
  case (3 x y)
  then show ?case
    by (cases rule: b64_quad_cases [of x y 0]) (use b64_char_props in \<open>auto simp: is_newline_def\<close>)
next
  case (4 x y z r)
  then show ?case
    by (cases rule: b64_quad_cases [of x y z]) (use b64_char_props in \<open>auto simp: is_newline_def\<close>)
qed simp

lemma filter_newline_id: "(\<And>c. c \<in> set s \<Longrightarrow> \<not> is_newline c) \<Longrightarrow> filter (\<lambda>c. \<not> is_newline c) s = s"
  by (simp add: filter_id_conv)

lemma base64_Decode_Encode [go_simps]: "StdEncoding_DecodeString (base64_EncodeToString b) = Inr b"
  using base64_Encode_chars
  by (simp add: base64_DecodeString_def filter_newline_id base64_quanta_Encode)

lemma base64_raw_Decode_Encode:
  "RawStdEncoding_DecodeString (takeWhile (\<lambda>c. c \<noteq> CHR ''='') (base64_EncodeToString b)) = Inr b"
proof -
  have "\<not> is_newline c" if "c \<in> set (takeWhile (\<lambda>c. c \<noteq> CHR ''='') (base64_EncodeToString b))" for c
    using base64_Encode_chars set_takeWhileD [OF that] by blast
  from filter_newline_id [OF this] show ?thesis
    unfolding base64_DecodeString_def by (simp only: base64_raw_quanta_Encode)
qed

lemma length_base64_Encode: "length (base64_EncodeToString b) = base64_EncodedLen (length b)"
proof (induction b rule: base64_EncodeToString.induct)
  case (4 x y z r)
  have "(length r + 2 + 3) div 3 = (length r + 2) div 3 + 1" by simp
  with 4 show ?case by (simp add: base64_EncodedLen_def b64_quad_def)
qed (simp_all add: base64_EncodedLen_def b64_quad_def)

section \<open>Runes\<close>

lemma DecodeRune_ascii: "b < 0x80 \<Longrightarrow> DecodeRune (b # t) = (b, 1)"
  by (simp add: DecodeRune_def)

lemma DecodeRune_tail_not_ascii:
  assumes "Suc i < snd (DecodeRune (b # t))"
  shows "i < length t \<and> 0x80 \<le> t ! i"
proof -
  have "i = 0 \<or> i = 1 \<or> i = 2"
    using assms unfolding DecodeRune_def by (simp split: if_splits) linarith+
  then show ?thesis
  proof (elim disjE)
    assume "i = 0"
    with assms show ?thesis
      unfolding DecodeRune_def is_cont_def by (cases t) (simp_all split: if_splits)
  next
    assume "i = 1"
    with assms show ?thesis unfolding DecodeRune_def is_cont_def by (simp split: if_splits)
  next
    assume "i = 2"
    with assms show ?thesis unfolding DecodeRune_def is_cont_def by (simp split: if_splits)
  qed
qed

text \<open>An ASCII byte is never part of a longer rune, so the loop visits every one of them.\<close>

lemma ascii_in_runes: "b \<in> set l \<Longrightarrow> b < 0x80 \<Longrightarrow> b \<in> set (runes l)"
proof (induction l rule: runes.induct)
  case (2 c t)
  let ?w = "snd (DecodeRune (c # t))"
  show ?case
  proof (cases "b \<in> set (drop ?w (c # t))")
    case True
    with 2 show ?thesis by simp
  next
    case False
    with 2(2) have "b \<in> set (take ?w (c # t))"
      by (metis append_take_drop_id set_append UnE)
    then obtain i where i: "i < ?w" "i < Suc (length t)" "b = (c # t) ! i"
      by (auto simp: in_set_conv_nth)
    have "i = 0"
      using i 2(3) DecodeRune_tail_not_ascii [of "i - 1" c t] by (cases i) auto
    with i 2(3) show ?thesis by (simp add: DecodeRune_ascii)
  qed
qed simp

lemma ascii_in_range_runes: "c \<in> set s \<Longrightarrow> of_char c < (0x80::nat) \<Longrightarrow> of_char c \<in> set (range_runes s)"
  unfolding range_runes_def by (rule ascii_in_runes) auto

end
