(* ===== verification/Narinfo.thy ===== *)
theory Narinfo
  imports GoText Nixbase32 "HOL-Library.Multiset"
begin

text \<open>
  Package \<^verbatim>\<open>narinfo\<close> (\<^verbatim>\<open>narinfo/narinfo.go\<close>): parsing and rendering of narinfo metadata, the
  canonical form of hashes and the fingerprint that gets signed.  The state of the parser is a
  record, every error the source returns is a constructor of \<open>narinfo_error\<close>, and the reader is its
  contents with the error that ends them.  The lemmas show that parsing confines every store path
  to the store, that rendering and parsing are inverse on what the parser accepts, and that the
  fingerprint determines what it is meant to bind.
\<close>

section \<open>Data\<close>

record NarInfo =
  StorePath :: string
  URL :: string
  Compression :: string
  FileHash :: string
  FileSize :: uint64
  NarHash :: string
  NarSize :: uint64
  References :: "string list"
  Deriver :: string
  Sigs :: "string list"
  CA :: string

definition DefaultStoreDir :: string where
  "DefaultStoreDir = ''/nix/store''"

definition defaultCompression :: string where
  "defaultCompression = ''bzip2''"

definition unknownDeriver :: string where
  "unknownDeriver = ''unknown-deriver''"

definition maxNameLen :: nat where
  "maxNameLen = 211"

definition maxSignatures :: nat where
  "maxSignatures = 1024"

datatype digest_error =
    DigestHex codec_error | DigestBase32 nixbase32_error | DigestBase64 codec_error
  | DigestCR | DigestLength nat

datatype hash_error =
    NoAlgorithmPrefix string | UnknownAlgorithm string | BadDigest string digest_error
  | WrongDigestSize string nat nat

datatype narinfo_error =
    errTooManyReferences nat | errTooManySigs nat | errMissingField string
  | errInvalidStorePath string | errInvalidName string | errInvalidHash string hash_error
  | errDuplicateField string | errInvalidNumber string string num_error | errRead string

definition zeroNarInfo :: NarInfo where
  "zeroNarInfo =
     \<lparr>StorePath = [], URL = [], Compression = [], FileHash = [], FileSize = 0, NarHash = [],
      NarSize = 0, References = [], Deriver = [], Sigs = [], CA = []\<rparr>"

section \<open>Store paths and hashes\<close>

definition storePrefix :: "string \<Rightarrow> string" where
  "storePrefix storeDir =
     (let d = (if storeDir = [] then DefaultStoreDir else storeDir) in TrimSuffix d ''/'' @ ''/'')"

definition nameChar :: "char \<Rightarrow> bool" where
  "nameChar c \<longleftrightarrow>
     (CHR ''a'' \<le> c \<and> c \<le> CHR ''z'') \<or> (CHR ''A'' \<le> c \<and> c \<le> CHR ''Z'') \<or> (CHR ''0'' \<le> c \<and> c \<le> CHR ''9'') \<or>
     c = CHR ''+'' \<or> c = CHR ''-'' \<or> c = CHR ''.'' \<or> c = CHR ''_'' \<or> c = CHR ''?'' \<or> c = CHR ''=''"

definition validName :: "string \<Rightarrow> bool" where
  "validName s \<longleftrightarrow> \<not> (s = [] \<or> maxNameLen < length s \<or> s ! 0 = CHR ''.'') \<and> list_all nameChar s"

definition validBasename :: "string \<Rightarrow> bool" where
  "validBasename s =
     (case Cut s ''-'' of (hash, nm, ok) \<Rightarrow> ok \<and> ValidHashPart hash \<and> validName nm)"

definition hashSizes :: "string \<Rightarrow> nat option" where
  "hashSizes = map_of [(''md5'', 16), (''sha1'', 20), (''sha256'', 32), (''sha512'', 64)]"

definition decodeBase64 :: "string \<Rightarrow> digest_error + bytes" where
  "decodeBase64 s0 =
     (let s = fst (Cut s0 ''='') in
      if char_of (13 :: nat) \<in> set s then Inl DigestCR
      else case RawStdEncoding_DecodeString s of Inl e \<Rightarrow> Inl (DigestBase64 e) | Inr b \<Rightarrow> Inr b)"

definition decodeDigest :: "string \<Rightarrow> nat \<Rightarrow> digest_error + bytes" where
  "decodeDigest s sz =
     (if length s = hex_EncodedLen sz
      then (case hex_DecodeString s of Inl e \<Rightarrow> Inl (DigestHex e) | Inr b \<Rightarrow> Inr b)
      else if length s = (sz * 8 + 4) div 5
      then (case DecodeString s of Inl e \<Rightarrow> Inl (DigestBase32 e) | Inr b \<Rightarrow> Inr b)
      else if length s = base64_EncodedLen sz then decodeBase64 s
      else Inl (DigestLength (length s)))"

definition CanonicalHash :: "string \<Rightarrow> hash_error + string" where
  "CanonicalHash s =
     (case Cut s '':'' of (algo0, digest0, colon) \<Rightarrow>
      (case (if colon then (algo0, digest0, True) else Cut s ''-'') of (algo, digest, ok) \<Rightarrow>
       if \<not> ok then Inl (NoAlgorithmPrefix s)
       else case hashSizes algo of
         None \<Rightarrow> Inl (UnknownAlgorithm s)
       | Some sz \<Rightarrow>
         (case (if colon then decodeDigest digest sz else decodeBase64 digest) of
            Inl e \<Rightarrow> Inl (BadDigest s e)
          | Inr raw \<Rightarrow>
              if length raw \<noteq> sz then Inl (WrongDigestSize algo sz (length raw))
              else Inr (algo @ '':'' @ EncodeToString raw))))"

section \<open>The parser\<close>

definition maxReferences :: "nat \<Rightarrow> nat" where
  "maxReferences len = len div 33 + 1"

record parser =
  pn :: NarInfo
  prefix :: string
  seenRefs :: bool
  seenCA :: bool

lemma Cut_space_shorter: "v \<noteq> [] \<Longrightarrow> length (fst (snd (Cut v [c]))) < length v"
  by (cases v) (auto simp: Cut_char less_Suc_eq_le simp del: length_tl intro: length_tl_dropWhile_le)

text \<open>The loop of \<^verbatim>\<open>parseReferences\<close> over the rest of the v.\<close>

function references_loop :: "string \<Rightarrow> nat \<Rightarrow> string list \<Rightarrow> string \<Rightarrow> narinfo_error + string list" where
  "references_loop pre maxRefs refs value =
     (if value = [] then Inr refs
      else let basename = fst (Cut value '' ''); rest = fst (snd (Cut value '' '')) in
        if basename = [] then references_loop pre maxRefs refs rest
        else if \<not> validBasename basename then Inl (errInvalidName basename)
        else if length refs = maxRefs then Inl (errTooManyReferences maxRefs)
        else references_loop pre maxRefs (refs @ [pre @ basename]) rest)"
  by pat_completeness auto
termination
  by (relation "measure (\<lambda>(_, _, _, v). length v)") (auto simp: Cut_space_shorter)

declare references_loop.simps [simp del]

definition parseReferences :: "parser \<Rightarrow> string \<Rightarrow> narinfo_error + parser" where
  "parseReferences p value =
     (if value = [] then Inr (p\<lparr>pn := (pn p)\<lparr>References := []\<rparr>\<rparr>)
      else case references_loop (prefix p) (maxReferences (length value)) [] value of
             Inl e \<Rightarrow> Inl e
           | Inr refs \<Rightarrow> Inr (p\<lparr>pn := (pn p)\<lparr>References := refs\<rparr>\<rparr>))"

definition setStorePath :: "parser \<Rightarrow> string \<Rightarrow> narinfo_error + parser" where
  "setStorePath p value =
     (case CutPrefix value (prefix p) of (base, ok) \<Rightarrow>
        if \<not> ok \<or> \<not> validBasename base then Inl (errInvalidStorePath value)
        else Inr (p\<lparr>pn := (pn p)\<lparr>StorePath := value\<rparr>\<rparr>))"

definition setDeriver :: "parser \<Rightarrow> string \<Rightarrow> narinfo_error + parser" where
  "setDeriver p value =
     (if value = [] \<or> value = unknownDeriver then Inr p
      else if \<not> validBasename value then Inl (errInvalidName value)
      else Inr (p\<lparr>pn := (pn p)\<lparr>Deriver := prefix p @ value\<rparr>\<rparr>))"

definition addSig :: "parser \<Rightarrow> string \<Rightarrow> narinfo_error + parser" where
  "addSig p value =
     (if maxSignatures \<le> length (Sigs (pn p)) then Inl (errTooManySigs maxSignatures)
      else Inr (p\<lparr>pn := (pn p)\<lparr>Sigs := Sigs (pn p) @ [value]\<rparr>\<rparr>))"

definition parseNumericFields :: "parser \<Rightarrow> string \<Rightarrow> string \<Rightarrow> narinfo_error + parser" where
  "parseNumericFields p key value =
     (case ParseUint value of
        Inl e \<Rightarrow> Inl (errInvalidNumber key value e)
      | Inr v \<Rightarrow> if key = ''FileSize'' then Inr (p\<lparr>pn := (pn p)\<lparr>FileSize := v\<rparr>\<rparr>)
                else Inr (p\<lparr>pn := (pn p)\<lparr>NarSize := v\<rparr>\<rparr>))"

definition parseHashFields :: "parser \<Rightarrow> string \<Rightarrow> string \<Rightarrow> narinfo_error + parser" where
  "parseHashFields p key value =
     (case CanonicalHash value of
        Inl e \<Rightarrow> Inl (errInvalidHash key e)
      | Inr h \<Rightarrow> if key = ''FileHash'' then Inr (p\<lparr>pn := (pn p)\<lparr>FileHash := h\<rparr>\<rparr>)
                else Inr (p\<lparr>pn := (pn p)\<lparr>NarHash := h\<rparr>\<rparr>))"

definition parseField :: "parser \<Rightarrow> string \<Rightarrow> string \<Rightarrow> narinfo_error + parser" where
  "parseField p key value =
     (if key = ''StorePath'' then setStorePath p value
      else if key = ''URL'' then Inr (p\<lparr>pn := (pn p)\<lparr>URL := value\<rparr>\<rparr>)
      else if key = ''Compression'' then Inr (p\<lparr>pn := (pn p)\<lparr>Compression := value\<rparr>\<rparr>)
      else if key = ''FileHash'' \<or> key = ''NarHash'' then parseHashFields p key value
      else if key = ''FileSize'' \<or> key = ''NarSize'' then parseNumericFields p key value
      else if key = ''References'' then
        (if seenRefs p then Inl (errDuplicateField ''References'')
         else parseReferences (p\<lparr>seenRefs := True\<rparr>) value)
      else if key = ''Deriver'' then setDeriver p value
      else if key = ''Sig'' then addSig p value
      else if key = ''CA'' then
        (if seenCA p then Inl (errDuplicateField ''CA'')
         else Inr (p\<lparr>seenCA := True, pn := (pn p)\<lparr>CA := value\<rparr>\<rparr>))
      else Inr p)"

definition parseLine :: "parser \<Rightarrow> string \<Rightarrow> narinfo_error + parser" where
  "parseLine p line =
     (if line = [] then Inr p
      else case Cut line '': '' of (key, value, ok) \<Rightarrow>
        if ok then parseField p key value
        else case Cut line '':'' of (key', value', ok') \<Rightarrow>
          if \<not> ok' then Inr p else parseField p key' (TrimPrefix value' '' ''))"

definition finish :: "parser \<Rightarrow> narinfo_error + NarInfo" where
  "finish p =
     (if StorePath (pn p) = [] then Inl (errMissingField ''StorePath'')
      else if NarHash (pn p) = [] then Inl (errMissingField ''NarHash'')
      else if URL (pn p) = [] then Inl (errMissingField ''URL'')
      else if NarSize (pn p) = 0 then Inl (errMissingField ''NarSize'')
      else if Compression (pn p) = [] then Inr ((pn p)\<lparr>Compression := defaultCompression\<rparr>)
      else Inr (pn p))"

text \<open>
  A reader is its contents and the error that follows them.  \<^verbatim>\<open>ReadString('\n')\<close> returns what it
  read, with that error when there is no further line break.
\<close>

datatype read_err = EOF | ReadErr string

type_synonym reader = "string \<times> read_err"

abbreviation LF :: char where "LF \<equiv> CHR 0x0A"
abbreviation CR :: char where "CR \<equiv> CHR 0x0D"

definition ReadString :: "reader \<Rightarrow> string \<times> reader \<times> read_err option" where
  "ReadString r =
     (case r of (d, e) \<Rightarrow>
        if LF \<in> set d
        then (takeWhile (\<lambda>c. c \<noteq> LF) d @ [LF], (tl (dropWhile (\<lambda>c. c \<noteq> LF) d), e), None)
        else (d, ([], e), Some e))"

lemma ReadString_shorter:
  "ReadString r = (line, r', None) \<Longrightarrow> length (fst r') < length (fst r)"
  by (cases "fst r")
    (auto simp: ReadString_def less_Suc_eq_le simp del: length_tl intro: length_tl_dropWhile_le
      split: prod.splits if_splits)

function parse_loop :: "parser \<Rightarrow> reader \<Rightarrow> narinfo_error + NarInfo" where
  "parse_loop p r =
     (case ReadString r of (line, r', readErr) \<Rightarrow>
        (case parseLine p (TrimRight line {CR, LF}) of
           Inl e \<Rightarrow> Inl e
         | Inr p' \<Rightarrow>
             (case readErr of
                None \<Rightarrow> parse_loop p' r'
              | Some EOF \<Rightarrow> finish p'
              | Some (ReadErr s) \<Rightarrow> Inl (errRead s))))"
  by pat_completeness auto
termination
  by (relation "measure (\<lambda>(_, r). length (fst r))") (auto dest: ReadString_shorter [OF sym])

declare parse_loop.simps [simp del]

definition Parse :: "reader \<Rightarrow> string \<Rightarrow> narinfo_error + NarInfo" where
  "Parse r storeDir =
     parse_loop \<lparr>pn = zeroNarInfo, prefix = storePrefix storeDir, seenRefs = False, seenCA = False\<rparr> r"

section \<open>Rendering\<close>

definition compression :: "NarInfo \<Rightarrow> string" where
  "compression n = (if Compression n = [] then defaultCompression else Compression n)"

definition Marshal :: "NarInfo \<Rightarrow> string" where
  "Marshal n =
     ''StorePath: '' @ StorePath n @ [LF] @
     ''URL: '' @ URL n @ [LF] @
     ''Compression: '' @ compression n @ [LF] @
     (if FileHash n \<noteq> [] then ''FileHash: '' @ FileHash n @ [LF] else []) @
     ''FileSize: '' @ FormatUint (FileSize n) @ [LF] @
     ''NarHash: '' @ NarHash n @ [LF] @
     ''NarSize: '' @ FormatUint (NarSize n) @ [LF] @
     ''References: '' @ join_char CHR '' '' (map path_Base (References n)) @ [LF] @
     (if Deriver n \<noteq> [] then ''Deriver: '' @ path_Base (Deriver n) @ [LF] else []) @
     concat (map (\<lambda>sig. ''Sig: '' @ sig @ [LF]) (Sigs n)) @
     (if CA n \<noteq> [] then ''CA: '' @ CA n @ [LF] else [])"

definition StringsAreSorted :: "string list \<Rightarrow> bool" where
  "StringsAreSorted xs \<longleftrightarrow> sorted xs"

definition Fingerprint :: "NarInfo \<Rightarrow> string" where
  "Fingerprint n =
     (let refs = (if StringsAreSorted (References n) then References n else sort (References n))
      in ''1;'' @ StorePath n @ '';'' @ NarHash n @ '';'' @ FormatUint (NarSize n) @ '';'' @
         join_char CHR '','' refs)"

fun sum_with_sep :: "nat list \<Rightarrow> nat" where
  "sum_with_sep [] = 0"
| "sum_with_sep [k] = k"
| "sum_with_sep (k # l # r) = k + 1 + sum_with_sep (l # r)"

definition marshalSize :: "NarInfo \<Rightarrow> nat" where
  "marshalSize n =
     length ''StorePath: '' + length (StorePath n) + 1 +
     length ''URL: '' + length (URL n) + 1 +
     length ''Compression: '' + length (compression n) + 1 +
     length ''FileSize: '' + 20 + 1 +
     length ''NarHash: '' + length (NarHash n) + 1 +
     length ''NarSize: '' + 20 + 1 +
     length ''References: '' + 1 +
     (if FileHash n \<noteq> [] then length ''FileHash: '' + length (FileHash n) + 1 else 0) +
     sum_with_sep (map (\<lambda>r. length (path_Base r)) (References n)) +
     sum_list (map (\<lambda>sig. length ''Sig: '' + length sig + 1) (Sigs n)) +
     (if Deriver n \<noteq> [] then length ''Deriver: '' + length (path_Base (Deriver n)) + 1 else 0) +
     (if CA n \<noteq> [] then length ''CA: '' + length (CA n) + 1 else 0)"

section \<open>Well-formed metadata\<close>

text \<open>A value a line of a narinfo can carry: no line break, and no carriage return at the end.\<close>

definition line_safe :: "string \<Rightarrow> bool" where
  "line_safe s \<longleftrightarrow> LF \<notin> set s \<and> (s = [] \<or> last s \<noteq> CR)"

definition in_store :: "string \<Rightarrow> string \<Rightarrow> bool" where
  "in_store pre s \<longleftrightarrow> HasPrefix s pre \<and> validBasename (drop (length pre) s)"

definition canonical :: "string \<Rightarrow> bool" where
  "canonical h \<longleftrightarrow> CanonicalHash h = Inr h"

definition wf_narinfo :: "string \<Rightarrow> NarInfo \<Rightarrow> bool" where
  "wf_narinfo storeDir n \<longleftrightarrow>
     in_store (storePrefix storeDir) (StorePath n) \<and> line_safe (StorePath n) \<and>
     URL n \<noteq> [] \<and> line_safe (URL n) \<and>
     Compression n \<noteq> [] \<and> line_safe (Compression n) \<and>
     (FileHash n = [] \<or> canonical (FileHash n)) \<and> canonical (NarHash n) \<and> NarSize n \<noteq> 0 \<and>
     list_all (in_store (storePrefix storeDir)) (References n) \<and>
     (Deriver n = [] \<or> in_store (storePrefix storeDir) (Deriver n)) \<and>
     length (Sigs n) \<le> maxSignatures \<and> list_all line_safe (Sigs n) \<and> line_safe (CA n)"

subsection \<open>Basenames\<close>

lemma in_store_iff: "in_store pre s \<longleftrightarrow> (\<exists>b. validBasename b \<and> s = pre @ b)"
  by (auto simp: in_store_def HasPrefix_iff)

lemma nameChar_alphabet: "c \<in> set alphabet \<Longrightarrow> nameChar c"
proof -
  have "list_all nameChar alphabet" by (simp add: alphabet_def nameChar_def less_eq_char_def)
  then show "c \<in> set alphabet \<Longrightarrow> nameChar c" by (simp add: list_all_iff)
qed

lemma nameChar_not:
  "\<not> nameChar CHR '' ''" "\<not> nameChar CHR ''/''" "\<not> nameChar CHR '',''" "\<not> nameChar CHR '';''"
  "\<not> nameChar CHR '':''" "\<not> nameChar LF" "\<not> nameChar CR"
  by (simp_all add: nameChar_def less_eq_char_def)

lemma validBasename_split:
  assumes "validBasename b"
  obtains h m where "b = h @ CHR ''-'' # m" and "ValidHashPart h" and "validName m"
  using assms Cut_True_append [of b "''-''"] unfolding validBasename_def
  by (auto split: prod.splits)

lemma validBasename_chars:
  assumes "validBasename b"
  shows "list_all nameChar b" and "34 \<le> length b"
proof -
  obtain h m where b: "b = h @ CHR ''-'' # m" and h: "ValidHashPart h" and m: "validName m"
    using assms by (rule validBasename_split)
  have "list_all nameChar h"
    using h nameChar_alphabet by (auto simp: ValidHashPart_def list_all_iff decTable_valid)
  moreover have "nameChar CHR ''-''" by (simp add: nameChar_def)
  ultimately show "list_all nameChar b" using m by (simp add: b validName_def)
  show "34 \<le> length b"
    using h m by (cases m) (auto simp: b ValidHashPart_def HashPartLen_def validName_def)
qed

lemma validBasename_not_in:
  assumes "validBasename b" and "\<not> nameChar c"
  shows "c \<notin> set b"
  using validBasename_chars(1) [OF assms(1)] assms(2) by (auto simp: list_all_iff)

lemma validBasename_nonempty: "validBasename b \<Longrightarrow> b \<noteq> []"
  using validBasename_chars(2) by fastforce

lemma validBasename_line_safe: "validBasename b \<Longrightarrow> line_safe b"
  using validBasename_not_in nameChar_not last_in_set unfolding line_safe_def by metis

lemma validBasename_not_unknown: "validBasename b \<Longrightarrow> b \<noteq> unknownDeriver"
  by (auto simp: unknownDeriver_def dest: validBasename_chars(2))

lemma storePrefix_slash: "\<exists>d. storePrefix dir = d @ ''/''"
  by (simp add: storePrefix_def Let_def)

lemma path_Base_store: "validBasename b \<Longrightarrow> path_Base (storePrefix dir @ b) = b"
  using storePrefix_slash [of dir] path_Base_suffix [of b] validBasename_not_in [of b "CHR ''/''"]
    nameChar_not(2) validBasename_nonempty by fastforce

subsection \<open>Hashes\<close>

lemma hashSizes_Some:
  "hashSizes a = Some k \<longleftrightarrow>
     a = ''md5'' \<and> k = 16 \<or> a = ''sha1'' \<and> k = 20 \<or> a = ''sha256'' \<and> k = 32 \<or> a = ''sha512'' \<and> k = 64"
  by (auto simp: hashSizes_def)

lemma hash_algo_chars:
  "hashSizes a = Some k \<Longrightarrow> CHR '':'' \<notin> set a \<and> CHR ''-'' \<notin> set a \<and> LF \<notin> set a \<and> a \<noteq> []"
  by (auto simp: hashSizes_Some)

lemma CanonicalHash_Inr:
  assumes "CanonicalHash s = Inr h"
  obtains algo raw where "hashSizes algo = Some (length raw)" and "h = algo @ '':'' @ EncodeToString raw"
  using assms unfolding CanonicalHash_def
  by (auto split: prod.splits option.splits sum.splits if_splits)

lemma CanonicalHash_colon:
  assumes "hashSizes algo = Some k"
  shows "CanonicalHash (algo @ '':'' @ d) =
    (case decodeDigest d k of Inl e \<Rightarrow> Inl (BadDigest (algo @ '':'' @ d) e)
     | Inr raw \<Rightarrow> if length raw \<noteq> k then Inl (WrongDigestSize algo k (length raw))
                  else Inr (algo @ '':'' @ EncodeToString raw))"
  using assms Cut_char_append [of "CHR '':''" algo d] hash_algo_chars [OF assms]
  by (simp add: CanonicalHash_def split: sum.splits)

lemma CanonicalHash_sri:
  assumes "hashSizes algo = Some k" and "CHR '':'' \<notin> set d"
  shows "CanonicalHash (algo @ ''-'' @ d) =
    (case decodeBase64 d of Inl e \<Rightarrow> Inl (BadDigest (algo @ ''-'' @ d) e)
     | Inr raw \<Rightarrow> if length raw \<noteq> k then Inl (WrongDigestSize algo k (length raw))
                  else Inr (algo @ '':'' @ EncodeToString raw))"
  using assms Cut_char_append [of "CHR ''-''" algo d] Cut_char_notin [of "CHR '':''" "algo @ ''-'' @ d"]
    hash_algo_chars [OF assms(1)]
  by (simp add: CanonicalHash_def split: sum.splits)

lemma decodeBase64_Encode: "decodeBase64 (base64_EncodeToString raw) = Inr raw"
proof -
  let ?e = "base64_EncodeToString raw" and ?t = "takeWhile (\<lambda>c. c \<noteq> CHR ''='') (base64_EncodeToString raw)"
  have cut: "fst (Cut ?e ''='') = ?t"
    by (auto simp: Cut_char intro!: takeWhile_eq_all_conv [THEN iffD2, symmetric])
  have "char_of (13 :: nat) \<notin> set ?t"
    using base64_Encode_chars [of "char_of (13 :: nat)" raw] set_takeWhileD by (fastforce simp: is_newline_def)
  then show ?thesis
    by (simp only: decodeBase64_def Let_def cut base64_raw_Decode_Encode if_False sum.case)
qed

text \<open>Each of the three encodings of a digest is recognised by its length.\<close>

lemma decodeDigest_encodings:
  assumes "hashSizes algo = Some (length raw)"
  shows "decodeDigest (hex_EncodeToString raw) (length raw) = Inr raw"
    and "decodeDigest (EncodeToString raw) (length raw) = Inr raw"
    and "decodeDigest (base64_EncodeToString raw) (length raw) = Inr raw"
  using assms hex_Decode_Encode [of raw] Decode_Encode [of raw] decodeBase64_Encode [of raw]
    length_hex_Encode [of raw] length_EncodeToString [of raw] length_base64_Encode [of raw]
  unfolding hashSizes_Some
  by (auto simp: decodeDigest_def hex_EncodedLen_def encodedLen_def base64_EncodedLen_def)

lemma CanonicalHash_idem: "CanonicalHash s = Inr h \<Longrightarrow> CanonicalHash h = Inr h"
  by (elim CanonicalHash_Inr) (simp add: CanonicalHash_colon decodeDigest_encodings(2) del: append.simps)

lemma canonical_line_safe: "canonical h \<Longrightarrow> line_safe h \<and> h \<noteq> []"
proof -
  assume "canonical h"
  then obtain algo raw where h: "hashSizes algo = Some (length raw)" "h = algo @ '':'' @ EncodeToString raw"
    unfolding canonical_def by (rule CanonicalHash_Inr)
  have "LF \<notin> set alphabet" "CR \<notin> set alphabet" by (simp_all add: alphabet_def)
  then have "LF \<notin> set (EncodeToString raw)" "CR \<notin> set (EncodeToString raw)" using set_EncodeToString by auto
  then show ?thesis
    using hash_algo_chars [OF h(1)] last_in_set [of "EncodeToString raw"]
    by (auto simp: h(2) line_safe_def simp del: last_in_set)
qed

subsection \<open>Lines\<close>

lemma TrimRight_line:
  assumes "line_safe s"
  shows "TrimRight (s @ [LF]) {CR, LF} = s" and "TrimRight s {CR, LF} = s"
proof -
  have "dropWhile (\<lambda>c. c \<in> {CR, LF}) (rev s) = rev s"
    using assms by (cases s rule: rev_cases) (auto simp: line_safe_def)
  then show "TrimRight (s @ [LF]) {CR, LF} = s" "TrimRight s {CR, LF} = s"
    by (simp_all add: TrimRight_def)
qed

lemma line_safe_append: "LF \<notin> set a \<Longrightarrow> a = [] \<or> last a \<noteq> CR \<Longrightarrow> line_safe b \<Longrightarrow> line_safe (a @ b)"
  by (auto simp: line_safe_def last_append)

lemma line_safe_suffix: "line_safe (a @ b) \<Longrightarrow> line_safe b"
  by (auto simp: line_safe_def)

lemma line_safe_TrimRight: "LF \<notin> set s \<Longrightarrow> line_safe (TrimRight s {CR, LF})"
  unfolding line_safe_def TrimRight_def
proof (intro conjI)
  let ?r = "dropWhile (\<lambda>c. c \<in> {CR, LF}) (rev s)"
  assume "LF \<notin> set s"
  then show "LF \<notin> set (rev ?r)" by (metis set_dropWhileD set_rev)
  show "rev ?r = [] \<or> last (rev ?r) \<noteq> CR"
    using hd_dropWhile [of "\<lambda>c. c \<in> {CR, LF}" "rev s"] by (cases "?r = []") (simp_all only: last_rev, auto)
qed

lemma TrimRight_LF: "TrimRight (s @ [LF]) {CR, LF} = TrimRight s {CR, LF}"
  by (simp add: TrimRight_def)

lemma cut_opt_colon_space:
  "CHR '':'' \<notin> set k \<Longrightarrow> cut_opt '': '' (k @ '': '' @ v) = Some (k, v)"
  by (induction k) (auto simp: HasPrefix_def)

lemma parseLine_field:
  assumes "CHR '':'' \<notin> set k"
  shows "parseLine p (k @ '': '' @ v) = parseField p k v"
  using cut_opt_colon_space [OF assms, of v] by (simp add: parseLine_def Cut_def)

lemma parse_loop_line:
  assumes "line_safe line"
  shows "parse_loop p (line @ LF # rest, e) =
    (case parseLine p line of Inl err \<Rightarrow> Inl err | Inr p' \<Rightarrow> parse_loop p' (rest, e))"
proof -
  have "LF \<notin> set line" using assms by (simp add: line_safe_def)
  then have "ReadString (line @ LF # rest, e) = (line @ [LF], (rest, e), None)"
    by (auto simp: ReadString_def takeWhile_append dropWhile_append)
  then show ?thesis
    by (subst parse_loop.simps) (simp add: TrimRight_line [OF assms] split: sum.splits)
qed

lemma parse_loop_end: "parse_loop p ([], EOF) = finish p"
  by (subst parse_loop.simps) (simp add: ReadString_def TrimRight_def parseLine_def)

subsection \<open>References\<close>

lemma join_Cons: "join_char c (b # bs) = b @ (if bs = [] then [] else c # join_char c bs)"
  by (cases bs) auto

lemma join_length: "\<forall>b\<in>set bs. k \<le> length b \<Longrightarrow> k * length bs \<le> length (join_char c bs)"
  by (induction bs) (auto simp: join_Cons)

lemma references_loop_join:
  assumes "list_all validBasename bs" and "length refs + length bs \<le> m"
  shows "references_loop pre m refs (join_char CHR '' '' bs) = Inr (refs @ map ((@) pre) bs)"
  using assms
proof (induction bs arbitrary: refs)
  case Nil
  then show ?case by (subst references_loop.simps) simp
next
  case (Cons b bs)
  then have b: "validBasename b" "CHR '' '' \<notin> set b" "b \<noteq> []"
    using validBasename_not_in nameChar_not(1) validBasename_nonempty by auto
  have "fst (Cut (join_char CHR '' '' (b # bs)) '' '') = b \<and>
        fst (snd (Cut (join_char CHR '' '' (b # bs)) '' '')) = join_char CHR '' '' bs"
    using Cut_char_append [OF b(2)] Cut_char_notin [OF b(2)] by (simp add: join_Cons)
  then show ?case
    using Cons b by (subst references_loop.simps) (simp add: join_Cons)
qed

lemma maxReferences_enough:
  assumes "list_all validBasename bs"
  shows "length bs \<le> maxReferences (length (join_char CHR '' '' bs))"
proof -
  have "34 * length bs \<le> length (join_char CHR '' '' bs)"
    using assms validBasename_chars(2) by (intro join_length) (auto simp: list_all_iff)
  then have "33 * length bs \<le> length (join_char CHR '' '' bs)" by simp
  then have "33 * length bs div 33 \<le> length (join_char CHR '' '' bs) div 33" by (rule div_le_mono)
  then show ?thesis by (simp add: maxReferences_def)
qed

lemma parseReferences_join:
  assumes "list_all validBasename bs"
  shows "parseReferences p (join_char CHR '' '' bs) = Inr (p\<lparr>pn := (pn p)\<lparr>References := map ((@) (prefix p)) bs\<rparr>\<rparr>)"
proof (cases bs)
  case Nil
  then show ?thesis by (simp add: parseReferences_def)
next
  case (Cons b r)
  then have "join_char CHR '' '' bs \<noteq> []" using assms validBasename_nonempty by (auto simp: join_Cons)
  then show ?thesis
    using references_loop_join [OF assms, of "[]"] maxReferences_enough [OF assms]
    by (simp add: parseReferences_def)
qed


subsection \<open>Fields\<close>

definition field :: "string \<times> string \<Rightarrow> string" where
  "field kv = fst kv @ '': '' @ snd kv @ [LF]"

fun apply_fields :: "parser \<Rightarrow> (string \<times> string) list \<Rightarrow> narinfo_error + parser" where
  "apply_fields p [] = Inr p"
| "apply_fields p ((k, v) # fs) =
     (case parseField p k v of Inl e \<Rightarrow> Inl e | Inr p' \<Rightarrow> apply_fields p' fs)"

definition field_ok :: "string \<times> string \<Rightarrow> bool" where
  "field_ok kv \<longleftrightarrow> CHR '':'' \<notin> set (fst kv) \<and> LF \<notin> set (fst kv) \<and> line_safe (snd kv)"

lemma parse_loop_fields:
  assumes "list_all field_ok fs"
  shows "parse_loop p (concat (map field fs), EOF) =
    (case apply_fields p fs of Inl e \<Rightarrow> Inl e | Inr p' \<Rightarrow> finish p')"
  using assms
proof (induction fs arbitrary: p)
  case Nil
  then show ?case by (simp add: parse_loop_end)
next
  case (Cons kv fs)
  obtain k v where kv: "kv = (k, v)" by (cases kv)
  from Cons.prems have ok: "CHR '':'' \<notin> set k" "line_safe (k @ '': '' @ v)"
    by (auto simp: field_ok_def kv line_safe_def)
  have "concat (map field (kv # fs)) = (k @ '': '' @ v) @ LF # concat (map field fs)"
    by (simp add: field_def kv)
  then show ?case
    using Cons parse_loop_line [OF ok(2)] parseLine_field [OF ok(1)] by (simp add: kv split: sum.splits)
qed

definition marshal_fields :: "NarInfo \<Rightarrow> (string \<times> string) list" where
  "marshal_fields n =
     [(''StorePath'', StorePath n), (''URL'', URL n), (''Compression'', compression n)] @
     (if FileHash n \<noteq> [] then [(''FileHash'', FileHash n)] else []) @
     [(''FileSize'', FormatUint (FileSize n)), (''NarHash'', NarHash n), (''NarSize'', FormatUint (NarSize n)),
      (''References'', join_char CHR '' '' (map path_Base (References n)))] @
     (if Deriver n \<noteq> [] then [(''Deriver'', path_Base (Deriver n))] else []) @
     map (Pair ''Sig'') (Sigs n) @ (if CA n \<noteq> [] then [(''CA'', CA n)] else [])"

lemma Marshal_fields: "Marshal n = concat (map field (marshal_fields n))"
  by (simp add: Marshal_def marshal_fields_def field_def comp_def)

lemma apply_fields_append:
  "apply_fields p (fs @ gs) = (case apply_fields p fs of Inl e \<Rightarrow> Inl e | Inr p' \<Rightarrow> apply_fields p' gs)"
  by (induction fs arbitrary: p) (auto split: sum.splits)

lemma apply_fields_sigs:
  "length (Sigs (pn p)) + length sigs \<le> maxSignatures \<Longrightarrow>
   apply_fields p (map (Pair ''Sig'') sigs) = Inr (p\<lparr>pn := (pn p)\<lparr>Sigs := Sigs (pn p) @ sigs\<rparr>\<rparr>)"
  by (induction sigs arbitrary: p) (auto simp: parseField_def addSig_def)

lemma FormatUint_line_safe: "line_safe (FormatUint v)"
proof -
  have "LF \<notin> set (FormatUint v)" "CR \<notin> set (FormatUint v)"
    by (auto simp: is_digit_def dest: FormatUint_chars)
  then show ?thesis by (metis line_safe_def last_in_set)
qed

lemma map_path_Base_store:
  assumes "list_all (in_store (storePrefix dir)) rs"
  obtains bs where "list_all validBasename bs" and "rs = map ((@) (storePrefix dir)) bs" and "map path_Base rs = bs"
proof -
  let ?bs = "map (drop (length (storePrefix dir))) rs"
  have "list_all validBasename ?bs" using assms by (auto simp: list_all_iff in_store_def)
  moreover have rs: "rs = map ((@) (storePrefix dir)) ?bs"
    using assms by (induction rs) (auto simp: in_store_iff)
  moreover have "map path_Base rs = ?bs"
    using assms by (induction rs) (auto simp: in_store_iff path_Base_store)
  ultimately show thesis by (rule that)
qed

lemma join_line_safe: "list_all validBasename bs \<Longrightarrow> line_safe (join_char CHR '' '' bs)"
proof (induction bs)
  case (Cons b bs)
  then have "line_safe b" "line_safe (join_char CHR '' '' bs)" by (auto intro: validBasename_line_safe)
  then show ?case by (auto simp: join_Cons line_safe_def last_append)
qed (simp add: line_safe_def)

lemma marshal_fields_ok:
  assumes wf: "wf_narinfo dir n"
  shows "list_all field_ok (marshal_fields n)"
proof -
  obtain bs where bs: "list_all validBasename bs" "map path_Base (References n) = bs"
    using wf map_path_Base_store unfolding wf_narinfo_def by metis
  have "line_safe (path_Base (Deriver n))" if "Deriver n \<noteq> []"
    using wf that by (auto simp: wf_narinfo_def in_store_iff path_Base_store validBasename_line_safe)
  moreover have "line_safe (NarHash n)" "FileHash n \<noteq> [] \<Longrightarrow> line_safe (FileHash n)" "line_safe (compression n)"
    using wf canonical_line_safe by (auto simp: wf_narinfo_def compression_def)
  ultimately show ?thesis
    using wf join_line_safe [OF bs(1)]
    by (auto simp: wf_narinfo_def marshal_fields_def field_ok_def list_all_iff FormatUint_line_safe bs(2))
qed

lemma apply_marshal_fields:
  assumes wf: "wf_narinfo dir n"
    and p: "p = \<lparr>pn = zeroNarInfo, prefix = storePrefix dir, seenRefs = False, seenCA = False\<rparr>"
  shows "\<exists>p'. apply_fields p (marshal_fields n) = Inr p' \<and> pn p' = n"
proof -
  obtain bs where bs: "list_all validBasename bs" "References n = map ((@) (storePrefix dir)) bs"
      "map path_Base (References n) = bs"
    using wf map_path_Base_store unfolding wf_narinfo_def by metis
  obtain sb where sb: "validBasename sb" "StorePath n = storePrefix dir @ sb"
    using wf by (auto simp: wf_narinfo_def in_store_iff)
  have der: "Deriver n = [] \<or> (\<exists>db. validBasename db \<and> Deriver n = storePrefix dir @ db \<and> path_Base (Deriver n) = db)"
    using wf by (auto simp: wf_narinfo_def in_store_iff path_Base_store)
  have hash: "CanonicalHash (NarHash n) = Inr (NarHash n)"
    "FileHash n \<noteq> [] \<Longrightarrow> CanonicalHash (FileHash n) = Inr (FileHash n)"
    using wf by (auto simp: wf_narinfo_def canonical_def)
  have comp: "compression n = Compression n" using wf by (simp add: wf_narinfo_def compression_def)
  have sigs: "length (Sigs n) \<le> maxSignatures" using wf by (simp add: wf_narinfo_def)
  show ?thesis
    unfolding marshal_fields_def bs(3)
    using der hash sb
    by (cases "FileHash n = []"; cases "CA n = []"; cases "Deriver n = []")
      (auto simp: p apply_fields_append parseField_def setStorePath_def parseHashFields_def
        parseNumericFields_def go_simps parseReferences_join [OF bs(1)] setDeriver_def
        apply_fields_sigs sigs comp bs(2) zeroNarInfo_def validBasename_nonempty validBasename_not_unknown)
qed

lemma Parse_Marshal:
  assumes "wf_narinfo dir n"
  shows "Parse (Marshal n, EOF) dir = Inr n"
proof -
  obtain p' where p': "apply_fields \<lparr>pn = zeroNarInfo, prefix = storePrefix dir, seenRefs = False, seenCA = False\<rparr>
      (marshal_fields n) = Inr p'" "pn p' = n"
    using apply_marshal_fields [OF assms refl] by blast
  have "NarHash n \<noteq> []" "StorePath n \<noteq> []"
    using assms canonical_line_safe validBasename_nonempty by (auto simp: wf_narinfo_def in_store_iff)
  then have "finish p' = Inr n"
    using assms p'(2) by (simp add: finish_def wf_narinfo_def)
  then show ?thesis
    by (simp add: Parse_def Marshal_fields parse_loop_fields [OF marshal_fields_ok [OF assms]] p'(1))
qed


subsection \<open>What the parser accepts is well formed\<close>

definition wf_parser :: "parser \<Rightarrow> bool" where
  "wf_parser p \<longleftrightarrow> (let m = pn p in
     (StorePath m = [] \<or> in_store (prefix p) (StorePath m)) \<and> line_safe (StorePath m) \<and>
     line_safe (URL m) \<and> line_safe (Compression m) \<and>
     (FileHash m = [] \<or> canonical (FileHash m)) \<and> (NarHash m = [] \<or> canonical (NarHash m)) \<and>
     list_all (in_store (prefix p)) (References m) \<and>
     (Deriver m = [] \<or> in_store (prefix p) (Deriver m)) \<and>
     length (Sigs m) \<le> maxSignatures \<and> list_all line_safe (Sigs m) \<and> line_safe (CA m))"

lemma references_loop_in_store:
  "references_loop pre m refs v = Inr rs \<Longrightarrow> list_all (in_store pre) refs \<Longrightarrow> list_all (in_store pre) rs"
proof (induction pre m refs v rule: references_loop.induct)
  case (1 pre m refs v)
  from 1(3) show ?case
    by (subst (asm) references_loop.simps)
      (use 1(1,2,4) in \<open>auto simp: Let_def in_store_iff split: if_splits\<close>)
qed

lemma setStorePath_wf:
  "setStorePath p v = Inr p' \<Longrightarrow> wf_parser p \<Longrightarrow> line_safe v \<Longrightarrow> wf_parser p' \<and> prefix p' = prefix p"
  by (auto simp: setStorePath_def CutPrefix_def wf_parser_def in_store_def Let_def split: if_splits)

lemma setDeriver_wf:
  "setDeriver p v = Inr p' \<Longrightarrow> wf_parser p \<Longrightarrow> wf_parser p' \<and> prefix p' = prefix p"
  by (auto simp: setDeriver_def wf_parser_def in_store_def Let_def split: if_splits)

lemma addSig_wf:
  "addSig p v = Inr p' \<Longrightarrow> wf_parser p \<Longrightarrow> line_safe v \<Longrightarrow> wf_parser p' \<and> prefix p' = prefix p"
  by (auto simp: addSig_def wf_parser_def Let_def split: if_splits)

lemma parseNumericFields_wf:
  "parseNumericFields p k v = Inr p' \<Longrightarrow> wf_parser p \<Longrightarrow> wf_parser p' \<and> prefix p' = prefix p"
  by (auto simp: parseNumericFields_def wf_parser_def Let_def split: if_splits sum.splits)

lemma parseHashFields_wf:
  "parseHashFields p k v = Inr p' \<Longrightarrow> wf_parser p \<Longrightarrow> wf_parser p' \<and> prefix p' = prefix p"
  by (auto simp: parseHashFields_def wf_parser_def Let_def canonical_def dest: CanonicalHash_idem
      split: if_splits sum.splits)

lemma parseReferences_wf:
  "parseReferences p v = Inr p' \<Longrightarrow> wf_parser p \<Longrightarrow> wf_parser p' \<and> prefix p' = prefix p"
  by (auto simp: parseReferences_def wf_parser_def Let_def dest: references_loop_in_store
      split: if_splits sum.splits)

lemma wf_parser_flags: "wf_parser (p\<lparr>seenRefs := b\<rparr>) = wf_parser p" "wf_parser (p\<lparr>seenCA := b\<rparr>) = wf_parser p"
  by (simp_all add: wf_parser_def)

lemma parseField_wf:
  assumes "parseField p k v = Inr p'" and "wf_parser p" and "line_safe v"
  shows "wf_parser p' \<and> prefix p' = prefix p"
proof -
  note wf = setStorePath_wf [OF _ assms(2,3)] setDeriver_wf [OF _ assms(2)] addSig_wf [OF _ assms(2,3)]
    parseNumericFields_wf [OF _ assms(2)] parseHashFields_wf [OF _ assms(2)]
    parseReferences_wf [of "p\<lparr>seenRefs := True\<rparr>"]
  have plain: "wf_parser (p\<lparr>pn := (pn p)\<lparr>URL := v\<rparr>\<rparr>)" "wf_parser (p\<lparr>pn := (pn p)\<lparr>Compression := v\<rparr>\<rparr>)"
    "wf_parser (p\<lparr>seenCA := True, pn := (pn p)\<lparr>CA := v\<rparr>\<rparr>)"
    using assms(2,3) by (simp_all add: wf_parser_def Let_def)
  show ?thesis
    using assms(1) unfolding parseField_def
    by (simp only: split: if_splits)
      (use assms(2) plain wf in \<open>auto simp: wf_parser_flags\<close>)
qed

lemma parseLine_wf:
  assumes "parseLine p l = Inr p'" and "wf_parser p" and "line_safe l"
  shows "wf_parser p' \<and> prefix p' = prefix p"
proof -
  have "line_safe v" if "Cut l sep = (k, v, True)" for sep k v
    using assms(3) Cut_True_append [OF that] line_safe_suffix by blast
  moreover have "line_safe (TrimPrefix v s)" if "line_safe v" for v s
    using that by (auto simp: TrimPrefix_def HasPrefix_iff dest: line_safe_suffix)
  ultimately show ?thesis
    using assms parseField_wf unfolding parseLine_def
    by (auto split: prod.splits if_splits)
qed

lemma ReadString_line_safe:
  assumes "ReadString r = (l, r', e)"
  shows "line_safe (TrimRight l {CR, LF})"
proof -
  have "LF \<notin> set (takeWhile (\<lambda>c. c \<noteq> LF) d)" for d by (auto dest: set_takeWhileD)
  then show ?thesis
    using assms line_safe_TrimRight by (auto simp: ReadString_def TrimRight_LF split: prod.splits if_splits)
qed

lemma parse_loop_wf:
  assumes "parse_loop p r = Inr m" and "wf_parser p"
  shows "\<exists>p'. wf_parser p' \<and> prefix p' = prefix p \<and> finish p' = Inr m"
  using assms
proof (induction p r rule: parse_loop.induct)
  case (1 p r)
  obtain l r' e where rs: "ReadString r = (l, r', e)" by (metis prod_cases3)
  from 1(2) obtain p1 where p1: "parseLine p (TrimRight l {CR, LF}) = Inr p1"
    by (subst (asm) parse_loop.simps) (auto simp: rs split: sum.splits)
  from parseLine_wf [OF p1 1(3) ReadString_line_safe [OF rs]]
  have wf: "wf_parser p1" "prefix p1 = prefix p" by auto
  show ?case
  proof (cases e)
    case None
    with 1(2) p1 rs have "parse_loop p1 r' = Inr m" by (subst (asm) parse_loop.simps) simp
    with 1(1) [OF rs [symmetric] refl p1 None] wf show ?thesis by auto
  next
    case (Some a)
    with 1(2) p1 rs have "finish p1 = Inr m"
      by (subst (asm) parse_loop.simps) (auto split: read_err.splits)
    with wf show ?thesis by blast
  qed
qed

lemma Parse_wf:
  assumes "Parse r dir = Inr m"
  shows "wf_narinfo dir m"
proof -
  have "wf_parser \<lparr>pn = zeroNarInfo, prefix = storePrefix dir, seenRefs = False, seenCA = False\<rparr>"
    by (simp add: wf_parser_def zeroNarInfo_def line_safe_def)
  with assms obtain p where "wf_parser p" "prefix p = storePrefix dir" "finish p = Inr m"
    unfolding Parse_def using parse_loop_wf by fastforce
  then show ?thesis
    by (auto simp: finish_def wf_parser_def wf_narinfo_def Let_def defaultCompression_def line_safe_def
        split: if_splits)
qed

subsection \<open>The bound on references is never reached\<close>

lemma Cut_rest_length:
  assumes "fst (Cut v [c]) = b" and "fst (snd (Cut v [c])) = rest"
  shows "rest = [] \<and> length b \<le> length v \<or> length v = length b + 1 + length rest"
proof (cases "c \<in> set v")
  case True
  then have "v = b @ [c] @ rest"
    using Cut_True_append [of v "[c]" b rest] assms by (simp add: Cut_char)
  then show ?thesis by simp
next
  case False
  then show ?thesis using assms by (simp add: Cut_char)
qed

lemma references_loop_bound:
  assumes "v = [] \<or> 35 * length refs + length v \<le> L" and "m = maxReferences L"
  shows "references_loop pre m refs v \<noteq> Inl (errTooManyReferences k)"
  using assms
proof (induction pre m refs v rule: references_loop.induct)
  case (1 pre m refs v)
  define b rest where b: "b = fst (Cut v '' '')" and rest: "rest = fst (snd (Cut v '' ''))"
  show ?case
  proof (cases "v = []")
    case True
    then show ?thesis by (subst references_loop.simps) simp
  next
    case v: False
    then have L: "35 * length refs + length v \<le> L" using 1(3) by simp
    have len: "rest = [] \<and> length b \<le> length v \<or> length v = length b + 1 + length rest"
      by (rule Cut_rest_length) (simp_all add: b rest)
    have step: "references_loop pre m (refs @ [pre @ b]) rest \<noteq> Inl (errTooManyReferences k)"
      if "validBasename b" "b \<noteq> []" "length refs \<noteq> m"
      using 1(2) [OF v b rest] that 1(4) len L validBasename_chars(2) [OF that(1)] by fastforce
    have skip: "references_loop pre m refs rest \<noteq> Inl (errTooManyReferences k)" if "b = []"
      using 1(1) [OF v b rest that] 1(4) len L by fastforce
    have full: "length refs \<noteq> m" if "validBasename b"
    proof
      assume "length refs = m"
      then have "35 * (L div 33 + 1) + 34 \<le> L"
        using L len validBasename_chars(2) [OF that] 1(4) by (auto simp: maxReferences_def)
      moreover have "L < 33 * (L div 33 + 1)"
        by (simp add: dividend_less_div_times)
      ultimately show False by linarith
    qed
    show ?thesis
      using step skip full v
      by (subst references_loop.simps) (simp add: Let_def b [symmetric] rest [symmetric])
  qed
qed

lemma parseField_bound: "parseField p k v \<noteq> Inl (errTooManyReferences j)"
proof -
  have "parseReferences q v \<noteq> Inl (errTooManyReferences j)" for q
    using references_loop_bound [of v "[]" "length v" "maxReferences (length v)" "prefix q" j]
    by (auto simp: parseReferences_def split: sum.splits)
  moreover have "setStorePath p v \<noteq> Inl (errTooManyReferences j)" "setDeriver p v \<noteq> Inl (errTooManyReferences j)"
    "addSig p v \<noteq> Inl (errTooManyReferences j)"
    by (simp_all add: setStorePath_def setDeriver_def addSig_def CutPrefix_def)
  moreover have "parseHashFields p k v \<noteq> Inl (errTooManyReferences j)"
    "parseNumericFields p k v \<noteq> Inl (errTooManyReferences j)"
    by (simp_all add: parseHashFields_def parseNumericFields_def split: sum.splits)
  ultimately show ?thesis by (simp add: parseField_def)
qed

lemma parse_loop_bound: "parse_loop p r \<noteq> Inl (errTooManyReferences j)"
proof (induction p r rule: parse_loop.induct)
  case (1 p r)
  have "parseLine p l \<noteq> Inl (errTooManyReferences j)" for l
    using parseField_bound by (auto simp: parseLine_def split: prod.splits)
  moreover have "finish q \<noteq> Inl (errTooManyReferences j)" for q
    by (simp add: finish_def)
  ultimately show ?case
    using 1 by (subst parse_loop.simps) (auto split: prod.splits sum.splits option.splits read_err.splits)
qed

subsection \<open>Fingerprints\<close>

lemma Fingerprint_sort:
  "Fingerprint m = ''1;'' @ StorePath m @ '';'' @ NarHash m @ '';'' @ FormatUint (NarSize m) @ '';'' @
     join_char CHR '','' (sort (References m))"
  by (simp add: Fingerprint_def Let_def StringsAreSorted_def sorted_sort_id)

lemma cut_unique:
  fixes a :: string
  assumes "a @ c # x = b @ c # y" and "c \<notin> set a" and "c \<notin> set b"
  shows "a = b \<and> x = y"
  using Cut_char_append [OF assms(2), of x] Cut_char_append [OF assms(3), of y]
  unfolding assms(1) by simp

lemma join_head:
  assumes "c \<notin> set b"
  shows "takeWhile (\<lambda>x. x \<noteq> c) (join_char c (b # bs)) = b"
    and "dropWhile (\<lambda>x. x \<noteq> c) (b @ (if bs = [] then [] else c # r)) = (if bs = [] then [] else c # r)"
  using assms by (auto simp: join_Cons takeWhile_append dropWhile_append)

lemma join_store_inj:
  assumes "join_char CHR '','' (map ((@) pre) as) = join_char CHR '','' (map ((@) pre) bs)"
    and "list_all validBasename as" and "list_all validBasename bs"
  shows "as = bs"
  using assms
proof (induction as arbitrary: bs)
  case Nil
  then show ?case using validBasename_nonempty by (cases bs) (auto simp: join_Cons)
next
  case (Cons a as)
  then obtain b bs' where bs: "bs = b # bs'"
    using validBasename_nonempty by (cases bs) (auto simp: join_Cons)
  let ?tail = "\<lambda>xs. if xs = [] then [] else CHR '','' # join_char CHR '','' (map ((@) pre) xs)"
  have eq: "a @ ?tail as = b @ ?tail bs'" using Cons.prems(1) by (simp add: bs join_Cons)
  have notin: "CHR '','' \<notin> set a" "CHR '','' \<notin> set b"
    using Cons.prems(2,3) bs validBasename_not_in nameChar_not(3) by auto
  have "takeWhile (\<lambda>x. x \<noteq> CHR '','') (a @ ?tail as) = a" "takeWhile (\<lambda>x. x \<noteq> CHR '','') (b @ ?tail bs') = b"
    using notin by (auto simp: takeWhile_append)
  with eq have ab: "a = b" by metis
  with eq have "?tail as = ?tail bs'" by simp
  then have "join_char CHR '','' (map ((@) pre) as) = join_char CHR '','' (map ((@) pre) bs')"
    by (auto split: if_splits)
  with Cons ab bs show ?case by simp
qed

lemma canonical_no_semicolon: "canonical h \<Longrightarrow> CHR '';'' \<notin> set h"
proof -
  assume "canonical h"
  then obtain algo raw where h: "hashSizes algo = Some (length raw)" "h = algo @ '':'' @ EncodeToString raw"
    unfolding canonical_def by (rule CanonicalHash_Inr)
  have "CHR '';'' \<notin> set alphabet" by (simp add: alphabet_def)
  with set_EncodeToString have "CHR '';'' \<notin> set (EncodeToString raw)" by blast
  with h show ?thesis by (auto simp: hashSizes_Some)
qed

lemma FormatUint_inj: "FormatUint v = FormatUint w \<longleftrightarrow> v = w"
  using ParseUint_FormatUint by (metis Inr_inject)

lemma Fingerprint_inj:
  assumes "wf_narinfo dir a" and "wf_narinfo dir b" and eq: "Fingerprint a = Fingerprint b"
  shows "StorePath a = StorePath b \<and> NarHash a = NarHash b \<and> NarSize a = NarSize b \<and>
         mset (References a) = mset (References b)"
proof -
  let ?pre = "storePrefix dir"
  obtain p q where p: "validBasename p" "StorePath a = ?pre @ p" and q: "validBasename q" "StorePath b = ?pre @ q"
    using assms(1,2) by (auto simp: wf_narinfo_def in_store_iff)
  have "list_all (in_store ?pre) (sort (References a))" "list_all (in_store ?pre) (sort (References b))"
    using assms(1,2) by (auto simp: wf_narinfo_def list_all_iff)
  then obtain as bs where as: "list_all validBasename as" "sort (References a) = map ((@) ?pre) as"
    and bs: "list_all validBasename bs" "sort (References b) = map ((@) ?pre) bs"
    by (metis map_path_Base_store)
  note semi = validBasename_not_in [OF _ nameChar_not(4)]
  have 1: "p = q \<and> NarHash a @ CHR '';'' # FormatUint (NarSize a) @ CHR '';'' # join_char CHR '','' (sort (References a)) =
      NarHash b @ CHR '';'' # FormatUint (NarSize b) @ CHR '';'' # join_char CHR '','' (sort (References b))"
    using eq by (intro cut_unique [OF _ semi semi]) (simp_all add: Fingerprint_sort p q)
  then have 2: "NarHash a = NarHash b \<and> FormatUint (NarSize a) @ CHR '';'' # join_char CHR '','' (sort (References a)) =
      FormatUint (NarSize b) @ CHR '';'' # join_char CHR '','' (sort (References b))"
    using assms(1,2) by (intro cut_unique) (auto simp: wf_narinfo_def canonical_no_semicolon)
  have "CHR '';'' \<notin> set (FormatUint v)" for v by (auto simp: is_digit_def dest: FormatUint_chars)
  with 2 have 3: "FormatUint (NarSize a) = FormatUint (NarSize b) \<and>
      join_char CHR '','' (sort (References a)) = join_char CHR '','' (sort (References b))"
    by (intro cut_unique) auto
  then have "as = bs" using as bs by (auto intro: join_store_inj)
  with as bs have "sort (References a) = sort (References b)" by simp
  then have "mset (References a) = mset (References b)" by (metis mset_sort)
  with 1 2 3 p q show ?thesis by (simp add: FormatUint_inj)
qed

subsection \<open>Sizes\<close>

lemma join_sum: "length (join_char c ss) = sum_with_sep (map length ss)"
  by (induction c ss rule: join_char.induct) auto

lemma marshalSize_Marshal:
  "length (Marshal m) + 40 = marshalSize m + length (FormatUint (FileSize m)) + length (FormatUint (NarSize m))"
  by (simp add: Marshal_def marshalSize_def join_sum length_concat comp_def)

section \<open>A concrete narinfo\<close>

definition example_base :: "string \<Rightarrow> string" where
  "example_base nm = replicate 32 CHR ''0'' @ ''-'' @ nm"

definition example_narinfo :: NarInfo where
  "example_narinfo =
     \<lparr>StorePath = ''/nix/store/'' @ example_base ''a'', URL = ''nar/a.nar'', Compression = ''none'',
      FileHash = [], FileSize = 120, NarHash = ''sha256:'' @ replicate 52 CHR ''0'', NarSize = 120,
      References = [''/nix/store/'' @ example_base ''b'', ''/nix/store/'' @ example_base ''a''],
      Deriver = ''/nix/store/'' @ example_base ''a.drv'', Sigs = [''key:AAAA''], CA = []\<rparr>"

lemma example_base_valid:
  "validBasename (example_base ''a'')" "validBasename (example_base ''b'')" "validBasename (example_base ''a.drv'')"
  unfolding example_base_def validBasename_def
  by (simp_all add: Cut_char_append validName_def maxNameLen_def nameChar_def less_eq_char_def
      ValidHashPart_def HashPartLen_def decTable_valid alphabet_def numeral_eq_Suc Cut_char)

lemma example_hash_canonical: "canonical (''sha256:'' @ replicate 52 CHR ''0'')"
proof -
  have "enc_digit (replicate 32 0) p = 0" if "p div 8 < 32" for p
    using bit_enc_digit [of p "replicate 32 0"] that by (intro bit_eqI) (simp add: bbit_def)
  then have "EncodeToString (replicate 32 0) = replicate 52 CHR ''0''"
    by (intro nth_equalityI) (auto simp: EncodeToString_def encodedLen_def Let_def encTable_def alphabet_def)
  then have "CanonicalHash (''sha256'' @ '':'' @ hex_EncodeToString (replicate 32 0)) = Inr (''sha256'' @ '':'' @ replicate 52 CHR ''0'')"
    using CanonicalHash_colon [of "''sha256''" 32 "hex_EncodeToString (replicate 32 0)"]
      decodeDigest_encodings(1) [of "''sha256''" "replicate 32 0"]
    by (simp add: hashSizes_Some)
  from CanonicalHash_idem [OF this] show ?thesis by (simp add: canonical_def)
qed

lemma example_narinfo_wf: "wf_narinfo [] example_narinfo"
proof -
  have pre: "storePrefix [] = ''/nix/store/''"
    by (simp add: storePrefix_def DefaultStoreDir_def TrimSuffix_def HasSuffix_def)
  have in_s: "in_store ''/nix/store/'' (''/nix/store/'' @ b)" if "validBasename b" for b
    unfolding in_store_iff using that by blast
  have "line_safe (''/nix/store/'' @ example_base ''a'')"
    by (rule line_safe_append) (auto intro: validBasename_line_safe example_base_valid)
  then show ?thesis
    using in_s [OF example_base_valid(1)] in_s [OF example_base_valid(2)] in_s [OF example_base_valid(3)]
      example_hash_canonical
    unfolding wf_narinfo_def example_narinfo_def pre
    by (simp add: line_safe_def maxSignatures_def del: append.simps)
qed

section \<open>Properties\<close>

text \<open>
  C3: rendering and parsing are inverse on everything the parser accepts.  Whatever narinfo text
  \<^verbatim>\<open>Parse\<close> accepts for a store directory, rendering the result with \<^verbatim>\<open>Marshal\<close> and parsing that
  again gives the same metadata, field for field.
\<close>

theorem parse_marshal_roundtrip:
  assumes "Parse r storeDir = Inr m"
  shows "Parse (Marshal m, EOF) storeDir = Inr m"
  using Parse_Marshal [OF Parse_wf [OF assms]] .

theorem parse_marshal_roundtrip_witness:
  "Parse (Marshal example_narinfo, EOF) [] = Inr example_narinfo"
  by (rule parse_marshal_roundtrip [OF Parse_Marshal [OF example_narinfo_wf]])

text \<open>
  C4: the metadata \<^verbatim>\<open>Parse\<close> can return is exactly the well-formed metadata: store path, references
  and deriver are basenames inside the given store, hashes are canonical, the required fields are
  present, and no field carries a line break.
\<close>

theorem parse_range_exact: "(\<exists>r. Parse r storeDir = Inr m) \<longleftrightarrow> wf_narinfo storeDir m"
  using Parse_wf Parse_Marshal by blast

text \<open>
  The allocation ceiling on references is never the reason for rejecting a narinfo: every
  reference the loop keeps is at least 34 characters of the line, so the capacity it allocates is
  always enough and \<^verbatim>\<open>errTooManyReferences\<close> is never returned.
\<close>

theorem parse_never_too_many_references: "Parse r storeDir \<noteq> Inl (errTooManyReferences k)"
  unfolding Parse_def by (rule parse_loop_bound)

text \<open>
  C5: the fingerprint binds what a signature is meant to bind.  Two narinfos of one store that
  passed \<^verbatim>\<open>Parse\<close> have the same fingerprint exactly when they agree on store path, NAR hash, NAR
  size and, up to order, on their references.
\<close>

theorem fingerprint_binds:
  assumes "Parse r storeDir = Inr a" and "Parse r' storeDir = Inr b"
  shows "Fingerprint a = Fingerprint b \<longleftrightarrow>
    StorePath a = StorePath b \<and> NarHash a = NarHash b \<and> NarSize a = NarSize b \<and>
    mset (References a) = mset (References b)"
proof
  assume "Fingerprint a = Fingerprint b"
  then show "StorePath a = StorePath b \<and> NarHash a = NarHash b \<and> NarSize a = NarSize b \<and>
      mset (References a) = mset (References b)"
    using Fingerprint_inj Parse_wf [OF assms(1)] Parse_wf [OF assms(2)] by blast
next
  assume *: "StorePath a = StorePath b \<and> NarHash a = NarHash b \<and> NarSize a = NarSize b \<and>
      mset (References a) = mset (References b)"
  then have "sort (References a) = sort (References b)" by (intro properties_for_sort) auto
  with * show "Fingerprint a = Fingerprint b" by (simp add: Fingerprint_sort)
qed

theorem fingerprint_binds_witness:
  "Fingerprint example_narinfo = Fingerprint (example_narinfo\<lparr>References := rev (References example_narinfo)\<rparr>)"
proof -
  have wf: "wf_narinfo [] (example_narinfo\<lparr>References := rev (References example_narinfo)\<rparr>)"
    using example_narinfo_wf by (auto simp: wf_narinfo_def)
  show ?thesis
    using fingerprint_binds [OF Parse_Marshal [OF example_narinfo_wf] Parse_Marshal [OF wf]] by simp
qed

text \<open>
  C6: \<^verbatim>\<open>CanonicalHash\<close> identifies the aliases of a digest.  The hexadecimal, base-32, base-64 and
  SRI spellings of one digest of the algorithm's size all canonicalise to the base-32 form, and
  every result is a fixed point.
\<close>

theorem canonical_hash_aliases:
  assumes "hashSizes algo = Some (length raw)" and "canon = algo @ '':'' @ EncodeToString raw"
  shows "CanonicalHash (algo @ '':'' @ hex_EncodeToString raw) = Inr canon \<and>
    CanonicalHash (algo @ '':'' @ EncodeToString raw) = Inr canon \<and>
    CanonicalHash (algo @ '':'' @ base64_EncodeToString raw) = Inr canon \<and>
    CanonicalHash (algo @ ''-'' @ base64_EncodeToString raw) = Inr canon \<and>
    (CanonicalHash s = Inr h \<longrightarrow> CanonicalHash h = Inr h)"
proof -
  have "CHR '':'' \<notin> set (base64_EncodeToString raw)" using base64_Encode_chars by blast
  from CanonicalHash_sri [OF assms(1) this] show ?thesis
    unfolding assms(2) CanonicalHash_colon [OF assms(1)] decodeDigest_encodings [OF assms(1)]
      decodeBase64_Encode using CanonicalHash_idem by simp
qed

theorem canonical_hash_aliases_witness:
  "CanonicalHash (''md5'' @ ''-'' @ base64_EncodeToString (replicate 16 7)) =
     Inr (''md5'' @ '':'' @ EncodeToString (replicate 16 7)) \<and>
   CanonicalHash (''md5'' @ '':'' @ hex_EncodeToString (replicate 16 7)) =
     Inr (''md5'' @ '':'' @ EncodeToString (replicate 16 7))"
proof -
  have "hashSizes ''md5'' = Some (length (replicate 16 (7 :: byte)))" by (simp add: hashSizes_def)
  from canonical_hash_aliases [OF this refl] show ?thesis by blast
qed

text \<open>
  C7: the buffer \<^verbatim>\<open>Marshal\<close> grows is never too small and wastes at most 38 bytes, the unused
  digits of the two sizes.
\<close>

theorem marshal_size_bounds:
  "length (Marshal m) \<le> marshalSize m \<and> marshalSize m \<le> length (Marshal m) + 38"
proof -
  have "1 \<le> length (FormatUint v)" for v by (cases "FormatUint v") (use FormatUint_nonempty in auto)
  then have "1 \<le> length (FormatUint (FileSize m))" "1 \<le> length (FormatUint (NarSize m))" by blast+
  with marshalSize_Marshal [of m] FormatUint_length [of "FileSize m"] FormatUint_length [of "NarSize m"]
  show ?thesis by linarith
qed

end
