(* ===== verification/Signing.thy ===== *)
theory Signing
  imports GoText Narinfo
begin

text \<open>
  Package \<^verbatim>\<open>signing\<close> (\<^verbatim>\<open>signing/signing.go\<close>): the named ed25519 keys in Nix wire format.  The
  elliptic-curve arithmetic of \<^verbatim>\<open>crypto/ed25519\<close> is a parameter (record \<open>ed25519\<close>): the public half
  of a seed, signing and verification.  The layout of its keys (\<^verbatim>\<open>seed || public\<close>) and their sizes
  are the documented ones, and \<open>ed25519_ok\<close> names what the code relies on.
\<close>

section \<open>The signature scheme\<close>

record ed25519 =
  ed_pub :: "bytes \<Rightarrow> bytes"
  ed_sign :: "bytes \<Rightarrow> bytes \<Rightarrow> bytes"
  ed_verify :: "bytes \<Rightarrow> bytes \<Rightarrow> bytes \<Rightarrow> bool"

definition SeedSize :: nat where "SeedSize = 32"
definition PublicKeySize :: nat where "PublicKeySize = 32"
definition PrivateKeySize :: nat where "PrivateKeySize = 64"
definition SignatureSize :: nat where "SignatureSize = 64"

definition NewKeyFromSeed :: "ed25519 \<Rightarrow> bytes \<Rightarrow> bytes" where
  "NewKeyFromSeed E seed = seed @ ed_pub E seed"

text \<open>
  What is documented of the scheme: public keys and signatures have their fixed sizes, and a
  signature made with a private key verifies under its public half.
\<close>

definition ed25519_ok :: "ed25519 \<Rightarrow> bool" where
  "ed25519_ok E \<longleftrightarrow>
     (\<forall>seed. length seed = SeedSize \<longrightarrow> length (ed_pub E seed) = PublicKeySize) \<and>
     (\<forall>key m. length key = PrivateKeySize \<longrightarrow> length (ed_sign E key m) = SignatureSize) \<and>
     (\<forall>seed m. length seed = SeedSize \<longrightarrow>
        ed_verify E (ed_pub E seed) m (ed_sign E (NewKeyFromSeed E seed) m))"

section \<open>Keys\<close>

datatype signing_error =
    errSecretKeyMissingSep | errPublicKeyMissingSep | errSecretKeyWrongLength nat
  | errPublicKeyWrongLength nat | errSecretKeyPubMismatch | errKeyNameEmpty
  | errKeyNameInvalid string | errBase64 codec_error | errGenerate string

definition validateKeyName :: "string \<Rightarrow> signing_error option" where
  "validateKeyName name =
     (if name = [] then Some errKeyNameEmpty
      else if list_ex (\<lambda>r. r = 58 \<or> unicode_IsSpace r \<or> unicode_IsControl r) (range_runes name)
      then Some (errKeyNameInvalid name)
      else None)"

record SecretKey =
  sk_Name :: string
  sk_key :: bytes

record PublicKey =
  pk_Name :: string
  pk_key :: bytes

definition ParseSecretKey :: "ed25519 \<Rightarrow> string \<Rightarrow> signing_error + SecretKey" where
  "ParseSecretKey E s =
     (case Cut s '':'' of (name, b64, ok) \<Rightarrow>
        if \<not> ok then Inl errSecretKeyMissingSep
        else case validateKeyName name of
          Some e \<Rightarrow> Inl e
        | None \<Rightarrow>
          (case StdEncoding_DecodeString b64 of
             Inl e \<Rightarrow> Inl (errBase64 e)
           | Inr raw \<Rightarrow>
               if length raw \<noteq> PrivateKeySize then Inl (errSecretKeyWrongLength (length raw))
               else let key = NewKeyFromSeed E (take SeedSize raw)
                    in if drop SeedSize raw \<noteq> drop SeedSize key then Inl errSecretKeyPubMismatch
                       else Inr \<lparr>sk_Name = name, sk_key = key\<rparr>))"

definition ParsePublicKey :: "string \<Rightarrow> signing_error + PublicKey" where
  "ParsePublicKey s =
     (case Cut s '':'' of (name, b64, ok) \<Rightarrow>
        if \<not> ok then Inl errPublicKeyMissingSep
        else case StdEncoding_DecodeString b64 of
          Inl e \<Rightarrow> Inl (errBase64 e)
        | Inr raw \<Rightarrow>
            if length raw \<noteq> PublicKeySize then Inl (errPublicKeyWrongLength (length raw))
            else Inr \<lparr>pk_Name = name, pk_key = raw\<rparr>)"

text \<open>\<open>rnd\<close> is what reading a seed from \<^verbatim>\<open>rand.Reader\<close> gives.\<close>

definition GenerateKey :: "ed25519 \<Rightarrow> string + bytes \<Rightarrow> string \<Rightarrow> signing_error + (SecretKey \<times> PublicKey)" where
  "GenerateKey E rnd name =
     (case validateKeyName name of
        Some e \<Rightarrow> Inl e
      | None \<Rightarrow>
        (case rnd of
           Inl e \<Rightarrow> Inl (errGenerate e)
         | Inr seed \<Rightarrow>
             let priv = NewKeyFromSeed E seed; pub = drop SeedSize priv
             in Inr (\<lparr>sk_Name = name, sk_key = priv\<rparr>, \<lparr>pk_Name = name, pk_key = pub\<rparr>)))"

definition Public :: "SecretKey \<Rightarrow> PublicKey" where
  "Public sk = \<lparr>pk_Name = sk_Name sk, pk_key = take PublicKeySize (drop SeedSize (sk_key sk))\<rparr>"

definition Sign :: "ed25519 \<Rightarrow> SecretKey \<Rightarrow> string \<Rightarrow> string" where
  "Sign E sk fingerprint =
     sk_Name sk @ '':'' @ base64_EncodeToString (ed_sign E (sk_key sk) (bytes_of fingerprint))"

definition Verify :: "ed25519 \<Rightarrow> PublicKey \<Rightarrow> string \<Rightarrow> string \<Rightarrow> bool" where
  "Verify E pk fingerprint sig =
     (case Cut sig '':'' of (name, b64, ok) \<Rightarrow>
        if \<not> ok \<or> name \<noteq> pk_Name pk then False
        else case StdEncoding_DecodeString b64 of
          Inl _ \<Rightarrow> False
        | Inr raw \<Rightarrow>
            if length raw \<noteq> SignatureSize then False
            else ed_verify E (pk_key pk) (bytes_of fingerprint) raw)"

definition SecretKey_String :: "SecretKey \<Rightarrow> string" where
  "SecretKey_String sk = sk_Name sk @ '':'' @ base64_EncodeToString (sk_key sk)"

definition PublicKey_String :: "PublicKey \<Rightarrow> string" where
  "PublicKey_String pk = pk_Name pk @ '':'' @ base64_EncodeToString (pk_key pk)"

section \<open>Well-formed keys\<close>

definition wf_secret :: "ed25519 \<Rightarrow> SecretKey \<Rightarrow> bool" where
  "wf_secret E sk \<longleftrightarrow>
     validateKeyName (sk_Name sk) = None \<and>
     (\<exists>seed. length seed = SeedSize \<and> sk_key sk = NewKeyFromSeed E seed)"

lemmas key_sizes = SeedSize_def PublicKeySize_def PrivateKeySize_def SignatureSize_def

lemma validateKeyName_safe:
  assumes "validateKeyName nm = None" and "c \<in> set nm" and "of_char c < (0x80 :: nat)"
  shows "of_char c \<noteq> (58 :: nat) \<and> \<not> unicode_IsSpace (of_char c) \<and> \<not> unicode_IsControl (of_char c)"
  using assms ascii_in_range_runes [OF assms(2,3)]
  by (auto simp: validateKeyName_def list_ex_iff split: if_splits)

lemma validateKeyName_no_colon: "validateKeyName nm = None \<Longrightarrow> CHR '':'' \<notin> set nm"
  using validateKeyName_safe [of nm "CHR '':''"] by auto

lemma validateKeyName_line_safe: "validateKeyName nm = None \<Longrightarrow> LF \<notin> set nm \<and> CR \<notin> set nm \<and> nm \<noteq> []"
  using validateKeyName_safe [of nm LF] validateKeyName_safe [of nm CR]
  by (auto simp: unicode_IsControl_def validateKeyName_def)

lemma wf_secret_parts:
  assumes "ed25519_ok E" and "wf_secret E sk"
  obtains seed where "length seed = 32" and "length (ed_pub E seed) = 32" and "sk_key sk = seed @ ed_pub E seed"
    and "Public sk = \<lparr>pk_Name = sk_Name sk, pk_key = ed_pub E seed\<rparr>"
  using assms unfolding wf_secret_def ed25519_ok_def
  by (auto simp: Public_def NewKeyFromSeed_def key_sizes)

lemma ParseSecretKey_wf: "ParseSecretKey E s = Inr sk \<Longrightarrow> wf_secret E sk"
  unfolding ParseSecretKey_def wf_secret_def
  by (auto simp: Let_def key_sizes split: prod.splits if_splits option.splits sum.splits
      intro!: exI [of _ "take 32 _"])

lemma GenerateKey_wf:
  "GenerateKey E rnd nm = Inr (sk, pk) \<Longrightarrow> ed25519_ok E \<Longrightarrow> (\<And>seed. rnd = Inr seed \<Longrightarrow> length seed = SeedSize) \<Longrightarrow>
   wf_secret E sk \<and> pk = Public sk"
  unfolding GenerateKey_def wf_secret_def ed25519_ok_def
  by (auto simp: Let_def Public_def NewKeyFromSeed_def key_sizes split: option.splits sum.splits)

lemma Cut_name:
  "validateKeyName nm = None \<Longrightarrow> Cut (nm @ '':'' @ d) '':'' = (nm, d, True)"
  using Cut_char_append [OF validateKeyName_no_colon] by simp

lemma secret_roundtrip:
  assumes "ed25519_ok E" and "wf_secret E sk"
  shows "ParseSecretKey E (SecretKey_String sk) = Inr sk"
proof -
  obtain seed where "length seed = 32" "length (ed_pub E seed) = 32" "sk_key sk = seed @ ed_pub E seed"
    using assms by (rule wf_secret_parts)
  then show ?thesis
    using assms(2) Cut_name [of "sk_Name sk" "base64_EncodeToString (sk_key sk)"]
    by (simp add: ParseSecretKey_def SecretKey_String_def wf_secret_def go_simps key_sizes NewKeyFromSeed_def)
qed

lemma public_roundtrip:
  assumes "ed25519_ok E" and "wf_secret E sk"
  shows "ParsePublicKey (PublicKey_String (Public sk)) = Inr (Public sk)"
proof -
  obtain seed where "length (ed_pub E seed) = 32" "Public sk = \<lparr>pk_Name = sk_Name sk, pk_key = ed_pub E seed\<rparr>"
    using assms by (rule wf_secret_parts)
  then show ?thesis
    using assms(2) Cut_name [of "sk_Name sk" "base64_EncodeToString (ed_pub E seed)"]
    by (simp add: ParsePublicKey_def PublicKey_String_def wf_secret_def go_simps key_sizes)
qed

lemma Verify_Sign:
  assumes "ed25519_ok E" and "wf_secret E sk"
  shows "Verify E (Public sk) fp (Sign E sk fp)"
proof -
  obtain seed where seed: "length seed = 32" "length (ed_pub E seed) = 32" "sk_key sk = seed @ ed_pub E seed"
      "Public sk = \<lparr>pk_Name = sk_Name sk, pk_key = ed_pub E seed\<rparr>"
    using assms by (rule wf_secret_parts)
  have "length (ed_sign E (sk_key sk) m) = SignatureSize" "ed_verify E (ed_pub E seed) m (ed_sign E (sk_key sk) m)" for m
    using assms(1) seed unfolding ed25519_ok_def by (simp_all add: key_sizes NewKeyFromSeed_def)
  then show ?thesis
    using assms(2) seed(4) Cut_name [of "sk_Name sk" "base64_EncodeToString (ed_sign E (sk_key sk) (bytes_of fp))"]
    by (simp add: Verify_def Sign_def wf_secret_def go_simps)
qed

lemma Sign_line_safe:
  assumes "wf_secret E sk"
  shows "line_safe (Sign E sk fp)"
proof -
  let ?b = "base64_EncodeToString (ed_sign E (sk_key sk) (bytes_of fp))"
  have "LF \<notin> set ?b" "CR \<notin> set ?b" using base64_Encode_chars [of _ "ed_sign E (sk_key sk) (bytes_of fp)"]
    by (fastforce simp: is_newline_def)+
  moreover have "LF \<notin> set (sk_Name sk)" using assms validateKeyName_line_safe by (auto simp: wf_secret_def)
  ultimately show ?thesis
    using last_in_set [of ?b] by (auto simp: Sign_def line_safe_def simp del: last_in_set)
qed

text \<open>A small scheme that satisfies the documented laws, for the witnesses.\<close>

definition example_scheme :: ed25519 where
  "example_scheme =
     \<lparr>ed_pub = (\<lambda>seed. map (\<lambda>b. b XOR 0xff) seed), ed_sign = (\<lambda>key m. key),
      ed_verify = (\<lambda>pk m sig. drop SeedSize sig = pk)\<rparr>"

lemma example_scheme_ok: "ed25519_ok example_scheme"
  by (simp add: ed25519_ok_def example_scheme_def key_sizes NewKeyFromSeed_def)

lemma example_key: "GenerateKey example_scheme (Inr (replicate 32 1)) ''k-1'' =
    Inr (\<lparr>sk_Name = ''k-1'', sk_key = replicate 32 1 @ replicate 32 0xfe\<rparr>,
         \<lparr>pk_Name = ''k-1'', pk_key = replicate 32 0xfe\<rparr>)"
proof -
  have "(1 :: byte) XOR 0xff = 0xfe" by simp
  then show ?thesis
    by (simp add: GenerateKey_def validateKeyName_def range_runes_def DecodeRune_def unicode_IsSpace_def
      unicode_IsControl_def NewKeyFromSeed_def example_scheme_def key_sizes Let_def)
qed

section \<open>Properties\<close>

text \<open>
  What this cache signs, its clients accept.  A signature by any key that came from
  \<^verbatim>\<open>ParseSecretKey\<close> verifies under that key's public half, read back from its printed form, and
  the signature is one line of a narinfo that cannot inject another.
\<close>

theorem sign_verifies:
  assumes "ed25519_ok E" and "ParseSecretKey E s = Inr sk"
  shows "\<exists>pk. ParsePublicKey (PublicKey_String (Public sk)) = Inr pk \<and> pk_Name pk = sk_Name sk \<and>
           Verify E pk fp (Sign E sk fp) \<and> line_safe (Sign E sk fp)"
proof -
  have wf: "wf_secret E sk" using assms(2) by (rule ParseSecretKey_wf)
  have "line_safe (Sign E sk fp)" using wf by (rule Sign_line_safe)
  then show ?thesis
    using public_roundtrip [OF assms(1) wf] Verify_Sign [OF assms(1) wf]
    by (intro exI [of _ "Public sk"]) (simp add: Public_def)
qed

theorem sign_verifies_witness:
  "\<exists>sk pk. ParsePublicKey (PublicKey_String (Public sk)) = Inr pk \<and>
     Verify example_scheme pk ''1;x'' (Sign example_scheme sk ''1;x'')"
proof -
  have "wf_secret example_scheme \<lparr>sk_Name = ''k-1'', sk_key = replicate 32 1 @ replicate 32 0xfe\<rparr>"
    using GenerateKey_wf [OF example_key example_scheme_ok] by (auto simp: key_sizes)
  from sign_verifies [OF example_scheme_ok secret_roundtrip [OF example_scheme_ok this], of "''1;x''"]
  show ?thesis by blast
qed

text \<open>
  Generated keys survive being written down.  Both halves \<^verbatim>\<open>GenerateKey\<close> returns parse back
  from their printed form to themselves, and the public half is the one the secret key derives.
\<close>

theorem generated_key_roundtrip:
  assumes "ed25519_ok E" and "length seed = SeedSize" and "GenerateKey E (Inr seed) nm = Inr (sk, pk)"
  shows "ParseSecretKey E (SecretKey_String sk) = Inr sk \<and> ParsePublicKey (PublicKey_String pk) = Inr pk \<and>
         Public sk = pk"
proof -
  have "wf_secret E sk" "pk = Public sk" using GenerateKey_wf [OF assms(3,1)] assms(2) by auto
  then show ?thesis using secret_roundtrip public_roundtrip assms(1) by simp
qed

theorem generated_key_roundtrip_witness:
  "ParsePublicKey (PublicKey_String \<lparr>pk_Name = ''k-1'', pk_key = replicate 32 0xfe\<rparr>) =
     Inr \<lparr>pk_Name = ''k-1'', pk_key = replicate 32 0xfe\<rparr>"
  using generated_key_roundtrip [OF example_scheme_ok _ example_key] by (simp add: key_sizes)

end
