(* ===== verification/Nar.thy ===== *)
theory Nar
  imports GoText Narinfo
begin

text \<open>
  Package \<^verbatim>\<open>nar\<close> (\<^verbatim>\<open>nar/nar.go\<close>): serialisation of a file system tree as a NAR and of a path as a
  \<^verbatim>\<open>nix-store --export\<close> stream.  The operating system is a record of functions (\<open>fsys\<close>), the
  buffered sink a record that says which writes it accepts and how much of a refused one it takes
  (\<open>sink\<close>), so that every
  \<^verbatim>\<open>if err != nil\<close> of the source is a branch.  The output so far is threaded through the writers.

  The specification is a datatype of trees with its byte string (\<open>serialise\<close>): \<^verbatim>\<open>Write\<close> produces
  exactly the byte string of the tree the file system holds.  A path holds at most one tree, and the
  byte strings of distinct trees differ before either ends, so two archives that were written agree
  exactly if the trees on disk do.
\<close>

section \<open>Environment\<close>

record sink =
  accepts :: "string \<Rightarrow> string \<Rightarrow> bool"
  taken :: "string \<Rightarrow> string \<Rightarrow> nat"
  flushes :: "string \<Rightarrow> bool"

record os_file =
  f_size :: "string + nat"
  f_data :: string

record fsys =
  lstat :: "string \<Rightarrow> string + 32 word"
  readDir :: "string \<Rightarrow> string + string list"
  openNoFollow :: "string \<Rightarrow> string + os_file"
  readlink :: "string \<Rightarrow> string + string"

datatype nar_error =
    errSink | errOS string | errNameCollision string string string
  | errUnsupportedType string | errMaxDepth string | errShortCopy string nat nat | errCopy string

definition caseHackSuffix :: string where
  "caseHackSuffix = ''~nix~case~hack~''"

definition maxDirDepth :: nat where
  "maxDirDepth = 64"

text \<open>The bits of \<^verbatim>\<open>fs.FileMode\<close>.\<close>

definition ModeDir :: "32 word" where "ModeDir = push_bit 31 1"
definition ModeSymlink :: "32 word" where "ModeSymlink = push_bit 27 1"
definition ModeType :: "32 word" where
  "ModeType = ModeDir OR ModeSymlink OR push_bit 26 1 OR push_bit 25 1 OR push_bit 24 1 OR push_bit 21 1 OR push_bit 19 1"

definition IsDir :: "32 word \<Rightarrow> bool" where "IsDir m \<longleftrightarrow> m AND ModeDir \<noteq> 0"
definition IsSymlink :: "32 word \<Rightarrow> bool" where "IsSymlink m \<longleftrightarrow> m AND ModeSymlink \<noteq> 0"
definition IsRegular :: "32 word \<Rightarrow> bool" where "IsRegular m \<longleftrightarrow> m AND ModeType = 0"
definition IsExecutable :: "32 word \<Rightarrow> bool" where "IsExecutable m \<longleftrightarrow> m AND 64 \<noteq> 0"

section \<open>Primitive writers\<close>

definition w_write :: "sink \<Rightarrow> string \<Rightarrow> string \<Rightarrow> nar_error + string" where
  "w_write w s out = (if accepts w out s then Inr (out @ s) else Inl errSink)"

fun writeUint64_loop :: "sink \<Rightarrow> nat \<Rightarrow> uint64 \<Rightarrow> string \<Rightarrow> nar_error + string" where
  "writeUint64_loop w 0 v out = Inr out"
| "writeUint64_loop w (Suc k) v out =
     (case w_write w [char_of (unat (ucast v :: byte))] out of
        Inl e \<Rightarrow> Inl e
      | Inr out' \<Rightarrow> writeUint64_loop w k (drop_bit 8 v) out')"

definition writeUint64 :: "sink \<Rightarrow> uint64 \<Rightarrow> string \<Rightarrow> nar_error + string" where
  "writeUint64 w v out = writeUint64_loop w 8 v out"

fun writeZeros :: "sink \<Rightarrow> nat \<Rightarrow> string \<Rightarrow> nar_error + string" where
  "writeZeros w 0 out = Inr out"
| "writeZeros w (Suc k) out =
     (case w_write w [CHR 0x00] out of Inl e \<Rightarrow> Inl e | Inr out' \<Rightarrow> writeZeros w k out')"

definition writePad :: "sink \<Rightarrow> nat \<Rightarrow> string \<Rightarrow> nar_error + string" where
  "writePad w n out = writeZeros w ((8 - n mod 8) mod 8) out"

definition writeString :: "sink \<Rightarrow> string \<Rightarrow> string \<Rightarrow> nar_error + string" where
  "writeString w s out =
     (case writeUint64 w (word_of_nat (length s)) out of
        Inl e \<Rightarrow> Inl e
      | Inr o1 \<Rightarrow>
        (case w_write w s o1 of
           Inl e \<Rightarrow> Inl e
         | Inr o2 \<Rightarrow> writePad w (length s) o2))"

text \<open>Consecutive \<^verbatim>\<open>writeString\<close> calls, each with its error check.\<close>

fun writeStrings :: "sink \<Rightarrow> string list \<Rightarrow> string \<Rightarrow> nar_error + string" where
  "writeStrings w [] out = Inr out"
| "writeStrings w (s # ss) out =
     (case writeString w s out of Inl e \<Rightarrow> Inl e | Inr out' \<Rightarrow> writeStrings w ss out')"

section \<open>Nodes\<close>

record narEntry =
  narName :: string
  diskName :: string

fun narEntries_loop :: "string \<Rightarrow> (string \<Rightarrow> string option) \<Rightarrow> string list \<Rightarrow> nar_error + narEntry list" where
  "narEntries_loop p seen [] = Inr []"
| "narEntries_loop p seen (disk # ds) =
     (let name = (case Cut disk caseHackSuffix of (before, _, found) \<Rightarrow> if found then before else disk)
      in case seen name of
           Some prev \<Rightarrow> Inl (errNameCollision p prev disk)
         | None \<Rightarrow>
           (case narEntries_loop p (seen(name \<mapsto> disk)) ds of
              Inl e \<Rightarrow> Inl e
            | Inr es \<Rightarrow> Inr (\<lparr>narName = name, diskName = disk\<rparr> # es)))"

definition narEntries :: "string \<Rightarrow> string list \<Rightarrow> bool \<Rightarrow> nar_error + narEntry list" where
  "narEntries p dirents caseHack =
     (if \<not> caseHack then Inr (map (\<lambda>e. \<lparr>narName = e, diskName = e\<rparr>) dirents)
      else narEntries_loop p (\<lambda>_. None) dirents)"

definition writeRegular :: "sink \<Rightarrow> fsys \<Rightarrow> string \<Rightarrow> 32 word \<Rightarrow> string \<Rightarrow> nar_error + string" where
  "writeRegular w fs path fi out =
     (case writeStrings w ([''('', ''type'', ''regular''] @ (if IsExecutable fi then [''executable'', ''''] else [])) out of
        Inl e \<Rightarrow> Inl e
      | Inr o1 \<Rightarrow>
        (case openNoFollow fs path of
           Inl e \<Rightarrow> Inl (errOS e)
         | Inr f \<Rightarrow>
           (case f_size f of
              Inl e \<Rightarrow> Inl (errOS e)
            | Inr sz \<Rightarrow>
              (case writeString w ''contents'' o1 of
                 Inl e \<Rightarrow> Inl e
               | Inr o2 \<Rightarrow>
                 (case writeUint64 w (word_of_nat sz) o2 of
                    Inl e \<Rightarrow> Inl e
                  | Inr o3 \<Rightarrow>
                    (case w_write w (take sz (f_data f)) o3 of
                       Inl _ \<Rightarrow> Inl (errCopy path)
                     | Inr o4 \<Rightarrow>
                         if length (f_data f) < sz then Inl (errShortCopy path (length (f_data f)) sz)
                         else (case writePad w sz o4 of
                                 Inl e \<Rightarrow> Inl e
                               | Inr o5 \<Rightarrow> writeString w '')'' o5)))))))"

definition writeSymlink :: "sink \<Rightarrow> fsys \<Rightarrow> string \<Rightarrow> string \<Rightarrow> nar_error + string" where
  "writeSymlink w fs path out =
     (case writeStrings w [''('', ''type'', ''symlink'', ''target''] out of
        Inl e \<Rightarrow> Inl e
      | Inr o1 \<Rightarrow>
        (case readlink fs path of
           Inl e \<Rightarrow> Inl (errOS e)
         | Inr target \<Rightarrow> writeStrings w [target, '')''] o1))"

text \<open>\<open>node\<close> is \<^verbatim>\<open>writeNode\<close> at the depth of the entries.\<close>

fun writeDirEntries ::
  "(string \<Rightarrow> 32 word \<Rightarrow> string \<Rightarrow> nar_error + string) \<Rightarrow> sink \<Rightarrow> fsys \<Rightarrow> string \<Rightarrow> narEntry list \<Rightarrow>
   string \<Rightarrow> nar_error + string" where
  "writeDirEntries node w fs path [] out = Inr out"
| "writeDirEntries node w fs path (entry # es) out =
     (case writeStrings w [''entry'', ''('', ''name'', narName entry, ''node''] out of
        Inl e \<Rightarrow> Inl e
      | Inr o1 \<Rightarrow>
        (let childPath = path @ ''/'' @ diskName entry
         in case lstat fs childPath of
              Inl e \<Rightarrow> Inl (errOS e)
            | Inr fi \<Rightarrow>
              (case node childPath fi o1 of
                 Inl e \<Rightarrow> Inl e
               | Inr o2 \<Rightarrow>
                 (case writeString w '')'' o2 of
                    Inl e \<Rightarrow> Inl e
                  | Inr o3 \<Rightarrow> writeDirEntries node w fs path es o3))))"

lemma writeDirEntries_cong [fundef_cong]:
  assumes "\<And>c fi out. node c fi out = node' c fi out"
    and "w = w'" and "fs = fs'" and "path = path'" and "es = es'" and "out = out'"
  shows "writeDirEntries node w fs path es out = writeDirEntries node' w' fs' path' es' out'"
proof -
  have "node = node'" using assms(1) by blast
  then show ?thesis using assms(2-) by simp
qed

function writeNode :: "sink \<Rightarrow> fsys \<Rightarrow> bool \<Rightarrow> nat \<Rightarrow> string \<Rightarrow> 32 word \<Rightarrow> string \<Rightarrow> nar_error + string"
  and writeDir :: "sink \<Rightarrow> fsys \<Rightarrow> bool \<Rightarrow> nat \<Rightarrow> string \<Rightarrow> string \<Rightarrow> nar_error + string" where
  "writeNode w fs caseHack depth path fi out =
     (if IsDir fi then writeDir w fs caseHack depth path out
      else if IsSymlink fi then writeSymlink w fs path out
      else if IsRegular fi then writeRegular w fs path fi out
      else Inl (errUnsupportedType path))"
| "writeDir w fs caseHack depth path out =
     (if maxDirDepth < depth then Inl (errMaxDepth path)
      else case writeStrings w [''('', ''type'', ''directory''] out of
        Inl e \<Rightarrow> Inl e
      | Inr o1 \<Rightarrow>
        (case readDir fs path of
           Inl e \<Rightarrow> Inl (errOS e)
         | Inr dirents \<Rightarrow>
           (case narEntries path dirents caseHack of
              Inl e \<Rightarrow> Inl e
            | Inr entries \<Rightarrow>
              (case writeDirEntries (\<lambda>child fi o'. writeNode w fs caseHack (depth + 1) child fi o') w fs path
                      (sort_key narName entries) o1 of
                 Inl e \<Rightarrow> Inl e
               | Inr o2 \<Rightarrow> writeString w '')'' o2))))"
  by pat_completeness auto
termination
  by (relation "measures
      [\<lambda>x. case x of Inl (_, _, _, d, _) \<Rightarrow> 65 - d | Inr (_, _, _, d, _) \<Rightarrow> 65 - d,
       \<lambda>x. case x of Inl _ \<Rightarrow> 1 | Inr _ \<Rightarrow> 0]") (auto simp: maxDirDepth_def)

declare writeNode.simps [simp del] writeDir.simps [simp del]

definition Write :: "sink \<Rightarrow> fsys \<Rightarrow> bool \<Rightarrow> string \<Rightarrow> nar_error + string" where
  "Write w fs darwinCaseHack root =
     (case writeString w ''nix-archive-1'' [] of
        Inl e \<Rightarrow> Inl e
      | Inr o1 \<Rightarrow>
        (case lstat fs root of
           Inl e \<Rightarrow> Inl (errOS e)
         | Inr fi \<Rightarrow>
           (case writeNode w fs darwinCaseHack 1 root fi o1 of
              Inl e \<Rightarrow> Inl e
            | Inr o2 \<Rightarrow> if flushes w o2 then Inr o2 else Inl errSink)))"

text \<open>
  The export stream.  The result carries the number of NAR bytes copied, on errors too; the reader
  is its contents with the error that ends them.
\<close>

definition WriteExportStream ::
  "sink \<Rightarrow> reader \<Rightarrow> string \<Rightarrow> string list \<Rightarrow> string \<Rightarrow> nat \<times> (nar_error + string)" where
  "WriteExportStream w r storePath refs deriver =
     (case writeUint64 w 1 [] of
        Inl e \<Rightarrow> (0, Inl e)
      | Inr o1 \<Rightarrow>
        (case w_write w (fst r) o1 of
           Inl e \<Rightarrow> (min (length (fst r)) (taken w o1 (fst r)), Inl e)
         | Inr o2 \<Rightarrow>
           (case snd r of
              ReadErr e \<Rightarrow> (length (fst r), Inl (errOS e))
            | EOF \<Rightarrow>
              (length (fst r),
               (case w_write w (''NIXE'' @ replicate 4 CHR 0x00) o2 of
                  Inl e \<Rightarrow> Inl e
                | Inr o3 \<Rightarrow>
                  (case writeString w storePath o3 of
                     Inl e \<Rightarrow> Inl e
                   | Inr o4 \<Rightarrow>
                     (case writeUint64 w (word_of_nat (length refs)) o4 of
                        Inl e \<Rightarrow> Inl e
                      | Inr o5 \<Rightarrow>
                        (case writeStrings w (sort_key path_Base refs) o5 of
                           Inl e \<Rightarrow> Inl e
                         | Inr o6 \<Rightarrow>
                           (case writeString w deriver o6 of
                              Inl e \<Rightarrow> Inl e
                            | Inr o7 \<Rightarrow>
                              (case writeUint64 w 0 o7 of
                                 Inl e \<Rightarrow> Inl e
                               | Inr o8 \<Rightarrow>
                                 (case writeUint64 w 0 o8 of
                                    Inl e \<Rightarrow> Inl e
                                  | Inr o9 \<Rightarrow> if flushes w o9 then Inr o9 else Inl errSink)))))))))))"

section \<open>The specification\<close>

datatype tree = Reg bool string | Sym string | Dir "(string \<times> tree) list"

definition le64 :: "nat \<Rightarrow> string" where
  "le64 k = map (\<lambda>i. char_of (k div 256 ^ i mod 256)) [0..<8]"

definition nar_str :: "string \<Rightarrow> string" where
  "nar_str s = le64 (length s) @ s @ replicate ((8 - length s mod 8) mod 8) CHR 0x00"

fun serialise :: "tree \<Rightarrow> string" where
  "serialise (Reg ex d) =
     concat (map nar_str ([''('', ''type'', ''regular''] @ (if ex then [''executable'', ''''] else []) @ [''contents'', d, '')'']))"
| "serialise (Sym t) = concat (map nar_str [''('', ''type'', ''symlink'', ''target'', t, '')''])"
| "serialise (Dir es) =
     concat (map nar_str [''('', ''type'', ''directory'']) @
     concat (map (\<lambda>(nm, t). concat (map nar_str [''entry'', ''('', ''name'', nm, ''node'']) @ serialise t @ nar_str '')'') es) @
     nar_str '')''"

definition nar_bytes :: "tree \<Rightarrow> string" where
  "nar_bytes t = nar_str ''nix-archive-1'' @ serialise t"

fun dir_depth :: "tree \<Rightarrow> nat" where
  "dir_depth (Reg _ _) = 0"
| "dir_depth (Sym _) = 0"
| "dir_depth (Dir es) = Suc (foldr max (map (\<lambda>(_, t). dir_depth t) es) 0)"

text \<open>The tree the file system holds at a path.\<close>

inductive holds :: "fsys \<Rightarrow> bool \<Rightarrow> string \<Rightarrow> tree \<Rightarrow> bool" for fs ch where
  holds_reg: "lstat fs p = Inr fi \<Longrightarrow> \<not> IsDir fi \<Longrightarrow> \<not> IsSymlink fi \<Longrightarrow> IsRegular fi \<Longrightarrow>
     openNoFollow fs p = Inr f \<Longrightarrow> f_size f = Inr sz \<Longrightarrow> sz \<le> length (f_data f) \<Longrightarrow>
     holds fs ch p (Reg (IsExecutable fi) (take sz (f_data f)))"
| holds_sym: "lstat fs p = Inr fi \<Longrightarrow> \<not> IsDir fi \<Longrightarrow> IsSymlink fi \<Longrightarrow> readlink fs p = Inr t \<Longrightarrow>
     holds fs ch p (Sym t)"
| holds_dir: "lstat fs p = Inr fi \<Longrightarrow> IsDir fi \<Longrightarrow> readDir fs p = Inr ds \<Longrightarrow> narEntries p ds ch = Inr es \<Longrightarrow>
     list_all2 (\<lambda>e (nm, t). nm = narName e \<and> holds fs ch (p @ ''/'' @ diskName e) t) (sort_key narName es) ts \<Longrightarrow>
     holds fs ch p (Dir ts)"

inductive_cases holdsE: "holds fs ch p t"

section \<open>What the writers append\<close>

definition reliable :: "sink \<Rightarrow> bool" where
  "reliable w \<longleftrightarrow> (\<forall>out s. accepts w out s) \<and> (\<forall>out. flushes w out)"

lemma w_write_Inr: "w_write w s out = Inr out' \<Longrightarrow> out' = out @ s"
  by (simp add: w_write_def split: if_splits)

lemma w_write_reliable: "reliable w \<Longrightarrow> w_write w s out = Inr (out @ s)"
  by (simp add: w_write_def reliable_def)

lemma le_byte: "char_of (unat (ucast (v :: uint64) :: byte)) = (char_of (unat v mod 256) :: char)"
  by (simp add: unsigned_ucast_eq take_bit_eq_mod)

lemma unat_drop_bit8: "unat (drop_bit 8 (v :: uint64)) = unat v div 256"
proof -
  have "unat (drop_bit 8 v) = drop_bit 8 (unat v)"
    by (metis unsigned_drop_bit_eq take_bit_nat_eq_self_iff unsigned_less)
  then show ?thesis by (simp only: drop_bit_eq_div) simp
qed

lemma writeUint64_loop_Inr:
  "writeUint64_loop w k v out = Inr out' \<Longrightarrow>
   out' = out @ map (\<lambda>i. char_of (unat v div 256 ^ i mod 256)) [0..<k]"
proof (induction k arbitrary: v out)
  case (Suc k)
  have upt: "[0..<Suc k] = 0 # map Suc [0..<k]" by (simp add: map_Suc_upt upt_conv_Cons del: upt_Suc)
  have div: "unat v div 256 div 256 ^ i = unat v div 256 ^ Suc i" for i
    by (simp add: div_mult2_eq)
  from Suc.prems have "writeUint64_loop w k (drop_bit 8 v) (out @ [char_of (unat v mod 256)]) = Inr out'"
    by (auto simp only: writeUint64_loop.simps le_byte dest!: w_write_Inr split: sum.splits)
  from Suc.IH [OF this] show ?case
    unfolding upt unat_drop_bit8 div by simp
qed simp

lemma writeUint64_Inr: "writeUint64 w v out = Inr out' \<Longrightarrow> out' = out @ le64 (unat v)"
  unfolding writeUint64_def le64_def by (rule writeUint64_loop_Inr)

lemma writeUint64_loop_reliable: "reliable w \<Longrightarrow> \<exists>out'. writeUint64_loop w k v out = Inr out'"
  by (induction k arbitrary: v out) (auto simp: w_write_reliable)

lemma writeUint64_reliable: "reliable w \<Longrightarrow> writeUint64 w v out = Inr (out @ le64 (unat v))"
  using writeUint64_loop_reliable writeUint64_Inr unfolding writeUint64_def by metis

lemma writeZeros_Inr: "writeZeros w k out = Inr out' \<Longrightarrow> out' = out @ replicate k CHR 0x00"
  by (induction k arbitrary: out) (fastforce dest!: w_write_Inr split: sum.splits)+

lemma writeZeros_reliable: "reliable w \<Longrightarrow> writeZeros w k out = Inr (out @ replicate k CHR 0x00)"
  by (induction k arbitrary: out) (auto simp: w_write_reliable)

lemma le64_mod: "le64 (k mod 2 ^ 64) = le64 k"
proof -
  have "k mod 2 ^ 64 div 256 ^ i mod 256 = k div 256 ^ i mod 256" if "i < 8" for i
  proof -
    have "(2 :: nat) ^ 64 = 256 ^ i * 256 ^ (8 - i)"
    proof -
      have "(256 :: nat) ^ i * 256 ^ (8 - i) = 256 ^ 8" using that by (simp add: power_add [symmetric])
      then show ?thesis by simp
    qed
    then have "k mod 2 ^ 64 = 256 ^ i * (k div 256 ^ i mod 256 ^ (8 - i)) + k mod 256 ^ i"
      by (simp only: mod_mult2_eq)
    then have "k mod 2 ^ 64 div 256 ^ i = k div 256 ^ i mod 256 ^ (8 - i)"
      using div_mod_unique [of "k mod 2 ^ 64"] by simp
    moreover have "(256 :: nat) dvd 256 ^ (8 - i)" using that by (simp add: dvd_power)
    ultimately show ?thesis by (simp add: mod_mod_cancel)
  qed
  then show ?thesis unfolding le64_def by (intro map_cong) simp_all
qed

lemma le64_word: "le64 (unat (word_of_nat k :: uint64)) = le64 k"
  using le64_mod [of k] by (simp add: unat_of_nat)

lemma writePad_Inr: "writePad w k out = Inr out' \<Longrightarrow> out' = out @ replicate ((8 - k mod 8) mod 8) CHR 0x00"
  unfolding writePad_def by (rule writeZeros_Inr)

lemma writePad_reliable: "reliable w \<Longrightarrow> writePad w k out = Inr (out @ replicate ((8 - k mod 8) mod 8) CHR 0x00)"
  unfolding writePad_def by (rule writeZeros_reliable)

lemma writeString_Inr: "writeString w s out = Inr out' \<Longrightarrow> out' = out @ nar_str s"
  by (auto simp: writeString_def nar_str_def le64_word dest!: w_write_Inr writeUint64_Inr writePad_Inr split: sum.splits)

lemma writeString_reliable: "reliable w \<Longrightarrow> writeString w s out = Inr (out @ nar_str s)"
  by (simp add: writeString_def nar_str_def le64_word w_write_reliable writeUint64_reliable writePad_reliable)

lemma writeStrings_Inr: "writeStrings w ss out = Inr out' \<Longrightarrow> out' = out @ concat (map nar_str ss)"
  by (induction ss arbitrary: out) (fastforce dest!: writeString_Inr split: sum.splits)+

lemma writeStrings_reliable: "reliable w \<Longrightarrow> writeStrings w ss out = Inr (out @ concat (map nar_str ss))"
  by (induction ss arbitrary: out) (auto simp: writeString_reliable)

lemmas writers_Inr = w_write_Inr writeUint64_Inr writePad_Inr writeString_Inr writeStrings_Inr
lemmas writers_reliable = w_write_reliable writeUint64_reliable writePad_reliable writeString_reliable writeStrings_reliable

section \<open>Leaves\<close>

lemma writeSymlink_Inr:
  assumes "writeSymlink w fs p out = Inr out'" and "lstat fs p = Inr fi" and "\<not> IsDir fi" and "IsSymlink fi"
  shows "\<exists>t. holds fs ch p t \<and> out' = out @ serialise t \<and> dir_depth t = 0"
  using assms holds_sym [OF assms(2-4)]
  by (force simp: writeSymlink_def dest!: writers_Inr split: sum.splits)

lemma writeRegular_Inr:
  assumes "writeRegular w fs p fi out = Inr out'" and "lstat fs p = Inr fi"
    and "\<not> IsDir fi" and "\<not> IsSymlink fi" and "IsRegular fi"
  shows "\<exists>t. holds fs ch p t \<and> out' = out @ serialise t \<and> dir_depth t = 0"
proof -
  obtain f sz where f: "openNoFollow fs p = Inr f" "f_size f = Inr sz" "sz \<le> length (f_data f)"
    and out': "out' = out @ serialise (Reg (IsExecutable fi) (take sz (f_data f)))"
    using assms(1) unfolding writeRegular_def
    by (auto simp: nar_str_def le64_word min_absorb2 dest!: writers_Inr split: sum.splits if_splits)
  from holds_reg [OF assms(2-5) f, where ch = ch] out' show ?thesis by fastforce
qed

section \<open>Directories\<close>

abbreviation entry_bytes :: "string \<times> tree \<Rightarrow> string" where
  "entry_bytes \<equiv> \<lambda>(nm, t). concat (map nar_str [''entry'', ''('', ''name'', nm, ''node'']) @ serialise t @ nar_str '')''"

lemma writeDirEntries_Inr:
  assumes "writeDirEntries node w fs p es out = Inr out'"
    and "\<And>c fi o1 o2. node c fi o1 = Inr o2 \<Longrightarrow> lstat fs c = Inr fi \<Longrightarrow> \<exists>t. P c t \<and> o2 = o1 @ serialise t"
  shows "\<exists>ts. list_all2 (\<lambda>e (nm, t). nm = narName e \<and> P (p @ ''/'' @ diskName e) t) es ts \<and>
           out' = out @ concat (map entry_bytes ts)"
  using assms(1)
proof (induction es arbitrary: out)
  case (Cons e es)
  from Cons.prems obtain fi o1 o2 where
    o1: "o1 = out @ concat (map nar_str [''entry'', ''('', ''name'', narName e, ''node''])"
    and fi: "lstat fs (p @ ''/'' @ diskName e) = Inr fi"
    and node: "node (p @ ''/'' @ diskName e) fi o1 = Inr o2"
    and rest: "writeDirEntries node w fs p es (o2 @ nar_str '')'') = Inr out'"
    by (auto simp: Let_def simp del: writeStrings.simps split: sum.splits dest!: writeString_Inr writeStrings_Inr)
  obtain t where t: "P (p @ ''/'' @ diskName e) t" "o2 = o1 @ serialise t" using assms(2) [OF node fi] by blast
  obtain ts where ts: "list_all2 (\<lambda>e (nm, t). nm = narName e \<and> P (p @ ''/'' @ diskName e) t) es ts"
    "out' = (o2 @ nar_str '')'') @ concat (map entry_bytes ts)" using Cons.IH [OF rest] by blast
  then show ?case using t o1 by (intro exI [of _ "(narName e, t) # ts"]) simp
qed simp

lemma writeDirEntries_reliable:
  assumes "reliable w"
    and "list_all2 (\<lambda>e (nm, t). nm = narName e \<and>
           (\<exists>fi. lstat fs (p @ ''/'' @ diskName e) = Inr fi \<and>
             (\<forall>o1. node (p @ ''/'' @ diskName e) fi o1 = Inr (o1 @ serialise t)))) es ts"
  shows "writeDirEntries node w fs p es out = Inr (out @ concat (map entry_bytes ts))"
  using assms(2)
proof (induction es ts arbitrary: out rule: list_all2_induct)
  case (Cons e es x ts)
  then show ?case by (auto simp: Let_def writers_reliable [OF assms(1)])
qed simp

lemma dir_depth_le_iff: "dir_depth (Dir ts) \<le> Suc k \<longleftrightarrow> (\<forall>(nm, t) \<in> set ts. dir_depth t \<le> k)"
  by (induction ts) auto

lemma writeNode_Inr:
  "writeNode w fs ch d p fi out = Inr out' \<Longrightarrow> lstat fs p = Inr fi \<Longrightarrow> d \<le> 65 \<Longrightarrow>
     \<exists>t. holds fs ch p t \<and> out' = out @ serialise t \<and> d + dir_depth t \<le> 65"
  "writeDir w fs ch d p out = Inr out' \<Longrightarrow> lstat fs p = Inr fi \<Longrightarrow> IsDir fi \<Longrightarrow>
     \<exists>t. holds fs ch p t \<and> out' = out @ serialise t \<and> d + dir_depth t \<le> 65"
proof (induction w fs ch d p fi out and w fs ch d p out arbitrary: out' and fi out' rule: writeNode_writeDir.induct)
  case (1 w fs ch d p fi out)
  show ?case
  proof (cases "IsDir fi")
    case True
    then show ?thesis using 1 by (auto simp: writeNode.simps)
  next
    case False
    then have "\<exists>t. holds fs ch p t \<and> out' = out @ serialise t \<and> dir_depth t = 0"
      using 1(2,3) writeSymlink_Inr writeRegular_Inr by (auto simp: writeNode.simps split: if_splits)
    then show ?thesis using 1(4) by auto
  qed
next
  case (2 w fs ch d p out)
  let ?node = "\<lambda>child fi o'. writeNode w fs ch (d + 1) child fi o'"
  from 2(2) obtain ds es o2 where
    d: "d \<le> 64" and ds: "readDir fs p = Inr ds" and es: "narEntries p ds ch = Inr es"
    and ents: "writeDirEntries ?node w fs p (sort_key narName es)
        (out @ concat (map nar_str [''('', ''type'', ''directory''])) = Inr o2"
    and out': "out' = o2 @ nar_str '')''"
    and o1: "writeStrings w [''('', ''type'', ''directory''] out =
        Inr (out @ concat (map nar_str [''('', ''type'', ''directory'']))"
    by (subst (asm) writeDir.simps)
      (auto simp del: writeStrings.simps simp: maxDirDepth_def split: if_splits sum.splits
        dest!: writeStrings_Inr writeString_Inr)
  have node: "\<exists>t. (holds fs ch c t \<and> dir_depth t \<le> 64 - d) \<and> o' = o1 @ serialise t"
    if "?node c cfi o1 = Inr o'" "lstat fs c = Inr cfi" for c cfi o1 o'
    using 2(1) [OF _ o1 ds es that] d by (fastforce simp: maxDirDepth_def)
  obtain ts where
    ts: "list_all2 (\<lambda>e (nm, t). nm = narName e \<and> holds fs ch (p @ ''/'' @ diskName e) t \<and> dir_depth t \<le> 64 - d)
        (sort_key narName es) ts"
    and o2: "o2 = (out @ concat (map nar_str [''('', ''type'', ''directory''])) @ concat (map entry_bytes ts)"
    using writeDirEntries_Inr [OF ents, where P = "\<lambda>c t. holds fs ch c t \<and> dir_depth t \<le> 64 - d"] node by blast
  have "list_all2 (\<lambda>e (nm, t). nm = narName e \<and> holds fs ch (p @ ''/'' @ diskName e) t) (sort_key narName es) ts"
    using ts by (rule list_all2_mono) auto
  then have "holds fs ch p (Dir ts)" using 2(3,4) ds es by (intro holds_dir)
  moreover have "dir_depth (Dir ts) \<le> Suc (64 - d)"
    unfolding dir_depth_le_iff using ts by (fastforce simp: list_all2_conv_all_nth in_set_conv_nth)
  moreover have "out' = out @ serialise (Dir ts)" by (simp add: out' o2)
  ultimately show ?case using d by (intro exI [of _ "Dir ts"]) simp
qed

lemma writeNode_reliable:
  assumes "reliable w"
  shows "holds fs ch p t \<Longrightarrow> d + dir_depth t \<le> 65 \<Longrightarrow>
    \<exists>fi. lstat fs p = Inr fi \<and> (\<forall>out. writeNode w fs ch d p fi out = Inr (out @ serialise t))"
proof (induction arbitrary: d rule: holds.induct)
  case (holds_reg p fi f sz)
  then show ?case
    by (auto simp: writeNode.simps writeRegular_def writers_reliable [OF assms] nar_str_def le64_word min_absorb2)
next
  case (holds_sym p fi t)
  then show ?case by (auto simp: writeNode.simps writeSymlink_def writers_reliable [OF assms])
next
  case (holds_dir p fi ds es ts)
  have d: "d \<le> 64" using holds_dir.prems by simp
  have sub: "dir_depth t \<le> 64 - d" if "(nm, t) \<in> set ts" for nm t
  proof -
    have "dir_depth (Dir ts) \<le> Suc (64 - d)" using holds_dir.prems by simp
    then show ?thesis using that unfolding dir_depth_le_iff by blast
  qed
  have kids: "list_all2 (\<lambda>e (nm, t). nm = narName e \<and>
      (\<exists>fi. lstat fs (p @ ''/'' @ diskName e) = Inr fi \<and>
        (\<forall>o1. writeNode w fs ch (d + 1) (p @ ''/'' @ diskName e) fi o1 = Inr (o1 @ serialise t))))
      (sort_key narName es) ts"
    using holds_dir.IH
  proof (rule list.rel_mono_strong)
    fix e x assume x: "x \<in> set ts"
      and rel: "case x of (nm, t) \<Rightarrow> nm = narName e \<and> holds fs ch (p @ ''/'' @ diskName e) t \<and>
        (\<forall>d. d + dir_depth t \<le> 65 \<longrightarrow> (\<exists>fi. lstat fs (p @ ''/'' @ diskName e) = Inr fi \<and>
          (\<forall>out. writeNode w fs ch d (p @ ''/'' @ diskName e) fi out = Inr (out @ serialise t))))"
    obtain nm t where nt: "x = (nm, t)" by (cases x)
    have "(d + 1) + dir_depth t \<le> 65" using sub [of nm t] x d unfolding nt by linarith
    with rel show "case x of (nm, t) \<Rightarrow> nm = narName e \<and>
      (\<exists>fi. lstat fs (p @ ''/'' @ diskName e) = Inr fi \<and>
        (\<forall>o1. writeNode w fs ch (d + 1) (p @ ''/'' @ diskName e) fi o1 = Inr (o1 @ serialise t)))"
      unfolding nt prod.case by blast
  qed
  have "writeDir w fs ch d p out = Inr (out @ serialise (Dir ts))" for out
  proof -
    have ents: "writeDirEntries (\<lambda>child fi o'. writeNode w fs ch (d + 1) child fi o') w fs p (sort_key narName es) o1 =
        Inr (o1 @ concat (map entry_bytes ts))" for o1
      by (rule writeDirEntries_reliable [OF assms kids])
    have "\<not> maxDirDepth < d" using d by (simp add: maxDirDepth_def)
    then have "writeDir w fs ch d p out = Inr (((out @ concat (map nar_str [''('', ''type'', ''directory''])) @
        concat (map entry_bytes ts)) @ nar_str '')'')"
      by (simp only: writeDir.simps if_False writeStrings_reliable [OF assms] sum.case holds_dir.hyps(3,4) ents
          writeString_reliable [OF assms])
    then show ?thesis by simp
  qed
  then show ?case using holds_dir.hyps(1,2) by (auto simp: writeNode.simps)
qed

section \<open>Distinct trees have distinct archives\<close>

lemma digits_eq_mod:
  assumes "\<And>i. i < m \<Longrightarrow> k div 256 ^ i mod 256 = l div 256 ^ i mod (256 :: nat)"
  shows "k mod 256 ^ m = l mod 256 ^ m"
  using assms
proof (induction m)
  case (Suc m)
  then have "k mod 256 ^ m = l mod 256 ^ m" "k div 256 ^ m mod 256 = l div 256 ^ m mod 256" by simp_all
  then show ?case
    unfolding power_Suc2 mod_mult2_eq by simp
qed simp

lemma le64_inj:
  assumes "le64 k = le64 l" and "k < 2 ^ 64" and "l < 2 ^ 64"
  shows "k = l"
proof -
  have "k div 256 ^ i mod 256 = l div 256 ^ i mod 256" if "i < 8" for i
  proof -
    have "le64 k ! i = le64 l ! i" using assms(1) by simp
    then have "(char_of (k div 256 ^ i mod 256) :: char) = char_of (l div 256 ^ i mod 256)"
      using that by (simp add: le64_def)
    then have "(of_char (char_of (k div 256 ^ i mod 256) :: char) :: nat) = of_char (char_of (l div 256 ^ i mod 256) :: char)"
      by simp
    then show ?thesis by simp
  qed
  then have "k mod 256 ^ 8 = l mod 256 ^ 8" by (rule digits_eq_mod)
  with assms(2,3) show ?thesis by simp
qed

lemma length_le64 [simp]: "length (le64 k) = 8"
  by (simp add: le64_def)

lemma nar_str_cancel:
  assumes "length s < 2 ^ 64" and "length t < 2 ^ 64"
  shows "nar_str s @ x = nar_str t @ y \<longleftrightarrow> s = t \<and> x = y"
proof
  assume eq: "nar_str s @ x = nar_str t @ y"
  then have "take 8 (nar_str s @ x) = take 8 (nar_str t @ y)" by simp
  then have "le64 (length s) = le64 (length t)" by (simp add: nar_str_def)
  then have "length s = length t" using assms by (rule le64_inj)
  with eq show "s = t \<and> x = y" by (simp add: nar_str_def)
qed simp

lemma nar_str_cancel_end:
  assumes "length s < 2 ^ 64" and "length t < 2 ^ 64"
  shows "nar_str s = nar_str t @ y \<longleftrightarrow> s = t \<and> y = []"
    and "nar_str s @ x = nar_str t \<longleftrightarrow> s = t \<and> x = []"
  using nar_str_cancel [OF assms, of "[]" y] nar_str_cancel [OF assms, of x "[]"] by auto

fun tree_ok :: "tree \<Rightarrow> bool" where
  "tree_ok (Reg ex d) \<longleftrightarrow> length d < 2 ^ 64"
| "tree_ok (Sym t) \<longleftrightarrow> length t < 2 ^ 64"
| "tree_ok (Dir es) \<longleftrightarrow> (\<forall>(nm, t) \<in> set es. length nm < 2 ^ 64 \<and> tree_ok t)"

lemma entries_cancel:
  assumes "\<And>nm t t' x y. (nm, t) \<in> set es \<Longrightarrow> serialise t @ x = serialise t' @ y \<Longrightarrow> tree_ok t \<Longrightarrow> tree_ok t' \<Longrightarrow>
      t = t' \<and> x = y"
    and "concat (map entry_bytes es) @ nar_str '')'' @ x = concat (map entry_bytes es') @ nar_str '')'' @ y"
    and "tree_ok (Dir es)" and "tree_ok (Dir es')"
  shows "es = es' \<and> x = y"
  using assms
proof (induction es arbitrary: es')
  case Nil
  then show ?case by (cases es') (auto simp: nar_str_cancel)
next
  case (Cons e es)
  show ?case
  proof (cases es')
    case Nil
    then show ?thesis using Cons.prems(2) by (cases e) (simp add: nar_str_cancel)
  next
    case (Cons e' es'')
    obtain nm t nm' t' where e: "e = (nm, t)" "e' = (nm', t')" by (cases e; cases e')
    have ok: "length nm < 2 ^ 64" "length nm' < 2 ^ 64" "tree_ok t" "tree_ok t'" "tree_ok (Dir es)" "tree_ok (Dir es'')"
      using Cons.prems(3,4) by (auto simp: e Cons)
    have eq: "nm = nm' \<and> serialise t @ nar_str '')'' @ concat (map entry_bytes es) @ nar_str '')'' @ x =
        serialise t' @ nar_str '')'' @ concat (map entry_bytes es'') @ nar_str '')'' @ y"
      using Cons.prems(2) ok(1,2) by (simp add: e Cons nar_str_cancel)
    then have t: "t = t' \<and> nar_str '')'' @ concat (map entry_bytes es) @ nar_str '')'' @ x =
        nar_str '')'' @ concat (map entry_bytes es'') @ nar_str '')'' @ y"
      by (intro Cons.prems(1) [of nm t, OF _ _ ok(3,4)]) (simp_all only: e list.set insertI1)
    have "es = es'' \<and> x = y"
    proof (rule Cons.IH [OF _ _ ok(5,6)])
      show "u = u' \<and> a = b" if "(k, u) \<in> set es" "serialise u @ a = serialise u' @ b" "tree_ok u" "tree_ok u'"
        for k u u' a b
        using Cons.prems(1) [of k u] that by simp
      show "concat (map entry_bytes es) @ nar_str '')'' @ x = concat (map entry_bytes es'') @ nar_str '')'' @ y"
        using t by blast
    qed
    with eq t show ?thesis by (simp only: e Cons)
  qed
qed

lemma serialise_cancel:
  "serialise t @ x = serialise t' @ y \<Longrightarrow> tree_ok t \<Longrightarrow> tree_ok t' \<Longrightarrow> t = t' \<and> x = y"
proof (induction t arbitrary: t' x y)
  case (Reg ex d)
  then show ?case by (cases t') (auto simp: nar_str_cancel split: if_splits)
next
  case (Sym l)
  then show ?case by (cases t') (auto simp: nar_str_cancel split: if_splits)
next
  case (Dir es)
  show ?case
  proof (cases t')
    case D: (Dir es')
    have "t = u \<and> a = b" if "(nm, t) \<in> set es" "serialise t @ a = serialise u @ b" "tree_ok t" "tree_ok u" for nm t u a b
      using Dir.IH [OF that(1), of t] that by simp
    then show ?thesis
      using entries_cancel [of es x es' y] Dir.prems by (simp add: D nar_str_cancel)
  qed (use Dir.prems in \<open>auto simp: nar_str_cancel split: if_splits\<close>)
qed

section \<open>What was written\<close>

text \<open>A path holds at most one tree.\<close>

lemma holds_unique: "holds fs ch p t \<Longrightarrow> holds fs ch p t' \<Longrightarrow> t = t'"
proof (induction arbitrary: t' rule: holds.induct)
  case (holds_dir p fi ds es ts)
  have "\<exists>ts'. t' = Dir ts' \<and>
      list_all2 (\<lambda>e (nm, t). nm = narName e \<and> holds fs ch (p @ ''/'' @ diskName e) t) (sort_key narName es) ts'"
    by (rule holdsE [OF holds_dir.prems]) (use holds_dir.hyps in simp_all)
  then obtain ts' where t': "t' = Dir ts'"
    and ts': "list_all2 (\<lambda>e (nm, t). nm = narName e \<and> holds fs ch (p @ ''/'' @ diskName e) t) (sort_key narName es) ts'"
    by blast
  have "list_all2 (=) ts ts'"
  proof (rule list_all2_all_nthI)
    show len: "length ts = length ts'" 
      using list_all2_lengthD [OF holds_dir.IH] list_all2_lengthD [OF ts'] by simp
    show "ts ! i = ts' ! i" if "i < length ts" for i
      using list_all2_nthD2 [OF holds_dir.IH that] list_all2_nthD2 [OF ts' that [unfolded len]]
      by (cases "ts ! i"; cases "ts' ! i") simp
  qed
  then show ?case by (simp add: t' list.rel_eq)
next
  case (holds_reg p fi f sz)
  show ?case by (rule holdsE [OF holds_reg.prems]) (use holds_reg.hyps in simp_all)
next
  case (holds_sym p fi l)
  show ?case by (rule holdsE [OF holds_sym.prems]) (use holds_sym.hyps in simp_all)
qed

lemma Write_Inr:
  assumes "Write w fs ch root = Inr out"
  shows "\<exists>t. holds fs ch root t \<and> out = nar_bytes t \<and> dir_depth t \<le> maxDirDepth"
proof -
  obtain fi where fi: "lstat fs root = Inr fi" "writeNode w fs ch 1 root fi (nar_str ''nix-archive-1'') = Inr out"
    using assms by (auto simp: Write_def split: sum.splits if_splits dest!: writeString_Inr)
  show ?thesis
    using writeNode_Inr(1) [OF fi(2,1)] by (auto simp: nar_bytes_def maxDirDepth_def)
qed

lemma nar_bytes_cancel:
  assumes "tree_ok t" and "tree_ok t'"
  shows "nar_bytes t @ x = nar_bytes t' @ y \<longleftrightarrow> t = t' \<and> x = y"
  using serialise_cancel [OF _ assms, of x y] by (auto simp: nar_bytes_def)

section \<open>Names and lengths\<close>

fun names_sorted :: "tree \<Rightarrow> bool" where
  "names_sorted (Reg _ _) \<longleftrightarrow> True"
| "names_sorted (Sym _) \<longleftrightarrow> True"
| "names_sorted (Dir es) \<longleftrightarrow> sorted (map fst es) \<and> (\<forall>(nm, t) \<in> set es. names_sorted t)"

lemma holds_names_sorted: "holds fs ch p t \<Longrightarrow> names_sorted t"
proof (induction rule: holds.induct)
  case (holds_dir p fi ds es ts)
  have "map fst ts = map narName (sort_key narName es)"
    using holds_dir.IH by (induction rule: list_all2_induct) auto
  moreover have "\<forall>(nm, t) \<in> set ts. names_sorted t"
    using holds_dir.IH by (fastforce simp: list_all2_conv_all_nth in_set_conv_nth)
  ultimately show ?case by simp
qed simp_all

lemma pad8: "(n + (8 - n mod 8) mod 8) mod 8 = (0 :: nat)"
proof (cases "n mod 8 = 0")
  case False
  then have "(8 - n mod 8) mod 8 = 8 - n mod 8" by simp
  then have "(n + (8 - n mod 8) mod 8) mod 8 = (n mod 8 + (8 - n mod 8)) mod 8"
    by (simp only: mod_add_left_eq)
  also have "n mod 8 + (8 - n mod 8) = 8" using mod_less_divisor [of 8 n] by linarith
  finally show ?thesis by simp
qed simp

lemma nar_str_aligned: "8 dvd length (nar_str s)"
  unfolding dvd_eq_mod_eq_0 using pad8 [of "length s"] by (simp add: nar_str_def)

lemma nar_strs_aligned: "8 dvd length (concat (map nar_str ss))"
  using nar_str_aligned by (induction ss) (auto intro: dvd_add)

lemma serialise_aligned: "8 dvd length (serialise t)"
proof (induction t)
  case (Dir es)
  have "8 dvd length (entry_bytes e)" if "e \<in> set es" for e
    using Dir [OF that, of "snd e"] nar_str_aligned nar_strs_aligned
    by (cases e) (simp add: dvd_add del: map_append concat.simps list.map length_append, simp add: dvd_add)
  then have "8 dvd length (concat (map entry_bytes es))"
    by (induction es) (auto intro!: dvd_add)
  then show ?case
    using nar_str_aligned nar_strs_aligned [of "[''('', ''type'', ''directory'']"] by (simp add: dvd_add)
qed (use nar_strs_aligned in \<open>simp_all only: serialise.simps\<close>)


section \<open>A concrete tree\<close>

definition accept_all :: sink where
  "accept_all = \<lparr>accepts = (\<lambda>_ _. True), taken = (\<lambda>_ _. 0), flushes = (\<lambda>_. True)\<rparr>"

text \<open>A directory with a symbolic link and an executable file.\<close>

definition example_fs :: fsys where
  "example_fs =
     \<lparr>lstat = (\<lambda>p. if p = ''/r'' then Inr ModeDir else if p = ''/r/l'' then Inr ModeSymlink
              else if p = ''/r/f'' then Inr 493 else Inl ''ENOENT''),
      readDir = (\<lambda>p. if p = ''/r'' then Inr [''l'', ''f''] else Inl ''ENOTDIR''),
      openNoFollow = (\<lambda>p. if p = ''/r/f'' then Inr \<lparr>f_size = Inr 2, f_data = ''hi''\<rparr> else Inl ''ELOOP''),
      readlink = (\<lambda>p. if p = ''/r/l'' then Inr ''f'' else Inl ''EINVAL'')\<rparr>"

definition example_tree :: tree where
  "example_tree = Dir [(''f'', Reg True ''hi''), (''l'', Sym ''f'')]"

lemma accept_all_reliable: "reliable accept_all"
  by (simp add: reliable_def accept_all_def)

lemma example_modes:
  "IsDir ModeDir" "\<not> IsDir ModeSymlink" "IsSymlink ModeSymlink" "\<not> IsDir 493" "\<not> IsSymlink 493" "IsRegular 493"
  "IsExecutable 493"
  by (simp_all add: IsDir_def IsSymlink_def IsRegular_def IsExecutable_def ModeType_def ModeDir_def ModeSymlink_def)

lemma example_holds: "holds example_fs False ''/r'' example_tree"
proof -
  let ?es = "map (\<lambda>e. \<lparr>narName = e, diskName = e\<rparr>) [''f'', ''l'']"
  have f: "holds example_fs False ''/r/f'' (Reg True ''hi'')"
    using holds_reg [of example_fs "''/r/f''" 493 "\<lparr>f_size = Inr 2, f_data = ''hi''\<rparr>" 2 False] example_modes
    by (simp add: example_fs_def)
  have l: "holds example_fs False ''/r/l'' (Sym ''f'')"
    using example_modes by (intro holds_sym [of _ _ ModeSymlink]) (simp_all add: example_fs_def)
  have sorted: "sort_key narName (map (\<lambda>e. \<lparr>narName = e, diskName = e\<rparr>) [''l'', ''f'']) = ?es"
    by (simp add: less_char_def less_eq_char_def)
  have "list_all2 (\<lambda>e (nm, t). nm = narName e \<and> holds example_fs False (''/r'' @ ''/'' @ diskName e) t) ?es
      [(''f'', Reg True ''hi''), (''l'', Sym ''f'')]"
    using f l by simp
  then show ?thesis
    unfolding example_tree_def sorted [symmetric]
    by (rule holds_dir [where ds = "[''l'', ''f'']" and fi = ModeDir, rotated -1])
      (simp_all add: example_modes example_fs_def narEntries_def)
qed

text \<open>A single file with the given mode.\<close>

definition example_file :: "32 word \<Rightarrow> fsys" where
  "example_file m =
     \<lparr>lstat = (\<lambda>_. Inr m), readDir = (\<lambda>_. Inl ''ENOTDIR''),
      openNoFollow = (\<lambda>_. Inr \<lparr>f_size = Inr 2, f_data = ''hi''\<rparr>), readlink = (\<lambda>_. Inl ''EINVAL'')\<rparr>"

lemma example_file_modes: "m = 493 \<or> m = 420 \<Longrightarrow> \<not> IsDir m \<and> \<not> IsSymlink m \<and> IsRegular m"
  by (auto simp: IsDir_def IsSymlink_def IsRegular_def ModeType_def ModeDir_def ModeSymlink_def)

lemma example_file_holds: "holds (example_file 493) False ''/r'' (Reg True ''hi'')"
  "holds (example_file 420) False ''/r'' (Reg False ''hi'')"
  using holds_reg [of "example_file 493" "''/r''" 493 "\<lparr>f_size = Inr 2, f_data = ''hi''\<rparr>" 2 False] example_file_modes [of 493]
    holds_reg [of "example_file 420" "''/r''" 420 "\<lparr>f_size = Inr 2, f_data = ''hi''\<rparr>" 2 False] example_file_modes [of 420]
  by (simp_all add: example_file_def IsExecutable_def)

lemma example_file_written: "m = 493 \<or> m = 420 \<Longrightarrow> \<exists>out. Write accept_all (example_file m) False ''/r'' = Inr out"
  using writeNode_reliable [OF accept_all_reliable example_file_holds(1), of 1]
    writeNode_reliable [OF accept_all_reliable example_file_holds(2), of 1] accept_all_reliable
  by (auto simp: Write_def writeString_reliable reliable_def example_file_def)

section \<open>Properties\<close>

text \<open>
  C8: what \<^verbatim>\<open>Write\<close> reports as written is the archive of the tree on disk.  When \<^verbatim>\<open>Write\<close> returns
  without error, whatever the sink and the file system did on the way, the bytes it handed over are
  those of a tree the file system holds at the root, with at most 64 levels of directories and the
  entries of each in byte order, and their number is a multiple of eight.
\<close>

theorem nar_write_sound:
  assumes "Write w fs ch root = Inr out"
  shows "\<exists>t. holds fs ch root t \<and> out = nar_bytes t \<and> dir_depth t \<le> maxDirDepth \<and> names_sorted t \<and>
           8 dvd length out"
proof -
  obtain t where t: "holds fs ch root t" "out = nar_bytes t" "dir_depth t \<le> maxDirDepth"
    using Write_Inr [OF assms] by blast
  then show ?thesis
    using holds_names_sorted [OF t(1)] nar_str_aligned serialise_aligned
    by (intro exI [of _ t]) (auto simp: nar_bytes_def intro!: dvd_add)
qed

theorem nar_write_sound_witness: "\<exists>t. nar_bytes example_tree = nar_bytes t \<and> names_sorted t"
proof -
  have "Write accept_all example_fs False ''/r'' = Inr (nar_bytes example_tree)"
    using writeNode_reliable [OF accept_all_reliable example_holds, of 1] accept_all_reliable
    by (auto simp: Write_def writeString_reliable nar_bytes_def example_tree_def reliable_def)
  from nar_write_sound [OF this] show ?thesis by blast
qed

text \<open>
  C9: \<^verbatim>\<open>Write\<close> archives every tree it should.  With a sink that accepts all writes, any tree of
  at most 64 directory levels that the file system holds at the root is written, and completely.
\<close>

theorem nar_write_complete:
  assumes "reliable w" and "holds fs ch root t" and "dir_depth t \<le> maxDirDepth"
  shows "Write w fs ch root = Inr (nar_bytes t)"
proof -
  obtain fi where "lstat fs root = Inr fi" "\<And>out. writeNode w fs ch 1 root fi out = Inr (out @ serialise t)"
    using writeNode_reliable [OF assms(1,2), of 1] assms(3) by (auto simp: maxDirDepth_def)
  then show ?thesis
    using assms(1) by (simp add: Write_def writeString_reliable nar_bytes_def) (simp add: reliable_def)
qed

theorem nar_write_complete_witness: "Write accept_all example_fs False ''/r'' = Inr (nar_bytes example_tree)"
  using nar_write_complete [OF accept_all_reliable example_holds]
  by (simp add: example_tree_def maxDirDepth_def)

text \<open>
  C10: what \<^verbatim>\<open>Write\<close> hands over identifies the tree on disk, whatever follows it in the stream.  Of two
  calls that returned without error, on any sinks and file systems, the outputs agree exactly if the
  trees at the two roots do: a writer that dropped a name, a target, the executable bit, a byte of a file
  or an entry would make two trees look the same.  No output is a proper beginning of another, so a reader of a
  stream knows where an archive ends.  Names, targets and files are shorter than \<^verbatim>\<open>2^64\<close> bytes, the range of
  the length words.
\<close>

theorem written_archive_determines_tree:
  assumes "Write w fs ch root = Inr out" and "holds fs ch root t" and "tree_ok t"
    and "Write w' fs' ch' root' = Inr out'" and "holds fs' ch' root' t'" and "tree_ok t'"
  shows "out @ x = out' @ y \<longleftrightarrow> t = t' \<and> x = y"
proof -
  have "out = nar_bytes t" using Write_Inr [OF assms(1)] holds_unique [OF assms(2)] by auto
  moreover have "out' = nar_bytes t'" using Write_Inr [OF assms(4)] holds_unique [OF assms(5)] by auto
  ultimately show ?thesis using nar_bytes_cancel [OF assms(3,6)] by simp
qed

text \<open>A file and the same file without its executable bit.\<close>

theorem written_archive_determines_tree_witness:
  "\<exists>out out'. Write accept_all (example_file 493) False ''/r'' = Inr out \<and>
     Write accept_all (example_file 420) False ''/r'' = Inr out' \<and> (\<forall>x y. out @ x \<noteq> out' @ y)"
proof -
  obtain out out' where w: "Write accept_all (example_file 493) False ''/r'' = Inr out"
      "Write accept_all (example_file 420) False ''/r'' = Inr out'"
    using example_file_written by blast
  have "out @ x \<noteq> out' @ y" for x y
    using written_archive_determines_tree [OF w(1) example_file_holds(1) _ w(2) example_file_holds(2), of x y] by simp
  then show ?thesis using w by blast
qed

text \<open>
  The export stream is the documented frame around the NAR it was given.  A reader that ends
  normally is copied completely, its length is reported, and the references follow in the order of
  their base names, whatever order the caller had them in.
\<close>

theorem export_stream_exact:
  assumes "reliable w"
  shows "WriteExportStream w (nar, EOF) storePath refs deriver =
    (length nar,
     Inr (le64 1 @ nar @ ''NIXE'' @ replicate 4 CHR 0x00 @ nar_str storePath @ le64 (length refs) @
          concat (map nar_str (sort_key path_Base refs)) @ nar_str deriver @ le64 0 @ le64 0))"
  using assms
  by (simp add: WriteExportStream_def writers_reliable le64_word del: writeStrings.simps) (simp add: reliable_def)

theorem export_stream_exact_witness:
  "fst (WriteExportStream accept_all (''abc'', EOF) ''/s/p'' [] []) = 3"
  using export_stream_exact [OF accept_all_reliable, of "''abc''" "''/s/p''" "[]" "[]"] by simp

end
