(* ===== verification/Auth.thy ===== *)
theory Auth
  imports GoText
begin

text \<open>
  Package \<^verbatim>\<open>auth\<close> (\<^verbatim>\<open>auth/auth.go\<close>) and the way \<^verbatim>\<open>cli/serve.go\<close> wraps the cache's handler for
  its two kinds of listener.  A handler takes a request and the state of the process and returns
  the response and the new state; the state is the rejection counters and whatever the wrapped
  handlers keep (\<open>inner\<close>).  Identification (\<^verbatim>\<open>WhoIs\<close>) and the decoding of
  capability grants belong to Tailscale's packages and are parameters (record \<open>tailnet\<close>).
\<close>

section \<open>Requests, responses and handlers\<close>

text \<open>\<open>aborted\<close> marks a response whose connection the handler killed (\<^verbatim>\<open>http.ErrAbortHandler\<close>).\<close>

record request =
  Method :: string
  URLPath :: string
  RemoteAddr :: string

record response =
  status :: nat
  headers :: "(string \<times> string) list"
  rbody :: string
  aborted :: bool

record 's auth_state =
  rejects :: "string \<Rightarrow> nat"
  inner :: 's

type_synonym ('r, 's) handler = "'r request_scheme \<Rightarrow> 's auth_state \<Rightarrow> response \<times> 's auth_state"

definition http_Error :: "string \<Rightarrow> nat \<Rightarrow> response" where
  "http_Error msg code =
     \<lparr>status = code,
      headers = [(''Content-Type'', ''text/plain; charset=utf-8''), (''X-Content-Type-Options'', ''nosniff'')],
      rbody = msg @ [CHR 0x0A], aborted = False\<rparr>"

section \<open>Tailscale\<close>

record Cap =
  Push :: bool

record WhoIsResponse =
  w_Node :: "string option"
  w_UserProfile :: "string option"
  w_CapMap :: string

text \<open>
  \<open>WhoIs\<close> identifies the peer behind an address: an error, or a response that may be nil.
  \<open>UnmarshalCap\<close> decodes the grants for a capability name from a capability map.
\<close>

record tailnet =
  WhoIs :: "string \<Rightarrow> string + WhoIsResponse option"
  UnmarshalCap :: "string \<Rightarrow> string \<Rightarrow> Cap list \<times> string option"

definition CapName :: string where
  "CapName = ''kradalby.no/cap/tsnixcache''"

definition reasonUnidentified :: string where "reasonUnidentified = ''unidentified''"
definition reasonNoGrant :: string where "reasonNoGrant = ''no_grant''"
definition reasonLocalWrite :: string where "reasonLocalWrite = ''local_write''"

definition ReadOnlyMessage :: string where
  "ReadOnlyMessage =
     ''this listener has no authentication, so it is read-only;'' @
     '' restart tsnixcache with '' @ ''--local-write'' @ '' to allow writes here''"

section \<open>The gates\<close>

definition isSafeMethod :: "string \<Rightarrow> bool" where
  "isSafeMethod m \<longleftrightarrow> m = ''GET'' \<or> m = ''HEAD'' \<or> m = ''OPTIONS''"

definition isStateChangingPath :: "string \<Rightarrow> bool" where
  "isStateChangingPath p \<longleftrightarrow> path_Clean p = ''/debug/gc''"

definition HasPushCap :: "tailnet \<Rightarrow> string \<Rightarrow> bool" where
  "HasPushCap T cm = list_ex Push (fst (UnmarshalCap T cm CapName))"

definition inc :: "string \<Rightarrow> 's auth_state \<Rightarrow> 's auth_state" where
  "inc reason s = s\<lparr>rejects := (rejects s)(reason := rejects s reason + 1)\<rparr>"

definition Middleware :: "tailnet \<Rightarrow> ('r, 's) handler \<Rightarrow> ('r, 's) handler" where
  "Middleware T next_h r s =
     (if isSafeMethod (Method r) then next_h r s
      else case WhoIs T (RemoteAddr r) of
        Inl _ \<Rightarrow> (http_Error ''could not identify Tailscale peer'' 401, inc reasonUnidentified s)
      | Inr None \<Rightarrow> (http_Error ''could not identify Tailscale peer'' 401, inc reasonUnidentified s)
      | Inr (Some who) \<Rightarrow>
          if \<not> HasPushCap T (w_CapMap who)
          then (http_Error ''write access requires push grant'' 403, inc reasonNoGrant s)
          else next_h r s)"

definition ReadOnly :: "('r, 's) handler \<Rightarrow> ('r, 's) handler" where
  "ReadOnly next_h r s =
     (if isSafeMethod (Method r) \<and> \<not> isStateChangingPath (URLPath r) then next_h r s
      else (http_Error ReadOnlyMessage 403, inc reasonLocalWrite s))"

definition maxLogPath :: nat where "maxLogPath = 128"

definition LogPath :: "string \<Rightarrow> string" where
  "LogPath p =
     (if maxLogPath < length p then take maxLogPath p @ [CHR 0xE2, CHR 0x80, CHR 0xA6] @ ''truncated'' else p)"

definition nodeName :: "WhoIsResponse option \<Rightarrow> string" where
  "nodeName who = (case who of None \<Rightarrow> [] | Some x \<Rightarrow> (case w_Node x of None \<Rightarrow> [] | Some nm \<Rightarrow> nm))"

definition userName :: "WhoIsResponse option \<Rightarrow> string" where
  "userName who = (case who of None \<Rightarrow> [] | Some x \<Rightarrow> (case w_UserProfile x of None \<Rightarrow> [] | Some l \<Rightarrow> l))"

section \<open>The listeners of cli/serve.go\<close>

definition localHandler :: "('r, 's) handler \<Rightarrow> bool \<Rightarrow> ('r, 's) handler" where
  "localHandler next_h localWrite = (if localWrite then next_h else ReadOnly next_h)"

definition gateDebug :: "tailnet \<Rightarrow> ('r, 's) handler \<Rightarrow> ('r, 's) handler" where
  "gateDebug T next_h r s =
     (if \<not> HasPrefix (URLPath r) ''/debug'' then next_h r s
      else case WhoIs T (RemoteAddr r) of
        Inr (Some who) \<Rightarrow>
          if \<not> HasPushCap T (w_CapMap who) then (http_Error ''debug access requires push grant'' 403, s)
          else next_h r s
      | _ \<Rightarrow> (http_Error ''debug access requires push grant'' 403, s))"

definition tsnetHandler :: "tailnet \<Rightarrow> ('r, 's) handler \<Rightarrow> ('r, 's) handler" where
  "tsnetHandler T next_h = Middleware T (gateDebug T next_h)"

section \<open>What passes the gates\<close>

text \<open>A peer the tailnet identifies and grants push.\<close>

definition may_push :: "tailnet \<Rightarrow> string \<Rightarrow> bool" where
  "may_push T addr =
     (case WhoIs T addr of Inr (Some who) \<Rightarrow> HasPushCap T (w_CapMap who) | _ \<Rightarrow> False)"

definition harmless :: "'r request_scheme \<Rightarrow> bool" where
  "harmless r \<longleftrightarrow> isSafeMethod (Method r) \<and> \<not> HasPrefix (URLPath r) ''/debug''"

lemma inc_inner [simp]: "inner (inc reason s) = inner s"
  by (simp add: inc_def)

lemma tsnet_pass: "may_push T (RemoteAddr r) \<or> harmless r \<Longrightarrow> tsnetHandler T next_h r s = next_h r s"
  by (auto simp: tsnetHandler_def Middleware_def gateDebug_def may_push_def harmless_def
      split: sum.splits option.splits)

lemma tsnet_refuse:
  assumes "\<not> may_push T (RemoteAddr r)" and "\<not> harmless r"
  shows "\<exists>msg code s'. tsnetHandler T next_h r s = (http_Error msg code, s') \<and> code \<in> {401, 403} \<and>
           inner s' = inner s"
  using assms
  by (auto simp: tsnetHandler_def Middleware_def gateDebug_def may_push_def harmless_def
      split: sum.splits option.splits if_splits)

fun serve :: "('r, 's) handler \<Rightarrow> 'r request_scheme list \<Rightarrow> 's auth_state \<Rightarrow> 's auth_state" where
  "serve h [] s = s"
| "serve h (r # rs) s = serve h rs (snd (h r s))"

text \<open>
  The contract the listeners need of the handler they wrap: what a client can observe of the
  store (\<open>view\<close>) does not change when it answers a harmless request.
\<close>

locale read_only_reads =
  fixes next_h :: "('r, 's) handler" and view :: "'s \<Rightarrow> 'v"
  assumes harmless_keeps: "harmless r \<Longrightarrow> view (inner (snd (next_h r s))) = view (inner s)"
begin

lemma tsnet_keeps:
  assumes "\<not> may_push T (RemoteAddr r)"
  shows "view (inner (snd (tsnetHandler T next_h r s))) = view (inner s)"
proof (cases "harmless r")
  case True
  then show ?thesis using tsnet_pass [of T r next_h s] harmless_keeps by simp
next
  case False
  then obtain m c s' where "tsnetHandler T next_h r s = (http_Error m c, s')" "inner s' = inner s"
    using tsnet_refuse [OF assms] by blast
  then show ?thesis by simp
qed

lemma serve_tsnet_keeps:
  "list_all (\<lambda>r. \<not> may_push T (RemoteAddr r)) rs \<Longrightarrow>
   view (inner (serve (tsnetHandler T next_h) rs s)) = view (inner s)"
  by (induction rs arbitrary: s) (simp_all add: tsnet_keeps)

end

section \<open>Properties\<close>

text \<open>
  C11: the tailnet listener hands a request to the cache exactly when it may.  A peer with a push
  grant, or a safe request outside \<^verbatim>\<open>/debug\<close>, is served by the wrapped handler unchanged; every
  other request is answered with 401 or 403 without the wrapped handler running, and only the
  rejection counters may differ afterwards.
\<close>

theorem tsnet_gate_exact:
  "(if may_push T (RemoteAddr r) \<or> isSafeMethod (Method r) \<and> \<not> HasPrefix (URLPath r) ''/debug''
    then tsnetHandler T next_h r s = next_h r s
    else status (fst (tsnetHandler T next_h r s)) \<in> {401, 403} \<and>
         inner (snd (tsnetHandler T next_h r s)) = inner s \<and>
         fst (tsnetHandler T next_h r s) = fst (tsnetHandler T other r s))"
proof (cases "may_push T (RemoteAddr r) \<or> harmless r")
  case True
  then show ?thesis using tsnet_pass [of T r next_h s] by (simp add: harmless_def)
next
  case False
  then have "\<not> (may_push T (RemoteAddr r) \<or> isSafeMethod (Method r) \<and> \<not> HasPrefix (URLPath r) ''/debug'')"
    by (simp add: harmless_def)
  then show ?thesis
    by (simp add: tsnetHandler_def Middleware_def gateDebug_def may_push_def http_Error_def
        split: sum.splits option.splits if_splits)
qed

text \<open>
  A listener without identities is read-only unless the operator says otherwise.  Without
  \<^verbatim>\<open>--local-write\<close> no request with an unsafe method and no request whose cleaned path is
  \<^verbatim>\<open>/debug/gc\<close> reaches the wrapped handler, however the path is spelled; each is a 403 and is
  counted once.
\<close>

theorem local_listener_read_only:
  assumes "\<not> isSafeMethod (Method r) \<or> path_Clean (URLPath r) = ''/debug/gc''"
  shows "fst (localHandler next_h False r s) = http_Error ReadOnlyMessage 403 \<and>
    inner (snd (localHandler next_h False r s)) = inner s \<and>
    rejects (snd (localHandler next_h False r s)) reasonLocalWrite = rejects s reasonLocalWrite + 1"
  using assms by (auto simp: localHandler_def ReadOnly_def isStateChangingPath_def inc_def)

theorem local_listener_read_only_witness:
  "\<forall>(next_h :: (unit, unit) handler) s.
     fst (localHandler next_h False \<lparr>Method = ''GET'', URLPath = ''//x/../debug/./gc/'', RemoteAddr = []\<rparr> s) =
       http_Error ReadOnlyMessage 403"
proof (intro allI)
  fix next_h :: "(unit, unit) handler" and s
  have "path_Clean ''//x/../debug/./gc/'' = ''/debug/gc''"
    by (simp add: path_Clean_def clean_step_def)
  then show "fst (localHandler next_h False \<lparr>Method = ''GET'', URLPath = ''//x/../debug/./gc/'', RemoteAddr = []\<rparr> s) =
       http_Error ReadOnlyMessage 403"
    using local_listener_read_only [of "\<lparr>Method = ''GET'', URLPath = ''//x/../debug/./gc/'', RemoteAddr = []\<rparr>" next_h s]
    by simp
qed

text \<open>
  A request path cannot flood the log: what \<^verbatim>\<open>LogPath\<close> returns is at most 140 bytes and
  begins with what was asked for.
\<close>

theorem log_path_bounded:
  "length (LogPath p) \<le> maxLogPath + 12 \<and> take (min maxLogPath (length p)) (LogPath p) = take maxLogPath p"
  by (simp add: LogPath_def maxLogPath_def)

end
