(* ===== verification/Store.thy ===== *)
theory Store
  imports Narinfo
begin

text \<open>
  Package \<^verbatim>\<open>store\<close> (\<^verbatim>\<open>store/store.go\<close>, \<^verbatim>\<open>store/sqliteconfig.go\<close>): lookups in the Nix database.
  SQLite is a third-party package and a parameter: record \<open>nix_db\<close> has one function per statement
  the code prepares, and \<open>sqlite_ok\<close> says that they answer the two queries over the tables
  \<^verbatim>\<open>ValidPaths\<close> and \<^verbatim>\<open>Refs\<close>.  The lemmas show that the half-open range of the main query is exactly
  the set of paths with the requested hash part, and what a lookup returns.
\<close>

section \<open>The database\<close>

record vp_row =
  vp_id :: int
  vp_path :: string
  vp_hash :: string
  vp_narSize :: "int option"
  vp_deriver :: "string option"
  vp_sigs :: "string option"
  vp_ca :: "string option"

record sql_error =
  sq_code :: "nat option"
  sq_msg :: string

record nix_db =
  q_main :: "string \<Rightarrow> string \<Rightarrow> sql_error + vp_row list"
  q_refs :: "int \<Rightarrow> sql_error + string list"
  q_count :: "sql_error + int"

text \<open>\<^verbatim>\<open>queryMain\<close> and \<^verbatim>\<open>queryRefs\<close> over the contents of the two tables; paths compare as bytes.\<close>

definition queryMain :: "vp_row list \<Rightarrow> string \<Rightarrow> string \<Rightarrow> vp_row list" where
  "queryMain vps lo hi = filter (\<lambda>r. lo \<le> vp_path r \<and> vp_path r < hi) vps"

definition queryRefs :: "vp_row list \<Rightarrow> (int \<times> int) list \<Rightarrow> int \<Rightarrow> string list" where
  "queryRefs vps rs i =
     concat (map (\<lambda>(referrer, reference).
       if referrer = i then map vp_path (filter (\<lambda>vp. vp_id vp = reference) vps) else []) rs)"

definition sqlite_ok :: "nix_db \<Rightarrow> vp_row list \<Rightarrow> (int \<times> int) list \<Rightarrow> bool" where
  "sqlite_ok db vps rs \<longleftrightarrow>
     (\<forall>lo hi. q_main db lo hi = Inr (queryMain vps lo hi)) \<and> (\<forall>i. q_refs db i = Inr (queryRefs vps rs i)) \<and>
     q_count db = Inr (int (length vps))"

section \<open>Connection strings\<close>

definition escapeDSNChar :: "char \<Rightarrow> string" where
  "escapeDSNChar c =
     (if c = CHR ''%'' then ''%25'' else if c = CHR ''?'' then ''%3F'' else if c = CHR ''#'' then ''%23'' else [c])"

definition escapeDSNPath :: "string \<Rightarrow> string" where
  "escapeDSNPath p = concat (map escapeDSNChar p)"

definition ReadOnlyDSN :: "string \<Rightarrow> string" where
  "ReadOnlyDSN path = ''file:'' @ escapeDSNPath path @ ''?mode=ro'' @ ''&_pragma=busy_timeout=5000''"

section \<open>The store\<close>

datatype store_error =
    ErrNotFound | errOpen sql_error | errPing sql_error bool | errPrepare string sql_error bool
  | errQuery sql_error | errDecodeHash codec_error | errQueryRefs sql_error | errCount sql_error

record Store =
  s_db :: nix_db
  s_storeDir :: string
  warnedUnservable :: "string set"

record PathInfo =
  pi_StorePath :: string
  pi_NarHash :: string
  pi_NarSize :: int
  pi_References :: "string list"
  pi_Deriver :: string
  pi_Sigs :: "string list"
  pi_CA :: string

definition maxConns :: nat where
  "maxConns = 8"

text \<open>
  Whether an error belongs to the \<^verbatim>\<open>SQLITE_READONLY\<close> family (result code 8 in the low byte) and is
  therefore annotated.
\<close>

definition explainReadOnly :: "sql_error \<Rightarrow> bool" where
  "explainReadOnly e = (case sq_code e of None \<Rightarrow> False | Some c \<Rightarrow> c mod 256 = 8)"

text \<open>
  \<^verbatim>\<open>Open\<close>.  The results of opening the connection string, of the ping and of preparing the two
  statements are parameters; the value is the store with the number of pooled connections.
\<close>

definition Open ::
  "(string \<Rightarrow> sql_error + nix_db) \<Rightarrow> (nix_db \<Rightarrow> sql_error option) \<Rightarrow> (nix_db \<Rightarrow> string \<Rightarrow> sql_error option) \<Rightarrow>
   nat \<Rightarrow> string \<Rightarrow> string \<Rightarrow> store_error + (Store \<times> nat)" where
  "Open sql_Open ping prepare gomaxprocs dbPath storeDir =
     (let dir = TrimSuffix storeDir ''/'' in
      case sql_Open (ReadOnlyDSN dbPath) of
        Inl e \<Rightarrow> Inl (errOpen e)
      | Inr db \<Rightarrow>
          let conns = min (max 4 gomaxprocs) maxConns in
          case ping db of
            Some e \<Rightarrow> Inl (errPing e (explainReadOnly e))
          | None \<Rightarrow>
            (case prepare db ''main'' of
               Some e \<Rightarrow> Inl (errPrepare ''main'' e (explainReadOnly e))
             | None \<Rightarrow>
               (case prepare db ''refs'' of
                  Some e \<Rightarrow> Inl (errPrepare ''refs'' e (explainReadOnly e))
                | None \<Rightarrow> Inr (\<lparr>s_db = db, s_storeDir = dir, warnedUnservable = {}\<rparr>, conns))))"

definition PathCount :: "Store \<Rightarrow> store_error + int" where
  "PathCount s = (case q_count (s_db s) of Inl e \<Rightarrow> Inl (errCount e) | Inr k \<Rightarrow> Inr k)"

text \<open>
  \<^verbatim>\<open>PathInfo\<close>.  The result comes with the store after the call and the paths warned about; a
  \<^verbatim>\<open>NULL\<close> column is \<^const>\<open>None\<close> and reads as the empty string.
\<close>

definition null_string :: "string option \<Rightarrow> string" where
  "null_string v = (case v of None \<Rightarrow> [] | Some s \<Rightarrow> s)"

definition Store_PathInfo :: "Store \<Rightarrow> string \<Rightarrow> (store_error + PathInfo) \<times> Store \<times> string list" where
  "Store_PathInfo s hashPart =
     (if \<not> ValidHashPart hashPart then (Inl ErrNotFound, s, [])
      else let lo = s_storeDir s @ ''/'' @ hashPart @ ''-''; hi = s_storeDir s @ ''/'' @ hashPart @ ''.'' in
      case q_main (s_db s) lo hi of
        Inl e \<Rightarrow> (Inl (errQuery e), s, [])
      | Inr [] \<Rightarrow> (Inl ErrNotFound, s, [])
      | Inr (r # _) \<Rightarrow>
          if vp_narSize r = None \<or> the (vp_narSize r) \<le> 0 then
            (if vp_path r \<in> warnedUnservable s then (Inl ErrNotFound, s, [])
             else (Inl ErrNotFound, s\<lparr>warnedUnservable := insert (vp_path r) (warnedUnservable s)\<rparr>, [vp_path r]))
          else case hex_DecodeString (TrimPrefix (vp_hash r) ''sha256:'') of
            Inl e \<Rightarrow> (Inl (errDecodeHash e), s, [])
          | Inr hashBytes \<Rightarrow>
            (case q_refs (s_db s) (vp_id r) of
               Inl e \<Rightarrow> (Inl (errQueryRefs e), s, [])
             | Inr refs \<Rightarrow>
                 (Inr \<lparr>pi_StorePath = vp_path r, pi_NarHash = ''sha256:'' @ EncodeToString hashBytes,
                       pi_NarSize = the (vp_narSize r), pi_References = sort refs,
                       pi_Deriver = null_string (vp_deriver r),
                       pi_Sigs = (if null_string (vp_sigs r) = [] then [] else strings_Fields (null_string (vp_sigs r))),
                       pi_CA = null_string (vp_ca r)\<rparr>, s, [])))"

section \<open>The range of the main query\<close>

text \<open>\<^verbatim>\<open>.\<close> is the successor of \<^verbatim>\<open>-\<close>, so the interval is the set of extensions of its lower bound.\<close>

lemma list_less_append_cancel: "(p @ x < p @ y) = (x < (y :: string))" "(p @ x \<le> p @ y) = (x \<le> y)"
  by (induction p) auto

lemma between_dash_dot: "[CHR ''-''] \<le> x \<and> x < [CHR ''.''] \<longleftrightarrow> (\<exists>t. x = CHR ''-'' # t)"
proof (cases x)
  case (Cons c t)
  have "c = CHR ''-''" if "CHR ''-'' \<le> c" "c < CHR ''.''"
  proof -
    have "(of_char c :: nat) = of_char CHR ''-''" using that by (simp add: less_eq_char_def less_char_def)
    then show ?thesis by (simp only: of_char_eq_iff)
  qed
  moreover have "CHR ''-'' < CHR ''.''" by (simp add: less_char_def)
  ultimately show ?thesis using Cons by (auto simp: Cons_less_Cons Cons_le_Cons less_imp_le)
qed simp

lemma less_eq_append_cases:
  fixes p :: string
  assumes "p @ [a] \<le> x" and "x < p @ [b]"
  shows "HasPrefix x p"
  using assms
proof (induction p arbitrary: x)
  case (Cons c p)
  then obtain d t where x: "x = d # t" by (cases x) auto
  with Cons.prems have "c = d" "p @ [a] \<le> t" "t < p @ [b]" by auto
  with Cons.IH [of t] x show ?case by (simp add: HasPrefix_def)
qed (simp add: HasPrefix_def)

lemma range_is_prefix:
  "p @ ''-'' \<le> x \<and> x < p @ ''.'' \<longleftrightarrow> HasPrefix x (p @ ''-'')"
proof
  assume *: "p @ ''-'' \<le> x \<and> x < p @ ''.''"
  then obtain t where t: "x = p @ t" using less_eq_append_cases [of p "CHR ''-''" x "CHR ''.''"]
    unfolding HasPrefix_iff by blast
  with * have "[CHR ''-''] \<le> t \<and> t < [CHR ''.'']" by (simp add: list_less_append_cancel)
  then show "HasPrefix x (p @ ''-'')" unfolding between_dash_dot by (auto simp: t HasPrefix_iff)
next
  assume "HasPrefix x (p @ ''-'')"
  then obtain t where "x = p @ CHR ''-'' # t" by (auto simp: HasPrefix_iff)
  then show "p @ ''-'' \<le> x \<and> x < p @ ''.''"
    using between_dash_dot [of "CHR ''-'' # t"] by (simp add: list_less_append_cancel)
qed

lemma queryMain_prefix:
  "queryMain vps (p @ ''-'') (p @ ''.'') = filter (\<lambda>r. HasPrefix (vp_path r) (p @ ''-'')) vps"
  by (simp only: queryMain_def range_is_prefix)


section \<open>Lookups\<close>

text \<open>The paths a row refers to, by the join over the two tables.\<close>

lemma set_queryRefs:
  "set (queryRefs vps rs i) = {vp_path vp | vp j. vp \<in> set vps \<and> (i, j) \<in> set rs \<and> vp_id vp = j}"
  by (fastforce simp: queryRefs_def)

definition hash_prefix :: "Store \<Rightarrow> string \<Rightarrow> string" where
  "hash_prefix s hashPart = s_storeDir s @ ''/'' @ hashPart @ ''-''"

lemma lookup_rows:
  assumes "sqlite_ok (s_db s) vps rs"
  shows "q_main (s_db s) (s_storeDir s @ ''/'' @ hp @ ''-'') (s_storeDir s @ ''/'' @ hp @ ''.'') =
    Inr (filter (\<lambda>r. HasPrefix (vp_path r) (hash_prefix s hp)) vps)"
  using assms queryMain_prefix [of vps "s_storeDir s @ ''/'' @ hp"] by (simp add: sqlite_ok_def hash_prefix_def)

lemma Store_PathInfo_Inr:
  assumes "sqlite_ok (s_db s) vps rs" and "Store_PathInfo s hp = (Inr info, s', warned)"
  obtains r k b where "r \<in> set vps" and "HasPrefix (vp_path r) (hash_prefix s hp)" and "vp_narSize r = Some k" and "0 < k"
    and "hex_DecodeString (TrimPrefix (vp_hash r) ''sha256:'') = Inr b"
    and "pi_StorePath info = vp_path r" and "pi_NarHash info = ''sha256:'' @ EncodeToString b" and "pi_NarSize info = k"
    and "pi_References info = sort (queryRefs vps rs (vp_id r))" and "s' = s" and "warned = []" and "ValidHashPart hp"
proof -
  have refs: "q_refs (s_db s) i = Inr (queryRefs vps rs i)" for i using assms(1) by (simp add: sqlite_ok_def)
  from assms(2) obtain r rest where rows: "filter (\<lambda>r. HasPrefix (vp_path r) (hash_prefix s hp)) vps = r # rest"
    and hp: "ValidHashPart hp"
    unfolding Store_PathInfo_def lookup_rows [OF assms(1)] Let_def by (auto split: list.splits if_splits)
  then have r: "r \<in> set vps" "HasPrefix (vp_path r) (hash_prefix s hp)"
    using filter_eq_ConsD [OF rows] by auto
  from assms(2) show thesis
    unfolding Store_PathInfo_def lookup_rows [OF assms(1)] Let_def rows refs
    by (auto split: if_splits sum.splits intro!: that [OF r] simp: hp)
qed

text \<open>The escaped path, read back by the URI rules for percent escapes.\<close>

fun uri_unescape :: "string \<Rightarrow> string" where
  "uri_unescape [] = []"
| "uri_unescape (c # a # b # t) =
     (if c = CHR ''%'' then
        (case (hex_val a, hex_val b) of
           (Some x, Some y) \<Rightarrow> char_of (x * 16 + y) # uri_unescape t
         | _ \<Rightarrow> c # uri_unescape (a # b # t))
      else c # uri_unescape (a # b # t))"
| "uri_unescape (c # t) = c # uri_unescape t"

lemma uri_unescape_plain: "c \<noteq> CHR ''%'' \<Longrightarrow> uri_unescape (c # t) = c # uri_unescape t"
  by (cases t rule: list.exhaust; cases "tl t" rule: list.exhaust) auto

lemma escape_chars: "char_of (37 :: nat) = CHR ''%''" "char_of (63 :: nat) = CHR ''?''" "char_of (35 :: nat) = CHR ''#''"
  using char_of_char [of "CHR ''%''", where 'a = nat] char_of_char [of "CHR ''?''", where 'a = nat]
    char_of_char [of "CHR ''#''", where 'a = nat] by (simp_all del: char_of_char)

lemma uri_unescape_escape: "uri_unescape (escapeDSNPath p @ t) = p @ uri_unescape t"
proof (induction p)
  case (Cons c p)
  have esc: "escapeDSNPath (c # p) @ t = escapeDSNChar c @ escapeDSNPath p @ t" by (simp add: escapeDSNPath_def)
  show ?case
  proof (cases "c \<in> {CHR ''%'', CHR ''?'', CHR ''#''}")
    case True
    then show ?thesis unfolding esc using Cons by (auto simp: escapeDSNChar_def hex_val_def escape_chars)
  next
    case False
    then have "escapeDSNChar c = [c]" by (simp add: escapeDSNChar_def)
    then show ?thesis unfolding esc using Cons False by (simp add: uri_unescape_plain)
  qed
qed (simp add: escapeDSNPath_def)

lemma escapeDSNPath_clean: "CHR ''?'' \<notin> set (escapeDSNPath p) \<and> CHR ''#'' \<notin> set (escapeDSNPath p)"
  by (induction p) (auto simp: escapeDSNPath_def escapeDSNChar_def)

section \<open>A concrete database\<close>

definition table_db :: "vp_row list \<Rightarrow> (int \<times> int) list \<Rightarrow> nix_db" where
  "table_db vps rs =
     \<lparr>q_main = (\<lambda>lo hi. Inr (queryMain vps lo hi)), q_refs = (\<lambda>i. Inr (queryRefs vps rs i)),
      q_count = Inr (int (length vps))\<rparr>"

lemma table_db_ok: "sqlite_ok (table_db vps rs) vps rs"
  by (simp add: sqlite_ok_def table_db_def)

definition example_row :: vp_row where
  "example_row =
     \<lparr>vp_id = 1, vp_path = ''/nix/store/'' @ example_base ''a'', vp_hash = ''sha256:'' @ hex_EncodeToString (replicate 32 0),
      vp_narSize = Some 120, vp_deriver = None, vp_sigs = Some ''k:AAAA'', vp_ca = None\<rparr>"

definition example_store :: Store where
  "example_store = \<lparr>s_db = table_db [example_row] [(1, 1)], s_storeDir = ''/nix/store'', warnedUnservable = {}\<rparr>"

definition example_hash :: string where
  "example_hash = replicate 32 CHR ''0''"

lemma example_hash_valid: "ValidHashPart example_hash"
  by (simp add: example_hash_def ValidHashPart_def HashPartLen_def list_all_iff decTable_valid alphabet_def)

lemma example_lookup:
  "sqlite_ok (s_db example_store) [example_row] [(1, 1)]"
  "filter (\<lambda>q. HasPrefix (vp_path q) (s_storeDir example_store @ ''/'' @ example_hash @ ''-'')) [example_row] = [example_row]"
  "vp_narSize example_row = Some 120"
  "hex_DecodeString (TrimPrefix (vp_hash example_row) ''sha256:'') = Inr (replicate 32 0)"
proof -
  show "sqlite_ok (s_db example_store) [example_row] [(1, 1)]" by (simp add: example_store_def table_db_ok)
  show "vp_narSize example_row = Some 120" by (simp add: example_row_def)
  show "hex_DecodeString (TrimPrefix (vp_hash example_row) ''sha256:'') = Inr (replicate 32 0)"
    unfolding example_row_def vp_row.simps TrimPrefix_append by (rule hex_Decode_Encode)
  have "vp_path example_row = (s_storeDir example_store @ ''/'' @ example_hash @ ''-'') @ ''a''"
    by (simp add: example_row_def example_store_def example_base_def example_hash_def)
  then show "filter (\<lambda>q. HasPrefix (vp_path q) (s_storeDir example_store @ ''/'' @ example_hash @ ''-'')) [example_row] = [example_row]"
    by (simp only: filter.simps HasPrefix_append if_True)
qed

lemma example_lookup_info:
  "\<exists>info. Store_PathInfo example_store example_hash = (Inr info, example_store, [])"
proof -
  have "q_refs (s_db example_store) i = Inr (queryRefs [example_row] [(1, 1)] i)" for i
    using example_lookup(1) by (simp add: sqlite_ok_def)
  then show ?thesis
    unfolding Store_PathInfo_def lookup_rows [OF example_lookup(1)] Let_def hash_prefix_def example_lookup(2)
    using example_hash_valid example_lookup(3,4) by simp
qed

section \<open>Properties\<close>

text \<open>
  C12: a lookup returns the path that was asked for.  When the database answers its queries,
  \<^verbatim>\<open>PathInfo\<close> only ever returns a row of \<^verbatim>\<open>ValidPaths\<close> whose path lies in the store under the
  requested hash part, with a positive size, with the canonical spelling of its hash when that is a
  SHA-256 digest, and with exactly the paths its references name, sorted.
\<close>

theorem path_info_sound:
  assumes "sqlite_ok (s_db s) vps rs" and "fst (Store_PathInfo s hashPart) = Inr info"
  shows "\<exists>r \<in> set vps. pi_StorePath info = vp_path r \<and>
    (\<exists>nm. vp_path r = s_storeDir s @ ''/'' @ hashPart @ ''-'' @ nm) \<and> ValidHashPart hashPart \<and>
    0 < pi_NarSize info \<and> vp_narSize r = Some (pi_NarSize info) \<and>
    (length (TrimPrefix (vp_hash r) ''sha256:'') = 64 \<longrightarrow> canonical (pi_NarHash info)) \<and>
    sorted (pi_References info) \<and>
    set (pi_References info) = {vp_path q | q. q \<in> set vps \<and> (vp_id r, vp_id q) \<in> set rs}"
proof -
  obtain s' wn where eq: "Store_PathInfo s hashPart = (Inr info, s', wn)" using assms(2) by (metis prod.collapse)
  obtain r k b where r: "r \<in> set vps" "HasPrefix (vp_path r) (hash_prefix s hashPart)" "vp_narSize r = Some k" "0 < k"
      "hex_DecodeString (TrimPrefix (vp_hash r) ''sha256:'') = Inr b" "pi_StorePath info = vp_path r"
      "pi_NarHash info = ''sha256:'' @ EncodeToString b" "pi_NarSize info = k"
      "pi_References info = sort (queryRefs vps rs (vp_id r))" "ValidHashPart hashPart"
    using assms(1) eq by (rule Store_PathInfo_Inr) blast
  have "canonical (pi_NarHash info)" if "length (TrimPrefix (vp_hash r) ''sha256:'') = 64"
  proof -
    have "length b = 32" using hex_Decode_length [OF r(5)] that by simp
    then have "hashSizes ''sha256'' = Some (length b)" by (simp add: hashSizes_def)
    then show ?thesis
      using CanonicalHash_colon [of "''sha256''" "length b" "EncodeToString b"] decodeDigest_encodings(2) [of "''sha256''" b]
      by (simp add: r(7) canonical_def)
  qed
  moreover have "\<exists>nm. vp_path r = s_storeDir s @ ''/'' @ hashPart @ ''-'' @ nm"
    using r(2) by (auto simp: HasPrefix_iff hash_prefix_def)
  ultimately show ?thesis
    using r by (intro bexI [of _ r]) (auto simp: set_queryRefs)
qed

theorem path_info_sound_witness:
  "\<exists>info. fst (Store_PathInfo example_store example_hash) = Inr info \<and> sorted (pi_References info) \<and>
     pi_StorePath info = vp_path example_row"
proof -
  obtain info where info: "fst (Store_PathInfo example_store example_hash) = Inr info"
    using example_lookup_info by fastforce
  from path_info_sound [OF example_lookup(1) info] info show ?thesis by auto
qed

text \<open>
  A lookup finds what the store holds.  A row of \<^verbatim>\<open>ValidPaths\<close> with a positive size and a
  hexadecimal hash is returned for its hash part whenever it is the only one with that hash part,
  and looking it up changes nothing and logs nothing.
\<close>

theorem path_info_complete:
  assumes "sqlite_ok (s_db s) vps rs" and "ValidHashPart hashPart"
    and "filter (\<lambda>q. HasPrefix (vp_path q) (s_storeDir s @ ''/'' @ hashPart @ ''-'')) vps = [r]"
    and "vp_narSize r = Some k" and "0 < k" and "hex_DecodeString (TrimPrefix (vp_hash r) ''sha256:'') = Inr b"
  shows "\<exists>info. Store_PathInfo s hashPart = (Inr info, s, []) \<and> pi_StorePath info = vp_path r \<and> pi_NarSize info = k"
proof -
  have refs: "q_refs (s_db s) i = Inr (queryRefs vps rs i)" for i using assms(1) by (simp add: sqlite_ok_def)
  show ?thesis
    unfolding Store_PathInfo_def lookup_rows [OF assms(1)] Let_def refs
    using assms(2-) by (simp add: hash_prefix_def)
qed

theorem path_info_complete_witness:
  "\<exists>info. Store_PathInfo example_store example_hash = (Inr info, example_store, []) \<and> pi_NarSize info = 120"
  using path_info_complete [OF example_lookup(1) example_hash_valid example_lookup(2,3) _ example_lookup(4)] by auto

text \<open>
  No database path can turn the read-only connection string into another one.  SQLite splits
  the string at its first \<^verbatim>\<open>?\<close> or \<^verbatim>\<open>#\<close>: what precedes it is the escaped path, which unescapes to the
  given one, and what follows is the fixed query that asks for \<^verbatim>\<open>mode=ro\<close>.
\<close>

theorem dsn_read_only:
  "Cut (ReadOnlyDSN p) ''?'' = (''file:'' @ escapeDSNPath p, ''mode=ro&_pragma=busy_timeout=5000'', True) \<and>
   CHR ''#'' \<notin> set (ReadOnlyDSN p) \<and> uri_unescape (escapeDSNPath p) = p"
proof -
  have "CHR ''?'' \<notin> set (''file:'' @ escapeDSNPath p)" using escapeDSNPath_clean by simp
  from Cut_char_append [OF this, of "''mode=ro&_pragma=busy_timeout=5000''"]
  show ?thesis
    using escapeDSNPath_clean [of p] uri_unescape_escape [of p "[]"] by (simp add: ReadOnlyDSN_def)
qed

end
