(* ===== verification/Nixcompress.thy ===== *)
theory Nixcompress
  imports Prelude
begin

text \<open>
  Package \<^verbatim>\<open>nixcompress\<close> (\<^verbatim>\<open>nixcompress/nixcompress.go\<close>): which codecs the server handles and which
  external binaries they need.  The codecs themselves are other packages and programs.
\<close>

definition compressionNone :: string where "compressionNone = ''none''"
definition compressionXz :: string where "compressionXz = ''xz''"
definition compressionZstd :: string where "compressionZstd = ''zstd''"
definition compressionBzip2 :: string where "compressionBzip2 = ''bzip2''"

definition Supported :: "string \<Rightarrow> bool" where
  "Supported c \<longleftrightarrow> c \<in> {compressionNone, compressionXz, compressionZstd, compressionBzip2}"

record Requirement =
  Binary :: string
  Codec :: string
  Decode :: bool
  Encode :: bool
  Optional :: bool
  Present :: bool

definition requirement_table :: "bool \<Rightarrow> Requirement list" where
  "requirement_table useExternal =
     [\<lparr>Binary = ''xz'', Codec = compressionXz, Decode = True, Encode = useExternal, Optional = False, Present = False\<rparr>,
      \<lparr>Binary = ''bzip2'', Codec = compressionBzip2, Decode = False, Encode = True, Optional = False, Present = False\<rparr>] @
     (if useExternal
      then [\<lparr>Binary = ''zstd'', Codec = compressionZstd, Decode = True, Encode = True, Optional = True, Present = False\<rparr>]
      else [])"

text \<open>\<open>inPath\<close> is what \<^verbatim>\<open>exec.LookPath\<close> says of a binary.\<close>

definition Requirements :: "(string \<Rightarrow> bool) \<Rightarrow> bool \<Rightarrow> Requirement list" where
  "Requirements inPath useExternal =
     map (\<lambda>r. r\<lparr>Present := inPath (Binary r)\<rparr>) (requirement_table useExternal)"

end
