(* ===== verification/Cache.thy ===== *)
theory Cache
  imports Auth Store Nar Signing Nixcompress
begin

text \<open>
  Package \<^verbatim>\<open>cache\<close> (\<^verbatim>\<open>cache/cache.go\<close>): the binary-cache HTTP server.  The fields of \<^verbatim>\<open>Server\<close> that
  are set once are the record \<open>server\<close>; what the handlers change (the store's warning set, the
  spool directory, the Nix store, import slots in use, metrics) is \<open>cache_state\<close>.  A request
  carries the behaviour of the outside world while it is handled (\<open>env\<close>): the file system, the
  client's connection, the clock, the result of every fallible system call, the importer and the
  compressed-NAR cache.  Each handler is one function, with every early return of the source.
  A handler runs to completion before the next: interleavings inside handlers are not modelled
  here.
\<close>

section \<open>State and environment\<close>

record spool_file =
  sf_data :: string
  sf_mtime :: int
  sf_isDir :: bool

type_synonym spool_dir = "string \<rightharpoonup> spool_file"

datatype zstd_err = errZstdBusy | errZstdFull | errZstdOther string

datatype slot_outcome = SlotGot | SlotTimeout | SlotGone

record healthResponse =
  h_Status :: string
  h_StoreReachable :: bool
  h_UptimeSeconds :: int
  h_DiskAvailableBytes :: uint64
  h_SpoolAvailableBytes :: uint64
  h_StorePathsTotal :: int

record 'n env =
  e_now :: int
  e_fs :: fsys
  e_sink :: sink
  e_caseHack :: bool
  e_partial :: nat
  e_zstd :: "PathInfo \<Rightarrow> zstd_err + (string \<times> uint64 \<times> string)"
  e_copyZstd :: bool
  e_import :: "NarInfo \<Rightarrow> spool_dir \<times> 'n \<Rightarrow> string option \<times> spool_dir \<times> 'n"
  e_slot :: slot_outcome
  e_mkdir :: "string option"
  e_createTemp :: "string + string"
  e_close :: "string option"
  e_rename :: "string option"
  e_removeTemp :: bool
  e_deadline :: bool
  e_readSpool :: "bool + string list"
  e_infoFails :: "string \<Rightarrow> bool"
  e_removeFails :: "string \<Rightarrow> bool"
  e_metricsPage :: response
  e_debugPage :: response
  e_json :: "healthResponse \<Rightarrow> string"
  e_avail :: "string \<Rightarrow> uint64"

record 'n http_request = request +
  r_ContentLength :: int
  r_body :: reader
  r_queryHash :: string
  r_env :: "'n env"

record metrics =
  narInfoHits :: "string \<Rightarrow> nat"
  narInfoMisses :: "string \<Rightarrow> nat"
  narBytesServed :: nat
  narBytesReceived :: nat
  pushNAR :: nat
  pushNarInfo :: nat
  pushErrors :: "string \<Rightarrow> nat"
  importSuccess :: nat
  importFail :: nat
  importDuration :: nat

record 'n cache_state =
  c_store :: Store
  spool :: spool_dir
  nixstore :: 'n
  slots :: nat
  metr :: metrics

record server =
  sv_priority :: int
  sv_spoolDir :: string
  sv_serveCompression :: string
  sv_signer :: "(string \<Rightarrow> string) option"
  sv_importFn :: bool
  sv_maxNarSize :: uint64
  sv_storeDir :: string
  sv_storeDirLogical :: string
  sv_storeRoot :: string
  sv_importSem :: "nat option"
  sv_zstdSlots :: nat
  sv_startTime :: int
  sv_Version :: string

type_synonym 'n step = "'n http_request \<Rightarrow> 'n cache_state \<Rightarrow> response \<times> 'n cache_state"

definition maxNarInfoBytes :: nat where "maxNarInfoBytes = 2 ^ 20"
definition maxNarBytes :: nat where "maxNarBytes = 16 * 2 ^ 30"
definition importWaitSeconds :: nat where "importWaitSeconds = 30"
definition ZstdCacheSubdir :: string where "ZstdCacheSubdir = ''zstd-cache''"

section \<open>Responses and counters\<close>

definition ok_response :: "(string \<times> string) list \<Rightarrow> string \<Rightarrow> response" where
  "ok_response hs b = \<lparr>status = 200, headers = hs, rbody = b, aborted = False\<rparr>"

definition http_NotFound :: response where
  "http_NotFound = http_Error ''404 page not found'' 404"

definition internal_error :: response where
  "internal_error = http_Error ''internal error'' 500"

definition add_header :: "string \<Rightarrow> string \<Rightarrow> response \<Rightarrow> response" where
  "add_header k v r = r\<lparr>headers := (k, v) # headers r\<rparr>"

definition count_label :: "string \<Rightarrow> (string \<Rightarrow> nat) \<Rightarrow> string \<Rightarrow> nat" where
  "count_label l f = f(l := f l + 1)"

definition push_error :: "string \<Rightarrow> 'n cache_state \<Rightarrow> 'n cache_state" where
  "push_error reason s = s\<lparr>metr := (metr s)\<lparr>pushErrors := count_label reason (pushErrors (metr s))\<rparr>\<rparr>"

definition format_int :: "int \<Rightarrow> string" where
  "format_int i = (if i < 0 then CHR ''-'' # format_nat (nat (- i)) else format_nat (nat i))"

text \<open>\<^verbatim>\<open>http.MaxBytesReader\<close> read to the end: what arrives, and how it ends.\<close>

datatype body_end = BodyDone | BodyTooLarge nat | BodyFailed string

definition read_limited :: "nat \<Rightarrow> reader \<Rightarrow> string \<times> body_end" where
  "read_limited limit r =
     (if limit < length (fst r) then (take limit (fst r), BodyTooLarge limit)
      else (fst r, case snd r of EOF \<Rightarrow> BodyDone | ReadErr e \<Rightarrow> BodyFailed e))"

definition writeBodyError :: "body_end \<Rightarrow> response" where
  "writeBodyError e =
     (case e of BodyTooLarge _ \<Rightarrow> http_Error ''request body too large'' 413 | _ \<Rightarrow> internal_error)"

section \<open>Reading\<close>

definition handleNixCacheInfo :: "server \<Rightarrow> 'n step" where
  "handleNixCacheInfo srv r s =
     (ok_response [(''Content-Type'', ''text/plain'')]
        (''StoreDir: '' @ sv_storeDirLogical srv @ [LF] @ ''WantMassQuery: 1'' @ [LF] @
         ''Priority: '' @ format_int (sv_priority srv) @ [LF]), s)"

definition narInfoHash :: "string \<Rightarrow> string option" where
  "narInfoHash path =
     (case CutSuffix (TrimPrefix path ''/'') ''.narinfo'' of
        (hash, ok) \<Rightarrow> if \<not> ok \<or> hash = [] then None else Some hash)"

definition narSize :: "int \<Rightarrow> uint64" where
  "narSize i = (if i < 0 then 0 else word_of_int i)"

definition buildNarInfo :: "server \<Rightarrow> 'n env \<Rightarrow> string \<Rightarrow> bool \<Rightarrow> Store \<Rightarrow> (store_error + NarInfo) \<times> Store" where
  "buildNarInfo srv e hashPart compress st =
     (case Store_PathInfo st hashPart of
        (Inl err, st', _) \<Rightarrow> (Inl err, st')
      | (Inr pi, st', _) \<Rightarrow>
          let plain = (''nar/'' @ hashPart @ ''.nar'', ''none'', pi_NarHash pi, narSize (pi_NarSize pi));
              (url, compr, fileHash, fileSize) =
                (if compress \<and> sv_serveCompression srv = ''zstd''
                 then (case e_zstd e pi of
                         Inl _ \<Rightarrow> plain
                       | Inr (compHash, compSize, _) \<Rightarrow>
                           (''nar/'' @ hashPart @ ''.nar.zstd'', ''zstd'', ''sha256:'' @ compHash, compSize))
                 else plain);
              ni = \<lparr>StorePath = pi_StorePath pi, URL = url, Compression = compr, FileHash = fileHash,
                    FileSize = fileSize, NarHash = pi_NarHash pi, NarSize = narSize (pi_NarSize pi),
                    References = pi_References pi, Deriver = pi_Deriver pi, Sigs = pi_Sigs pi, CA = pi_CA pi\<rparr>
          in (Inr (case sv_signer srv of
                     None \<Rightarrow> ni
                   | Some sign \<Rightarrow> ni\<lparr>Sigs := Sigs ni @ [sign (Fingerprint ni)]\<rparr>), st'))"

definition handleGetNarInfo :: "server \<Rightarrow> 'n step" where
  "handleGetNarInfo srv r s =
     (case narInfoHash (URLPath r) of
        None \<Rightarrow> (http_NotFound, s)
      | Some hash \<Rightarrow>
        (case buildNarInfo srv (r_env r) hash True (c_store s) of
           (Inl err, st) \<Rightarrow>
             if err = ErrNotFound
             then (http_NotFound, s\<lparr>c_store := st, metr := (metr s)\<lparr>narInfoMisses := count_label ''get'' (narInfoMisses (metr s))\<rparr>\<rparr>)
             else (internal_error, s\<lparr>c_store := st\<rparr>)
         | (Inr ni, st) \<Rightarrow>
             (ok_response [(''Content-Type'', ''text/x-nix-narinfo'')] (Marshal ni),
              s\<lparr>c_store := st, metr := (metr s)\<lparr>narInfoHits := count_label ''get'' (narInfoHits (metr s))\<rparr>\<rparr>)))"

definition handleHeadNarInfo :: "server \<Rightarrow> 'n step" where
  "handleHeadNarInfo srv r s =
     (case narInfoHash (URLPath r) of
        None \<Rightarrow> (http_NotFound, s)
      | Some hash \<Rightarrow>
        (case buildNarInfo srv (r_env r) hash False (c_store s) of
           (Inl err, st) \<Rightarrow>
             if err = ErrNotFound
             then (http_NotFound, s\<lparr>c_store := st, metr := (metr s)\<lparr>narInfoMisses := count_label ''head'' (narInfoMisses (metr s))\<rparr>\<rparr>)
             else (internal_error, s\<lparr>c_store := st\<rparr>)
         | (Inr ni, st) \<Rightarrow>
             (ok_response
                ((''Content-Type'', ''text/x-nix-narinfo'') #
                 (if sv_serveCompression srv \<noteq> ''zstd'' then [(''Content-Length'', format_nat (length (Marshal ni)))] else []))
                [],
              s\<lparr>c_store := st, metr := (metr s)\<lparr>narInfoHits := count_label ''head'' (narInfoHits (metr s))\<rparr>\<rparr>)))"

definition abortNar :: "(string \<times> string) list \<Rightarrow> response" where
  "abortNar hs = \<lparr>status = 200, headers = hs, rbody = [], aborted = True\<rparr>"

definition serveZstdNar :: "server \<Rightarrow> 'n env \<Rightarrow> PathInfo \<Rightarrow> (string \<times> string) list \<Rightarrow> 'n cache_state \<Rightarrow> response \<times> 'n cache_state" where
  "serveZstdNar srv e pi hs s =
     (case e_zstd e pi of
        Inl err \<Rightarrow>
          if err = errZstdBusy \<or> err = errZstdFull
          then (add_header ''Retry-After'' ''10'' (http_Error ''server busy'' 503), s)
          else (internal_error, s)
      | Inr (_, sz, dat) \<Rightarrow>
          let hs' = hs @ [(''Content-Length'', FormatUint sz)] in
          if e_copyZstd e
          then (ok_response hs' dat, s\<lparr>metr := (metr s)\<lparr>narBytesServed := narBytesServed (metr s) + length dat\<rparr>\<rparr>)
          else (abortNar hs', s\<lparr>metr := (metr s)\<lparr>narBytesServed := narBytesServed (metr s) + e_partial e\<rparr>\<rparr>))"

definition serveNar :: "server \<Rightarrow> bool \<Rightarrow> 'n step" where
  "serveNar srv headOnly r s =
     (let name = TrimPrefix (URLPath r) ''/nar/'';
          hashPart = fst (Cut name ''.'');
          isZstd = HasSuffix name ''.zstd''
      in if hashPart = [] then (http_Error ''invalid NAR name'' 400, s)
         else if isZstd \<and> sv_serveCompression srv \<noteq> ''zstd'' then (http_NotFound, s)
         else case Store_PathInfo (c_store s) (if r_queryHash r \<noteq> [] then r_queryHash r else hashPart) of
           (Inl err, st, _) \<Rightarrow> (if err = ErrNotFound then http_NotFound else internal_error, s\<lparr>c_store := st\<rparr>)
         | (Inr pi, st, _) \<Rightarrow>
             let s1 = s\<lparr>c_store := st\<rparr>; e = r_env r; hs = [(''Content-Type'', ''application/x-nix-nar'')];
                 hs2 = hs @ (if 0 < pi_NarSize pi then [(''Content-Length'', format_int (pi_NarSize pi))] else [])
             in if isZstd
                then (if headOnly then (ok_response hs [], s1) else serveZstdNar srv e pi hs s1)
                else if headOnly then (ok_response hs2 [], s1)
                else case Write (e_sink e) (e_fs e) (e_caseHack e) (filepath_Join [sv_storeRoot srv, pi_StorePath pi]) of
                  Inr out \<Rightarrow>
                    (ok_response hs2 out, s1\<lparr>metr := (metr s1)\<lparr>narBytesServed := narBytesServed (metr s1) + length out\<rparr>\<rparr>)
                | Inl _ \<Rightarrow>
                    (abortNar hs2, s1\<lparr>metr := (metr s1)\<lparr>narBytesServed := narBytesServed (metr s1) + e_partial e\<rparr>\<rparr>))"

definition handleGetNar :: "server \<Rightarrow> 'n step" where
  "handleGetNar srv = serveNar srv False"

definition handleHeadNar :: "server \<Rightarrow> 'n step" where
  "handleHeadNar srv = serveNar srv True"

definition handleHealth :: "server \<Rightarrow> 'n step" where
  "handleHealth srv r s =
     (let count = PathCount (c_store s);
          reachable = (case count of Inl _ \<Rightarrow> False | Inr _ \<Rightarrow> True);
          e = r_env r;
          resp = \<lparr>h_Status = (if reachable then ''ok'' else ''degraded''), h_StoreReachable = reachable,
                  h_UptimeSeconds = (e_now e - sv_startTime srv) div 1000000000,
                  h_DiskAvailableBytes = e_avail e (sv_storeDir srv), h_SpoolAvailableBytes = e_avail e (sv_spoolDir srv),
                  h_StorePathsTotal = (case count of Inl _ \<Rightarrow> 0 | Inr k \<Rightarrow> k)\<rparr>
      in (\<lparr>status = (if reachable then 200 else 503), headers = [(''Content-Type'', ''application/json'')],
           rbody = e_json e resp @ [LF], aborted = False\<rparr>, s))"

definition handleVersion :: "server \<Rightarrow> 'n step" where
  "handleVersion srv r s = (ok_response [(''Content-Type'', ''text/plain'')] (sv_Version srv @ [LF]), s)"

section \<open>Pushing\<close>

text \<open>
  \<^verbatim>\<open>handlePutNar\<close>.  The temporary file gets the name of the upload and a random suffix; a failed
  upload removes it on a best-effort basis.
\<close>

definition drop_temp :: "'n env \<Rightarrow> string \<Rightarrow> string \<Rightarrow> spool_dir \<Rightarrow> spool_dir" where
  "drop_temp e tmp dat sp =
     (if e_removeTemp e then sp(tmp := None)
      else sp(tmp \<mapsto> \<lparr>sf_data = dat, sf_mtime = e_now e, sf_isDir = False\<rparr>))"

definition handlePutNar :: "server \<Rightarrow> 'n step" where
  "handlePutNar srv r s =
     (let name = path_Base (TrimPrefix (URLPath r) ''/nar/''); e = r_env r in
      if name = ''.'' \<or> name = ''..'' \<or> name = ''/'' then (http_Error ''invalid NAR name'' 400, s)
      else if e_mkdir e \<noteq> None then (internal_error, s)
      else case e_createTemp e of
        Inl _ \<Rightarrow> (internal_error, s)
      | Inr suffix \<Rightarrow>
          let tmp = name @ ''.'' @ suffix;
              (dat, ending) = read_limited maxNarBytes (r_body r);
              s1 = s\<lparr>metr := (metr s)\<lparr>narBytesReceived := narBytesReceived (metr s) + length dat\<rparr>\<rparr>;
              failed = push_error ''nar_body'' (s1\<lparr>spool := drop_temp e tmp dat (spool s)\<rparr>)
          in if ending \<noteq> BodyDone then (writeBodyError ending, failed)
             else if e_close e \<noteq> None then (internal_error, failed)
             else if e_rename e \<noteq> None then (internal_error, failed)
             else (ok_response [] [],
                   s1\<lparr>spool := (spool s)(tmp := None, name \<mapsto> \<lparr>sf_data = dat, sf_mtime = e_now e, sf_isDir = False\<rparr>),
                      metr := (metr s1)\<lparr>pushNAR := pushNAR (metr s1) + 1\<rparr>\<rparr>))"

definition acquireImportSlot :: "server \<Rightarrow> 'n env \<Rightarrow> 'n cache_state \<Rightarrow> response option \<times> 'n cache_state" where
  "acquireImportSlot srv e s =
     (case sv_importSem srv of
        None \<Rightarrow> (None, s)
      | Some cap \<Rightarrow>
          if slots s < cap \<and> e_slot e = SlotGot then (None, s\<lparr>slots := slots s + 1\<rparr>)
          else if e_slot e = SlotGone
          then (Some \<lparr>status = 200, headers = [], rbody = [], aborted = True\<rparr>, push_error ''busy'' s)
          else (Some (add_header ''Retry-After'' (format_nat importWaitSeconds) (http_Error ''server busy'' 503)),
                push_error ''busy'' (s\<lparr>metr := (metr s)\<lparr>importFail := importFail (metr s) + 1\<rparr>\<rparr>)))"

definition releaseImportSlot :: "server \<Rightarrow> 'n cache_state \<Rightarrow> 'n cache_state" where
  "releaseImportSlot srv s = (case sv_importSem srv of None \<Rightarrow> s | Some _ \<Rightarrow> s\<lparr>slots := slots s - 1\<rparr>)"

definition handlePutNarInfo :: "server \<Rightarrow> 'n step" where
  "handlePutNarInfo srv r s =
     (case read_limited maxNarInfoBytes (r_body r) of
        (body, ending) \<Rightarrow>
        if ending \<noteq> BodyDone then (writeBodyError ending, push_error ''narinfo_body'' s)
        else case Parse (body, EOF) (sv_storeDirLogical srv) of
          Inl _ \<Rightarrow> (http_Error ''parse error'' 400, push_error ''narinfo_parse'' s)
        | Inr ni \<Rightarrow>
            if sv_maxNarSize srv < NarSize ni \<or> 2 ^ 63 - 1 \<le> NarSize ni
            then (http_Error ''decoded NAR exceeds size limit'' 413, push_error ''narinfo_size'' s)
            else if \<not> Supported (Compression ni)
            then (http_Error (''unsupported compression: '' @ Compression ni) 400, push_error ''narinfo_parse'' s)
            else let s1 = s\<lparr>metr := (metr s)\<lparr>pushNarInfo := pushNarInfo (metr s) + 1\<rparr>\<rparr>; e = r_env r in
              if \<not> sv_importFn srv then (ok_response [] [], s1)
              else case acquireImportSlot srv e s1 of
                (Some resp, s2) \<Rightarrow> (resp, s2)
              | (None, s2) \<Rightarrow>
                  (case e_import e ni (spool s2, nixstore s2) of
                     (err, sp, ns) \<Rightarrow>
                       let s3 = s2\<lparr>spool := sp, nixstore := ns,
                                   metr := (metr s2)\<lparr>importDuration := importDuration (metr s2) + 1\<rparr>\<rparr>
                       in case err of
                            Some _ \<Rightarrow>
                              (http_Error ''import failed'' 500,
                               releaseImportSlot srv (s3\<lparr>metr := (metr s3)\<lparr>importFail := importFail (metr s3) + 1\<rparr>\<rparr>))
                          | None \<Rightarrow>
                              (ok_response [] [],
                               releaseImportSlot srv (s3\<lparr>metr := (metr s3)\<lparr>importSuccess := importSuccess (metr s3) + 1\<rparr>\<rparr>))))"

section \<open>Routing\<close>

definition handleRoot :: "server \<Rightarrow> 'n step" where
  "handleRoot srv r s =
     (if narInfoHash (URLPath r) \<noteq> None then
        (if Method r = ''GET'' then handleGetNarInfo srv r s
         else if Method r = ''HEAD'' then handleHeadNarInfo srv r s
         else if Method r = ''PUT'' then handlePutNarInfo srv r s
         else (http_Error ''method not allowed'' 405, s))
      else if URLPath r \<noteq> ''/'' then (http_NotFound, s)
      else (ok_response [] [], s))"

text \<open>
  The routes of \<^verbatim>\<open>http.ServeMux\<close> for the patterns \<^verbatim>\<open>Handler\<close> registers.  A path that is not clean
  is redirected, as is \<^verbatim>\<open>/nar\<close> without its slash; a \<^verbatim>\<open>GET\<close> pattern matches \<^verbatim>\<open>HEAD\<close> too; the
  pattern \<^verbatim>\<open>/\<close> catches every request no other pattern matches.
\<close>

definition mux_clean :: "string \<Rightarrow> string" where
  "mux_clean p =
     (let q = (if p = [] then ''/'' else if hd p \<noteq> CHR ''/'' then CHR ''/'' # p else p); np = path_Clean q
      in if last q = CHR ''/'' \<and> np \<noteq> ''/'' then np @ ''/'' else np)"

definition redirect :: "string \<Rightarrow> response" where
  "redirect loc = \<lparr>status = 301, headers = [(''Location'', loc)], rbody = [], aborted = False\<rparr>"

definition mux_ServeHTTP :: "server \<Rightarrow> 'n step" where
  "mux_ServeHTTP srv r s =
     (let p = URLPath r; m = Method r; get = (m = ''GET'' \<or> m = ''HEAD'') in
      if m \<noteq> ''CONNECT'' \<and> mux_clean p \<noteq> p then (redirect (mux_clean p), s)
      else if p = ''/nar'' \<and> m \<in> {''GET'', ''HEAD'', ''PUT''} then (redirect ''/nar/'', s)
      else if HasPrefix p ''/debug/'' \<or> p = ''/debug'' then (e_debugPage (r_env r), s)
      else if p = ''/nix-cache-info'' \<and> get then handleNixCacheInfo srv r s
      else if HasPrefix p ''/nar/'' \<and> m = ''GET'' then handleGetNar srv r s
      else if HasPrefix p ''/nar/'' \<and> m = ''HEAD'' then handleHeadNar srv r s
      else if HasPrefix p ''/nar/'' \<and> m = ''PUT'' then handlePutNar srv r s
      else if p = ''/metrics'' \<and> get then (e_metricsPage (r_env r), s)
      else if p = ''/health'' \<and> get then handleHealth srv r s
      else if p = ''/version'' \<and> get then handleVersion srv r s
      else handleRoot srv r s)"

definition Handler :: "server \<Rightarrow> 'n step" where
  "Handler srv r s =
     (if (Method r = ''GET'' \<or> Method r = ''HEAD'') \<and> r_ContentLength r \<noteq> 0 then
        (if \<not> e_deadline (r_env r) then (\<lparr>status = 200, headers = [], rbody = [], aborted = True\<rparr>, s)
         else (add_header ''Connection'' ''close'' (http_Error ''read requests must not have a body'' 400), s))
      else mux_ServeHTTP srv r s)"

section \<open>Start-up and the spool sweeper\<close>

definition sweep_one :: "'n env \<Rightarrow> int \<Rightarrow> nat \<times> spool_dir \<Rightarrow> string \<Rightarrow> nat \<times> spool_dir" where
  "sweep_one e cutoff acc name =
     (case acc of (removed, sp) \<Rightarrow>
        (case sp name of
           None \<Rightarrow> (removed, sp)
         | Some f \<Rightarrow>
             if sf_isDir f then (removed, sp)
             else if e_infoFails e name \<or> cutoff < sf_mtime f then (removed, sp)
             else if e_removeFails e name then (removed, sp)
             else (removed + 1, sp(name := None))))"

definition SweepSpool :: "'n env \<Rightarrow> int \<Rightarrow> spool_dir \<Rightarrow> nat \<times> spool_dir" where
  "SweepSpool e maxIdle sp =
     (case e_readSpool e of
        Inl _ \<Rightarrow> (0, sp)
      | Inr ents \<Rightarrow> foldl (sweep_one e (e_now e - maxIdle)) (0, sp) ents)"

record config =
  cfg_Signer :: "(string \<Rightarrow> string) option"
  cfg_Priority :: int
  cfg_SpoolDir :: string
  cfg_ServeCompression :: string
  cfg_StoreDir :: string
  cfg_StoreRoot :: string
  cfg_ImportFn :: bool
  cfg_ImportConcurrency :: int
  cfg_MaxNarSize :: uint64

definition zero_metrics :: metrics where
  "zero_metrics =
     \<lparr>narInfoHits = (\<lambda>_. 0), narInfoMisses = (\<lambda>_. 0), narBytesServed = 0, narBytesReceived = 0, pushNAR = 0,
      pushNarInfo = 0, pushErrors = (\<lambda>_. 0), importSuccess = 0, importFail = 0, importDuration = 0\<rparr>"

text \<open>\<^verbatim>\<open>New\<close>: \<open>initZstd\<close> is the error of preparing the compressed-NAR cache, if any.\<close>

definition New :: "config \<Rightarrow> string option \<Rightarrow> nat \<Rightarrow> string \<Rightarrow> 'n env \<Rightarrow> Store \<Rightarrow> spool_dir \<Rightarrow> 'n \<Rightarrow> string + (server \<times> 'n cache_state)" where
  "New cfg initZstd numCPU version e st sp ns =
     (let srv =
        \<lparr>sv_priority = cfg_Priority cfg, sv_spoolDir = cfg_SpoolDir cfg, sv_serveCompression = cfg_ServeCompression cfg,
         sv_signer = cfg_Signer cfg, sv_importFn = cfg_ImportFn cfg,
         sv_maxNarSize = (if cfg_MaxNarSize cfg = 0 then word_of_nat maxNarBytes else cfg_MaxNarSize cfg),
         sv_storeDir = filepath_Join [cfg_StoreRoot cfg, cfg_StoreDir cfg], sv_storeDirLogical = cfg_StoreDir cfg,
         sv_storeRoot = cfg_StoreRoot cfg,
         sv_importSem = (if 0 < cfg_ImportConcurrency cfg then Some (nat (cfg_ImportConcurrency cfg)) else None),
         sv_zstdSlots = (if cfg_ImportConcurrency cfg \<le> 0 then numCPU else nat (cfg_ImportConcurrency cfg)),
         sv_startTime = e_now e, sv_Version = version\<rparr>
      in case initZstd of
           Some err \<Rightarrow> Inl err
         | None \<Rightarrow>
             Inr (srv, \<lparr>c_store = st, spool = snd (SweepSpool e 0 sp), nixstore = ns, slots = 0, metr = zero_metrics\<rparr>))"

section \<open>What reads leave alone\<close>

definition view :: "'n cache_state \<Rightarrow> spool_dir \<times> 'n \<times> nat" where
  "view s = (spool s, nixstore s, slots s)"

lemmas read_handlers =
  handleNixCacheInfo_def handleGetNarInfo_def handleHeadNarInfo_def serveZstdNar_def
  handleHealth_def handleVersion_def Let_def

lemma serveZstdNar_view: "view (snd (serveZstdNar srv e pi hs s)) = view s"
  by (simp add: serveZstdNar_def view_def Let_def split: sum.splits prod.splits)

lemma serveNar_view: "view (snd (serveNar srv h r s)) = view s"
  using serveZstdNar_view [of srv "r_env r"]
  by (auto simp: serveNar_def view_def Let_def split: sum.splits prod.splits)

lemma handleGetNarInfo_view: "view (snd (handleGetNarInfo srv r s)) = view s"
  by (simp add: handleGetNarInfo_def view_def split: option.splits prod.splits sum.splits)

lemma handleHeadNarInfo_view: "view (snd (handleHeadNarInfo srv r s)) = view s"
  by (simp add: handleHeadNarInfo_def view_def split: option.splits prod.splits sum.splits)

lemma handleRoot_view: "Method r \<noteq> ''PUT'' \<Longrightarrow> view (snd (handleRoot srv r s)) = view s"
  by (simp add: handleRoot_def handleGetNarInfo_view handleHeadNarInfo_view)

lemma Handler_view:
  assumes "isSafeMethod (Method r)"
  shows "view (snd (Handler srv r s)) = view s"
proof -
  have "Method r \<noteq> ''PUT''" using assms by (auto simp: isSafeMethod_def)
  then show ?thesis
    by (simp add: Handler_def mux_ServeHTTP_def Let_def handleNixCacheInfo_def handleGetNar_def handleHeadNar_def
        serveNar_view handleHealth_def handleVersion_def handleRoot_view)
qed

definition cache_handler :: "server \<Rightarrow> 'n http_request \<Rightarrow> 'n cache_state auth_state \<Rightarrow> response \<times> 'n cache_state auth_state" where
  "cache_handler srv r s = (case Handler srv r (inner s) of (resp, s') \<Rightarrow> (resp, s\<lparr>inner := s'\<rparr>))"

interpretation cache_reads: read_only_reads "cache_handler srv" view for srv
proof unfold_locales
  fix r :: "'n http_request" and s :: "'n cache_state auth_state"
  assume "harmless r"
  then have "isSafeMethod (Method r)" by (simp add: harmless_def)
  from Handler_view [OF this, of srv "inner s"] show "view (inner (snd (cache_handler srv r s))) = view (inner s)"
    by (cases "Handler srv r (inner s)") (simp add: cache_handler_def)
qed

section \<open>Imports\<close>

lemma push_error_view [simp]: "view (push_error reason s) = view s"
  by (simp add: push_error_def view_def)

lemma acquire_view:
  "acquireImportSlot srv e s = (res, s') \<Longrightarrow>
   spool s' = spool s \<and> nixstore s' = nixstore s \<and>
   (case res of None \<Rightarrow> slots (releaseImportSlot srv s') = slots s | Some _ \<Rightarrow> slots s' = slots s) \<and>
   (\<forall>cap. sv_importSem srv = Some cap \<and> slots s \<le> cap \<longrightarrow> slots s' \<le> cap)"
  by (auto simp: acquireImportSlot_def releaseImportSlot_def push_error_def split: option.splits if_splits)

text \<open>The two halves of a narinfo upload: the checks on the body, and the import.\<close>

definition accept_narinfo :: "server \<Rightarrow> reader \<Rightarrow> (response \<times> string) + NarInfo" where
  "accept_narinfo srv b =
     (case read_limited maxNarInfoBytes b of
        (body, ending) \<Rightarrow>
        if ending \<noteq> BodyDone then Inl (writeBodyError ending, ''narinfo_body'')
        else case Parse (body, EOF) (sv_storeDirLogical srv) of
          Inl _ \<Rightarrow> Inl (http_Error ''parse error'' 400, ''narinfo_parse'')
        | Inr ni \<Rightarrow>
            if sv_maxNarSize srv < NarSize ni \<or> 2 ^ 63 - 1 \<le> NarSize ni
            then Inl (http_Error ''decoded NAR exceeds size limit'' 413, ''narinfo_size'')
            else if \<not> Supported (Compression ni)
            then Inl (http_Error (''unsupported compression: '' @ Compression ni) 400, ''narinfo_parse'')
            else Inr ni)"

lemma accept_narinfo_Inr:
  assumes "accept_narinfo srv b = Inr ni"
  shows "Parse (fst b, EOF) (sv_storeDirLogical srv) = Inr ni" and "length (fst b) \<le> maxNarInfoBytes"
    and "NarSize ni \<le> sv_maxNarSize srv" and "NarSize ni < 2 ^ 63 - 1" and "Supported (Compression ni)"
  using assms
  by (auto simp: accept_narinfo_def read_limited_def not_less not_le split: prod.splits if_splits sum.splits read_err.splits)

lemma accept_narinfo_Inl: "accept_narinfo srv b = Inl (resp, reason) \<Longrightarrow> status resp \<noteq> 200"
  by (auto simp: accept_narinfo_def writeBodyError_def http_Error_def internal_error_def
      split: prod.splits if_splits sum.splits body_end.splits)

lemma handlePutNarInfo_split:
  "handlePutNarInfo srv r s =
     (case accept_narinfo srv (r_body r) of
        Inl (resp, reason) \<Rightarrow> (resp, push_error reason s)
      | Inr ni \<Rightarrow>
        (let s1 = s\<lparr>metr := (metr s)\<lparr>pushNarInfo := pushNarInfo (metr s) + 1\<rparr>\<rparr> in
         if \<not> sv_importFn srv then (ok_response [] [], s1)
         else case acquireImportSlot srv (r_env r) s1 of
           (Some resp, s2) \<Rightarrow> (resp, s2)
         | (None, s2) \<Rightarrow>
             (case e_import (r_env r) ni (spool s2, nixstore s2) of
                (err, sp, ns) \<Rightarrow>
                  let s3 = s2\<lparr>spool := sp, nixstore := ns, metr := (metr s2)\<lparr>importDuration := importDuration (metr s2) + 1\<rparr>\<rparr>
                  in case err of
                       Some _ \<Rightarrow> (http_Error ''import failed'' 500,
                         releaseImportSlot srv (s3\<lparr>metr := (metr s3)\<lparr>importFail := importFail (metr s3) + 1\<rparr>\<rparr>))
                     | None \<Rightarrow> (ok_response [] [],
                         releaseImportSlot srv (s3\<lparr>metr := (metr s3)\<lparr>importSuccess := importSuccess (metr s3) + 1\<rparr>\<rparr>)))))"
proof -
  obtain body ending where "read_limited maxNarInfoBytes (r_body r) = (body, ending)" by fastforce
  then show ?thesis
    by (cases "Parse (body, EOF) (sv_storeDirLogical srv)") (simp_all add: handlePutNarInfo_def accept_narinfo_def Let_def)
qed

lemma handlePutNarInfo_refused:
  assumes "accept_narinfo srv (r_body r) = Inl (resp, reason)"
  shows "fst (handlePutNarInfo srv r s) = resp" and "view (snd (handlePutNarInfo srv r s)) = view s"
  using assms by (simp_all add: handlePutNarInfo_split)

text \<open>Whether a request finds one of the import slots free, or the imports are not limited.\<close>

definition slot_free :: "server \<Rightarrow> 'n env \<Rightarrow> 'n cache_state \<Rightarrow> bool" where
  "slot_free srv e s \<longleftrightarrow> (case sv_importSem srv of None \<Rightarrow> True | Some cap \<Rightarrow> slots s < cap \<and> e_slot e = SlotGot)"

lemma acquire_outcome:
  assumes "acquireImportSlot srv e s = (res, s')"
  shows "if slot_free srv e s then res = None else (\<exists>resp. res = Some resp \<and> (status resp = 503 \<or> aborted resp))"
  using assms
  by (auto simp: acquireImportSlot_def slot_free_def add_header_def http_Error_def split: option.splits if_splits)

lemma handlePutNarInfo_outcome:
  assumes ni: "accept_narinfo srv (r_body r) = Inr ni" and imp: "sv_importFn srv"
    and e: "e_import (r_env r) ni (spool s, nixstore s) = (err, sp, ns)"
  shows "if slot_free srv (r_env r) s
    then view (snd (handlePutNarInfo srv r s)) = (sp, ns, slots s) \<and>
      fst (handlePutNarInfo srv r s) = (case err of None \<Rightarrow> ok_response [] [] | Some _ \<Rightarrow> http_Error ''import failed'' 500)
    else view (snd (handlePutNarInfo srv r s)) = view s \<and>
      (status (fst (handlePutNarInfo srv r s)) = 503 \<or> aborted (fst (handlePutNarInfo srv r s)))"
proof -
  let ?s1 = "s\<lparr>metr := (metr s)\<lparr>pushNarInfo := pushNarInfo (metr s) + 1\<rparr>\<rparr>"
  have free: "slot_free srv (r_env r) ?s1 = slot_free srv (r_env r) s"
    by (simp add: slot_free_def split: option.split)
  obtain res s2 where acq: "acquireImportSlot srv (r_env r) ?s1 = (res, s2)" by fastforce
  note av = acquire_view [OF acq] and ao = acquire_outcome [OF acq, unfolded free]
  show ?thesis
  proof (cases "slot_free srv (r_env r) s")
    case False
    then obtain resp where "res = Some resp" "status resp = 503 \<or> aborted resp" using ao by auto
    then show ?thesis using False av acq by (simp add: handlePutNarInfo_split ni imp view_def)
  next
    case True
    then have "res = None" using ao by simp
    then show ?thesis
      using True av acq e by (auto simp: handlePutNarInfo_split ni imp Let_def view_def releaseImportSlot_def split: option.splits)
  qed
qed

section \<open>Listeners\<close>

lemma local_keeps: "view (inner (serve (localHandler (cache_handler srv) False) rs s)) = view (inner s)"
proof (induction rs arbitrary: s)
  case (Cons r rs)
  have "view (inner (snd (ReadOnly (cache_handler srv) r s))) = view (inner s)"
    using Handler_view [of r srv "inner s"]
    by (cases "Handler srv r (inner s)") (simp add: ReadOnly_def cache_handler_def)
  with Cons show ?case by (simp add: localHandler_def)
qed simp

section \<open>Spooled uploads\<close>

lemma path_Base_no_slash: "path_Base p \<noteq> ''/'' \<Longrightarrow> CHR ''/'' \<notin> set (path_Base p)"
  by (auto simp: path_Base_def Let_def dest: set_takeWhileD split: if_splits)

lemma fun_upd_fresh: "m t = None \<Longrightarrow> m(t := None) = m"
  by auto

lemma sweep_one_other: "nm \<noteq> x \<Longrightarrow> snd (sweep_one e c acc x) nm = snd acc nm"
  by (cases acc) (simp add: sweep_one_def split: option.splits)

definition sweepable :: "'n env \<Rightarrow> int \<Rightarrow> spool_dir \<Rightarrow> string \<Rightarrow> bool" where
  "sweepable e cutoff sp nm =
     (case sp nm of
        None \<Rightarrow> False
      | Some f \<Rightarrow> \<not> sf_isDir f \<and> sf_mtime f \<le> cutoff \<and> \<not> e_infoFails e nm \<and> \<not> e_removeFails e nm)"

lemma sweep_one_sweepable:
  "sweep_one e c (k, sp) x = (if sweepable e c sp x then (k + 1, sp(x := None)) else (k, sp))"
  by (auto simp: sweep_one_def sweepable_def split: option.splits)

lemma foldl_sweep:
  "distinct xs \<Longrightarrow>
   foldl (sweep_one e c) (k, sp) xs =
     (k + length (filter (sweepable e c sp) xs), \<lambda>nm. if nm \<in> set xs \<and> sweepable e c sp nm then None else sp nm)"
proof (induction xs arbitrary: k sp)
  case (Cons x xs)
  have same: "sweepable e c (sp(x := None)) nm = sweepable e c sp nm" if "nm \<noteq> x" for nm
    using that by (simp add: sweepable_def)
  then have filt: "filter (sweepable e c (sp(x := None))) xs = filter (sweepable e c sp) xs"
    using Cons.prems by (intro filter_cong refl) (metis distinct.simps(2))
  show ?case
    using Cons same by (auto simp: sweep_one_sweepable filt intro!: ext)
qed auto

section \<open>A concrete server\<close>

definition example_env :: "nat env" where
  "example_env =
     \<lparr>e_now = 100, e_fs = example_fs, e_sink = accept_all, e_caseHack = False, e_partial = 0,
      e_zstd = (\<lambda>_. Inl errZstdBusy), e_copyZstd = True,
      e_import = (\<lambda>ni (sp, k). (None, sp, k + 1)), e_slot = SlotGot, e_mkdir = None, e_createTemp = Inr ''123'',
      e_close = None, e_rename = None, e_removeTemp = True, e_deadline = True,
      e_readSpool = Inr [''a'', ''b''], e_infoFails = (\<lambda>_. False), e_removeFails = (\<lambda>_. False),
      e_metricsPage = ok_response [] [], e_debugPage = ok_response [] [], e_json = (\<lambda>_. ''{}''), e_avail = (\<lambda>_. 0)\<rparr>"

definition example_server :: server where
  "example_server =
     \<lparr>sv_priority = 30, sv_spoolDir = ''/spool'', sv_serveCompression = ''none'', sv_signer = None, sv_importFn = True,
      sv_maxNarSize = 1000, sv_storeDir = ''/nix/store'', sv_storeDirLogical = ''/nix/store'', sv_storeRoot = [],
      sv_importSem = Some 1, sv_zstdSlots = 1, sv_startTime = 0, sv_Version = ''dev''\<rparr>"

definition example_state :: "nat cache_state" where
  "example_state = \<lparr>c_store = example_store, spool = (\<lambda>_. None), nixstore = 0, slots = 0, metr = zero_metrics\<rparr>"

definition example_put :: "nat http_request" where
  "example_put =
     \<lparr>Method = ''PUT'', URLPath = ''/'' @ example_hash @ ''.narinfo'', RemoteAddr = ''100.64.0.1:1'', r_ContentLength = 0,
      r_body = (Marshal example_narinfo, EOF), r_queryHash = [], r_env = example_env\<rparr>"

lemma example_narinfo_length: "length (Marshal example_narinfo) \<le> maxNarInfoBytes"
proof -
  have "length (Marshal example_narinfo) \<le> marshalSize example_narinfo"
    using marshalSize_Marshal [of example_narinfo] FormatUint_length [of "FileSize example_narinfo"]
      FormatUint_length [of "NarSize example_narinfo"] by linarith
  also have "\<dots> \<le> 2000"
    using path_Base_store [OF example_base_valid(1), of "[]"] path_Base_store [OF example_base_valid(2), of "[]"]
      path_Base_store [OF example_base_valid(3), of "[]"]
    by (simp add: marshalSize_def example_narinfo_def compression_def storePrefix_def DefaultStoreDir_def TrimSuffix_def
        HasSuffix_def example_base_def)
  also have "\<dots> \<le> maxNarInfoBytes" by (simp add: maxNarInfoBytes_def)
  finally show ?thesis .
qed

lemma storePrefix_default: "storePrefix ''/nix/store'' = storePrefix []"
  by (simp add: storePrefix_def DefaultStoreDir_def)

lemma example_accepted: "accept_narinfo example_server (r_body example_put) = Inr example_narinfo"
proof -
  have "wf_narinfo ''/nix/store'' example_narinfo"
    using example_narinfo_wf by (simp add: wf_narinfo_def storePrefix_default)
  then have "Parse (Marshal example_narinfo, EOF) ''/nix/store'' = Inr example_narinfo" by (rule Parse_Marshal)
  moreover have "read_limited maxNarInfoBytes (Marshal example_narinfo, EOF) = (Marshal example_narinfo, BodyDone)"
    using example_narinfo_length by (simp add: read_limited_def)
  ultimately show ?thesis
    by (simp add: accept_narinfo_def example_put_def example_server_def)
      (simp add: example_narinfo_def Supported_def compressionNone_def)
qed

definition example_upload :: "nat http_request" where
  "example_upload = example_put\<lparr>URLPath := ''/nar/x.nar'', r_body := (''data'', EOF)\<rparr>"

definition nobody :: tailnet where
  "nobody = \<lparr>WhoIs = (\<lambda>_. Inr None), UnmarshalCap = (\<lambda>_ _. ([], None))\<rparr>"

section \<open>Properties\<close>

text \<open>
  C13: peers without a push grant cannot change anything but counters.  Whatever sequence of
  requests, of any method and path, reaches the cache through the tailnet listener from peers that
  are not granted push, and whatever sequence reaches it through a local listener without
  \<^verbatim>\<open>--local-write\<close>, the spool, the Nix store and the import slots are as before.
\<close>

theorem unprivileged_cannot_write:
  assumes "list_all (\<lambda>r. \<not> may_push T (RemoteAddr r)) rs"
  shows "view (inner (serve (tsnetHandler T (cache_handler srv)) rs s)) = view (inner s) \<and>
         view (inner (serve (localHandler (cache_handler srv) False) rs' s)) = view (inner s)"
  using cache_reads.serve_tsnet_keeps [OF assms] local_keeps by blast

theorem unprivileged_cannot_write_witness:
  "\<forall>srv (rs :: nat http_request list) s. view (inner (serve (tsnetHandler nobody (cache_handler srv)) rs s)) = view (inner s)"
proof (intro allI)
  fix srv s and rs :: "nat http_request list"
  have "list_all (\<lambda>r. \<not> may_push nobody (RemoteAddr r)) rs" by (simp add: list_all_iff may_push_def nobody_def)
  from unprivileged_cannot_write [OF this]
  show "view (inner (serve (tsnetHandler nobody (cache_handler srv)) rs s)) = view (inner s)" by blast
qed

text \<open>
  C14: only vetted metadata reaches the importer.  A narinfo upload changes the spool or the Nix
  store only through the importer, and only for a body that parsed, within the size limits and in a
  supported compression; it is answered with success only if the importer succeeded; and it leaves
  as many import slots free as it found.
\<close>

theorem put_narinfo_guarded:
  assumes "handlePutNarInfo srv r s = (resp, s')"
  shows "slots s' = slots s \<and>
    ((spool s', nixstore s') \<noteq> (spool s, nixstore s) \<or> sv_importFn srv \<and> status resp = 200 \<and> \<not> aborted resp \<longrightarrow>
     (\<exists>ni. Parse (fst (r_body r), EOF) (sv_storeDirLogical srv) = Inr ni \<and> wf_narinfo (sv_storeDirLogical srv) ni \<and>
        NarSize ni \<le> sv_maxNarSize srv \<and> NarSize ni < 2 ^ 63 - 1 \<and> Supported (Compression ni) \<and>
        (spool s', nixstore s') = snd (e_import (r_env r) ni (spool s, nixstore s)) \<and>
        (status resp = 200 \<longleftrightarrow> fst (e_import (r_env r) ni (spool s, nixstore s)) = None)))"
proof (cases "accept_narinfo srv (r_body r)")
  case (Inl x)
  then obtain rsp reason where x: "accept_narinfo srv (r_body r) = Inl (rsp, reason)" by (cases x) auto
  show ?thesis
    using handlePutNarInfo_refused [OF x, of s] accept_narinfo_Inl [OF x] assms by (simp add: view_def)
next
  case (Inr ni)
  note vetted = accept_narinfo_Inr [OF Inr]
  obtain err sp ns where e: "e_import (r_env r) ni (spool s, nixstore s) = (err, sp, ns)" by (metis prod_cases3)
  show ?thesis
  proof (cases "sv_importFn srv")
    case True
    have st: "status (case err of None \<Rightarrow> ok_response [] [] | Some _ \<Rightarrow> http_Error ''import failed'' 500) = 200 \<longleftrightarrow> err = None"
      by (simp add: ok_response_def http_Error_def split: option.splits)
    from handlePutNarInfo_outcome [OF Inr True e] vetted Parse_wf [OF vetted(1)] assms e st
    show ?thesis by (auto simp: view_def split: if_splits)
  next
    case False
    with assms Inr show ?thesis by (auto simp: handlePutNarInfo_split)
  qed
qed

theorem put_narinfo_guarded_witness:
  "\<exists>ni. Parse (fst (r_body example_put), EOF) (sv_storeDirLogical example_server) = Inr ni \<and>
     wf_narinfo (sv_storeDirLogical example_server) ni \<and>
     nixstore (snd (handlePutNarInfo example_server example_put example_state)) = 1"
proof -
  have ns: "nixstore (snd (handlePutNarInfo example_server example_put example_state)) = 1"
    by (simp add: handlePutNarInfo_split example_accepted)
      (simp add: example_server_def acquireImportSlot_def example_put_def example_env_def example_state_def releaseImportSlot_def)
  then have "nixstore (snd (handlePutNarInfo example_server example_put example_state)) \<noteq> nixstore example_state"
    by (simp add: example_state_def)
  with ns put_narinfo_guarded [of example_server example_put example_state, OF prod.collapse [symmetric]]
  show ?thesis by auto
qed

text \<open>
  C15: an upload is spooled whole or not at all.  When the answer to a NAR upload is 200 the spool
  holds exactly the bytes the client sent, under a name without a slash, and nothing else changed;
  otherwise the spool is as it was (the temporary file having been new, and removable).
\<close>

theorem put_nar_atomic:
  assumes "handlePutNar srv r s = (resp, s')" and "e_removeTemp (r_env r)"
    and "nm = path_Base (TrimPrefix (URLPath r) ''/nar/'')"
    and "\<And>suffix. e_createTemp (r_env r) = Inr suffix \<Longrightarrow> spool s (nm @ ''.'' @ suffix) = None"
  shows "if status resp = 200
    then spool s' = (spool s)(nm \<mapsto> \<lparr>sf_data = fst (r_body r), sf_mtime = e_now (r_env r), sf_isDir = False\<rparr>) \<and>
         CHR ''/'' \<notin> set nm \<and> nm \<noteq> ''.'' \<and> nm \<noteq> ''..'' \<and> snd (r_body r) = EOF \<and> length (fst (r_body r)) \<le> maxNarBytes \<and>
         nixstore s' = nixstore s
    else spool s' = spool s \<and> nixstore s' = nixstore s"
proof -
  have codes: "status internal_error \<noteq> 200" "status (http_Error m 400) \<noteq> 200" "ending \<noteq> BodyDone \<Longrightarrow> status (writeBodyError ending) \<noteq> 200" for m ending
    by (simp_all add: internal_error_def http_Error_def writeBodyError_def split: body_end.splits)
  obtain dat ending where body: "read_limited maxNarBytes (r_body r) = (dat, ending)" by fastforce
  have fin: "ending = BodyDone \<Longrightarrow> dat = fst (r_body r) \<and> snd (r_body r) = EOF \<and> length (fst (r_body r)) \<le> maxNarBytes"
    using body by (auto simp: read_limited_def split: if_splits read_err.splits)
  consider "nm = ''.'' \<or> nm = ''..'' \<or> nm = ''/'' \<or> e_mkdir (r_env r) \<noteq> None"
    | e where "e_createTemp (r_env r) = Inl e" "\<not> (nm = ''.'' \<or> nm = ''..'' \<or> nm = ''/'')" "e_mkdir (r_env r) = None"
    | suffix where "e_createTemp (r_env r) = Inr suffix" "\<not> (nm = ''.'' \<or> nm = ''..'' \<or> nm = ''/'')" "e_mkdir (r_env r) = None"
    by (cases "e_createTemp (r_env r)") auto
  then show ?thesis
  proof cases
    case 1
    then show ?thesis using assms(1) codes by (auto simp: handlePutNar_def Let_def assms(3) [symmetric] split: if_splits)
  next
    case 2
    then show ?thesis using assms(1) codes by (auto simp: handlePutNar_def Let_def assms(3) [symmetric])
  next
    case (3 suffix)
    then have fresh: "(spool s)(nm @ ''.'' @ suffix := None) = spool s"
      using fun_upd_fresh assms(4) by metis
    have slash: "CHR ''/'' \<notin> set nm" using 3(2) path_Base_no_slash assms(3) by blast
    from 3 show ?thesis
      using assms(1,2) codes fin slash fresh
      by (auto simp: handlePutNar_def Let_def assms(3) [symmetric] body push_error_def drop_temp_def ok_response_def split: if_splits)
  qed
qed

theorem put_nar_atomic_witness:
  "spool (snd (handlePutNar example_server example_upload example_state)) =
     [''x.nar'' \<mapsto> \<lparr>sf_data = ''data'', sf_mtime = 100, sf_isDir = False\<rparr>]"
proof -
  have nm: "path_Base (TrimPrefix (URLPath example_upload) ''/nar/'') = ''x.nar''"
    by (simp add: example_upload_def example_put_def path_Base_def TrimPrefix_def HasPrefix_def)
  have "status (fst (handlePutNar example_server example_upload example_state)) = 200"
    by (simp add: handlePutNar_def nm) (simp add: example_upload_def example_put_def example_env_def read_limited_def
        maxNarBytes_def ok_response_def)
  with put_nar_atomic [of example_server example_upload example_state, OF prod.collapse [symmetric] _ nm [symmetric]]
  show ?thesis by (simp add: example_upload_def example_put_def example_env_def example_state_def)
qed

text \<open>
  \<^verbatim>\<open>HEAD\<close> announces what \<^verbatim>\<open>GET\<close> sends.  Unless NARs are served compressed, the two answers for a
  narinfo have the same status, and a successful \<^verbatim>\<open>HEAD\<close> declares exactly the length of the body
  \<^verbatim>\<open>GET\<close> returns.
\<close>

theorem head_matches_get:
  assumes "sv_serveCompression srv \<noteq> ''zstd''" and "URLPath r = URLPath r'"
  shows "status (fst (handleHeadNarInfo srv r s)) = status (fst (handleGetNarInfo srv r' s)) \<and>
    (status (fst (handleGetNarInfo srv r' s)) = 200 \<longrightarrow>
     (''Content-Length'', format_nat (length (rbody (fst (handleGetNarInfo srv r' s)))))
       \<in> set (headers (fst (handleHeadNarInfo srv r s))))"
proof -
  have "buildNarInfo srv (r_env r) h False (c_store s) = buildNarInfo srv (r_env r') h True (c_store s)" for h
    using assms(1) by (simp add: buildNarInfo_def cong: prod.case_cong sum.case_cong)
  then show ?thesis
    using assms
    by (auto simp: handleHeadNarInfo_def handleGetNarInfo_def ok_response_def http_NotFound_def internal_error_def http_Error_def
        split: option.splits prod.splits sum.splits)
qed

theorem head_matches_get_witness:
  "status (fst (handleHeadNarInfo example_server example_put example_state)) =
   status (fst (handleGetNarInfo example_server example_put example_state))"
  using head_matches_get [of example_server example_put example_put example_state] by (simp add: example_server_def)

text \<open>
  The spool sweeper removes abandoned uploads and nothing else.  Of the entries it lists it
  removes exactly the plain files last written at or before the cutoff (and whose removal works);
  directories, fresh files and everything else stay, and the count it returns is the number
  removed.
\<close>

theorem sweep_spool_exact:
  assumes "e_readSpool e = Inr ents" and "distinct ents"
  shows "SweepSpool e maxIdle sp =
    (length (filter (sweepable e (e_now e - maxIdle) sp) ents),
     \<lambda>nm. if nm \<in> set ents \<and> sweepable e (e_now e - maxIdle) sp nm then None else sp nm)"
  using assms by (simp add: SweepSpool_def foldl_sweep)

theorem sweep_spool_exact_witness:
  "fst (SweepSpool example_env 10
     [''a'' \<mapsto> \<lparr>sf_data = [], sf_mtime = 5, sf_isDir = False\<rparr>, ''b'' \<mapsto> \<lparr>sf_data = [], sf_mtime = 95, sf_isDir = False\<rparr>]) = 1"
  using sweep_spool_exact [of example_env "[''a'', ''b'']" 10] by (simp add: example_env_def sweepable_def)

end
