(* ===== verification/ZstdCache.thy ===== *)
theory ZstdCache
  imports Cache
begin

text \<open>
  The compressed-NAR cache of package \<^verbatim>\<open>cache\<close> (\<^verbatim>\<open>cache/zstd.go\<close>).  Requests, builders, the
  sweeper and shutdown run concurrently and share the fields of \<^verbatim>\<open>Server\<close> under \<^verbatim>\<open>zstdCacheMu\<close>, so
  the model is a transition system whose steps are the critical sections of the source, one function
  each.  Entries live in a heap, as the pointers of the source do; a ghost field says in which phase
  of its life an entry is.  The lemmas show, for every interleaving, that the byte budget is exact
  and respected and that an entry somebody reads is never given up.
\<close>

section \<open>State\<close>

datatype phase = Building | Cached | Retired | Failed | Dead

record zentry =
  ze_key :: string
  ze_path :: string
  ze_fileHash :: string
  ze_size :: uint64
  ze_charged :: uint64
  ze_pins :: int
  ze_lastUsed :: int
  ze_phase :: phase

datatype flight_err = FBusy | FFull | FClosed | FContext | FOther string

record zflight =
  zf_waiters :: nat
  zf_entry :: "nat option"
  zf_err :: "flight_err option"
  zf_finished :: bool

text \<open>
  \<open>zc_leases\<close> is the multiset of entries with an open \<^verbatim>\<open>zstdLease\<close> (the wait group
  \<^verbatim>\<open>zstdLeases\<close>), \<open>zc_now\<close> the clock, \<open>zc_next\<close> the next unused heap address.
\<close>

record zcache =
  zc_heap :: "nat \<rightharpoonup> zentry"
  zc_next :: nat
  zc_cache :: "string \<rightharpoonup> nat"
  zc_bytes :: uint64
  zc_limit :: uint64
  zc_lru :: "nat list"
  zc_failed :: "string \<rightharpoonup> nat"
  zc_flights :: "string \<rightharpoonup> zflight"
  zc_keys :: "string list"
  zc_semCap :: nat
  zc_closed :: bool
  zc_leases :: "nat multiset"
  zc_now :: int

definition zstdReservationChunk :: uint64 where
  "zstdReservationChunk = push_bit 10 64"

definition zstdCacheMaxBytes :: uint64 where
  "zstdCacheMaxBytes = push_bit 30 4"

definition upd_entry :: "nat \<Rightarrow> (zentry \<Rightarrow> zentry) \<Rightarrow> zcache \<Rightarrow> zcache" where
  "upd_entry e g s = s\<lparr>zc_heap := (zc_heap s)(e := map_option g (zc_heap s e))\<rparr>"

section \<open>Pins\<close>

definition pinZstdLocked :: "nat \<Rightarrow> zcache \<Rightarrow> zcache" where
  "pinZstdLocked e s =
     (upd_entry e (\<lambda>en. en\<lparr>ze_pins := ze_pins en + 1\<rparr>) s)
       \<lparr>zc_lru := remove1 e (zc_lru s), zc_leases := add_mset e (zc_leases s)\<rparr>"

definition unpinZstdLocked :: "nat \<Rightarrow> zcache \<Rightarrow> zcache" where
  "unpinZstdLocked e s =
     (case zc_heap s e of
        None \<Rightarrow> s
      | Some en \<Rightarrow>
          if ze_pins en - 1 = 0
          then (upd_entry e (\<lambda>en. en\<lparr>ze_pins := 0, ze_lastUsed := zc_now s\<rparr>) s)\<lparr>zc_lru := zc_lru s @ [e]\<rparr>
          else upd_entry e (\<lambda>en. en\<lparr>ze_pins := ze_pins en - 1\<rparr>) s)"

text \<open>\<^verbatim>\<open>(*zstdLease).Close\<close>, which runs once per lease.\<close>

definition lease_Close :: "nat \<Rightarrow> zcache \<Rightarrow> zcache" where
  "lease_Close e s = (unpinZstdLocked e s)\<lparr>zc_leases := zc_leases s - {#e#}\<rparr>"

section \<open>Leases and flights\<close>

datatype lease_result = LErr flight_err | LLease nat | LJoin | LStart

definition new_flight :: zflight where
  "new_flight = \<lparr>zf_waiters = 1, zf_entry = None, zf_err = None, zf_finished = False\<rparr>"

text \<open>
  The first critical section of \<^verbatim>\<open>zstdLease\<close>, for a context that is not done: an entry of the
  cache is leased, otherwise the request joins the flight for the key or starts one.  \<open>zc_keys\<close>
  lists the keys of \<^verbatim>\<open>zstdFlights\<close>.
\<close>

definition zstdLease_begin :: "string \<Rightarrow> zcache \<Rightarrow> lease_result \<times> zcache" where
  "zstdLease_begin key s =
     (if zc_closed s then (LErr FClosed, s)
      else case zc_cache s key of
        Some e \<Rightarrow> (LLease e, pinZstdLocked e s)
      | None \<Rightarrow>
        (case zc_flights s key of
           None \<Rightarrow>
             if 2 * zc_semCap s \<le> length (zc_keys s) then (LErr FBusy, s)
             else (LStart, s\<lparr>zc_flights := (zc_flights s)(key \<mapsto> new_flight), zc_keys := key # zc_keys s\<rparr>)
         | Some f \<Rightarrow> (LJoin, s\<lparr>zc_flights := (zc_flights s)(key \<mapsto> f\<lparr>zf_waiters := zf_waiters f + 1\<rparr>)\<rparr>)))"

text \<open>
  The second critical section, once the flight is done or the request's context is; \<open>ctxErr\<close> is
  \<^verbatim>\<open>ctx.Err()\<close>.
\<close>

definition lease_error :: "bool \<Rightarrow> zflight \<Rightarrow> zcache \<Rightarrow> flight_err option" where
  "lease_error ctxErr f s =
     (if zc_closed s then Some FClosed else if ctxErr then Some FContext else zf_err f)"

definition zstdLease_end :: "string \<Rightarrow> bool \<Rightarrow> zcache \<Rightarrow> lease_result \<times> zcache" where
  "zstdLease_end key ctxErr s =
     (case zc_flights s key of
        None \<Rightarrow> (LErr FClosed, s)
      | Some f \<Rightarrow>
          let err = lease_error ctxErr f s;
              s1 = (case (err, zf_entry f) of (None, Some e) \<Rightarrow> pinZstdLocked e s | _ \<Rightarrow> s);
              w = zf_waiters f - 1;
              s2 = (if w = 0 \<and> zf_finished f
                    then (case zf_entry f of Some e \<Rightarrow> unpinZstdLocked e s1 | None \<Rightarrow> s1)
                           \<lparr>zc_flights := (zc_flights s)(key := None), zc_keys := removeAll key (zc_keys s)\<rparr>
                    else s1\<lparr>zc_flights := (zc_flights s)(key \<mapsto> f\<lparr>zf_waiters := w\<rparr>)\<rparr>)
          in (case err of
                Some x \<Rightarrow> LErr x
              | None \<Rightarrow> (case zf_entry f of Some e \<Rightarrow> LLease e | None \<Rightarrow> LErr (FOther [])), s2))"

text \<open>The critical section that ends \<^verbatim>\<open>buildZstdFlight\<close>, with the result of the compression.\<close>

definition publishZstd :: "string \<Rightarrow> flight_err + nat \<Rightarrow> zcache \<Rightarrow> zcache" where
  "publishZstd key res s =
     (case zc_flights s key of
        None \<Rightarrow> s
      | Some f \<Rightarrow>
          let f' = f\<lparr>zf_entry := (case res of Inr e \<Rightarrow> Some e | Inl _ \<Rightarrow> None),
                     zf_err := (case res of Inl x \<Rightarrow> Some x | Inr _ \<Rightarrow> None), zf_finished := True\<rparr>;
              s1 = (case res of
                      Inl _ \<Rightarrow> s
                    | Inr e \<Rightarrow>
                        if 0 < zf_waiters f
                        then (upd_entry e (\<lambda>en. en\<lparr>ze_pins := 1, ze_phase := Cached\<rparr>) s)\<lparr>zc_cache := (zc_cache s)(key \<mapsto> e)\<rparr>
                        else (upd_entry e (\<lambda>en. en\<lparr>ze_lastUsed := zc_now s, ze_phase := Cached\<rparr>) s)
                               \<lparr>zc_cache := (zc_cache s)(key \<mapsto> e), zc_lru := zc_lru s @ [e]\<rparr>)
          in if zf_waiters f = 0
             then s1\<lparr>zc_flights := (zc_flights s)(key := None), zc_keys := removeAll key (zc_keys s)\<rparr>
             else s1\<lparr>zc_flights := (zc_flights s)(key \<mapsto> f')\<rparr>)"

section \<open>Building\<close>

text \<open>\<^verbatim>\<open>compressToZstdCache\<close>: the entry for the temporary file it creates.\<close>

definition beginEntry :: "string \<Rightarrow> string \<Rightarrow> zcache \<Rightarrow> zcache" where
  "beginEntry key path s =
     s\<lparr>zc_heap := (zc_heap s)(zc_next s \<mapsto>
         \<lparr>ze_key = key, ze_path = path, ze_fileHash = [], ze_size = 0, ze_charged = 0, ze_pins = 0,
          ze_lastUsed = 0, ze_phase = Building\<rparr>),
       zc_next := zc_next s + 1\<rparr>"

text \<open>\<^verbatim>\<open>(*zstdWriter).Write\<close>: how much more to reserve for a write of \<open>len\<close> bytes, and the effect of
  the write on the entry; and the hash of a finished file.\<close>

definition reservation :: "zentry \<Rightarrow> uint64 \<Rightarrow> uint64" where
  "reservation en len =
     (let fin = ze_size en + len;
          charged = (fin + zstdReservationChunk - 1) div zstdReservationChunk * zstdReservationChunk
      in charged - ze_charged en)"

definition writeZstd :: "nat \<Rightarrow> uint64 \<Rightarrow> zcache \<Rightarrow> zcache" where
  "writeZstd e k s = upd_entry e (\<lambda>en. en\<lparr>ze_size := ze_size en + k\<rparr>) s"

definition hashZstd :: "nat \<Rightarrow> string \<Rightarrow> zcache \<Rightarrow> zcache" where
  "hashZstd e h s = upd_entry e (\<lambda>en. en\<lparr>ze_fileHash := h\<rparr>) s"

definition abandonZstd :: "nat \<Rightarrow> zcache \<Rightarrow> zcache" where
  "abandonZstd e s = upd_entry e (\<lambda>en. en\<lparr>ze_phase := Retired\<rparr>) s"

section \<open>The budget\<close>

definition retireZstdLocked :: "nat \<Rightarrow> zcache \<Rightarrow> zcache" where
  "retireZstdLocked e s =
     (case zc_heap s e of
        None \<Rightarrow> s
      | Some en \<Rightarrow>
          (upd_entry e (\<lambda>en. en\<lparr>ze_phase := Retired\<rparr>) s)
            \<lparr>zc_cache := (zc_cache s)(ze_key en := None), zc_lru := remove1 e (zc_lru s)\<rparr>)"

datatype reserve_result = RGranted | RErr flight_err | REvict nat

text \<open>One pass of the loop of \<^verbatim>\<open>reserveZstd\<close>.\<close>

definition reserve_once :: "nat \<Rightarrow> uint64 \<Rightarrow> zcache \<Rightarrow> reserve_result \<times> zcache" where
  "reserve_once e extra s =
     (if zc_closed s then (RErr FClosed, s)
      else if extra \<le> zc_limit s \<and> zc_bytes s \<le> zc_limit s - extra
      then (RGranted, (upd_entry e (\<lambda>en. en\<lparr>ze_charged := ze_charged en + extra\<rparr>) s)\<lparr>zc_bytes := zc_bytes s + extra\<rparr>)
      else case zc_lru s of
        [] \<Rightarrow> (RErr FFull, s)
      | victim # _ \<Rightarrow>
          if zc_limit s < extra then (RErr FFull, s) else (REvict victim, retireZstdLocked victim s))"

text \<open>\<^verbatim>\<open>deleteZstd\<close>: \<open>rmErr\<close> says that removing the file failed other than by its absence.\<close>

definition deleteZstd :: "nat \<Rightarrow> bool \<Rightarrow> zcache \<Rightarrow> bool \<times> zcache" where
  "deleteZstd e rmErr s =
     (case zc_heap s e of
        None \<Rightarrow> (False, s)
      | Some en \<Rightarrow>
          if rmErr
          then (False, (upd_entry e (\<lambda>en. en\<lparr>ze_phase := Failed\<rparr>) s)\<lparr>zc_failed := (zc_failed s)(ze_path en \<mapsto> e)\<rparr>)
          else (True, (upd_entry e (\<lambda>en. en\<lparr>ze_charged := 0, ze_phase := Dead\<rparr>) s)
                  \<lparr>zc_bytes := zc_bytes s - ze_charged en, zc_failed := (zc_failed s)(ze_path en := None)\<rparr>))"

definition removeMissingZstd :: "nat \<Rightarrow> zcache \<Rightarrow> bool \<times> zcache" where
  "removeMissingZstd e s =
     (case zc_heap s e of
        None \<Rightarrow> (False, s)
      | Some en \<Rightarrow>
          if ze_pins en \<noteq> 0 \<or> zc_cache s (ze_key en) \<noteq> Some e then (False, s)
          else (True, retireZstdLocked e s))"

lemma upd_entry_simps [simp]:
  "zc_lru (upd_entry e g s) = zc_lru s" "zc_cache (upd_entry e g s) = zc_cache s"
  "zc_bytes (upd_entry e g s) = zc_bytes s" "zc_limit (upd_entry e g s) = zc_limit s"
  "zc_failed (upd_entry e g s) = zc_failed s" "zc_flights (upd_entry e g s) = zc_flights s"
  "zc_leases (upd_entry e g s) = zc_leases s" "zc_now (upd_entry e g s) = zc_now s"
  "zc_next (upd_entry e g s) = zc_next s" "zc_closed (upd_entry e g s) = zc_closed s"
  "zc_keys (upd_entry e g s) = zc_keys s" "zc_semCap (upd_entry e g s) = zc_semCap s"
  "zc_heap (upd_entry e g s) = (zc_heap s)(e := map_option g (zc_heap s e))"
  by (simp_all add: upd_entry_def)

lemma reserve_once_evict:
  "reserve_once e extra s = (REvict v, s') \<Longrightarrow> zc_lru s = v # tl (zc_lru s) \<and> s' = retireZstdLocked v s"
  by (auto simp: reserve_once_def split: if_splits list.splits)

lemma deleteZstd_lru: "zc_lru (snd (deleteZstd v b s)) = zc_lru s"
  by (auto simp: deleteZstd_def split: option.splits)

text \<open>
  \<^verbatim>\<open>reserveZstd\<close> when no other goroutine intervenes: \<open>rmErr\<close> says which removals fail.  Every
  pass shortens the list of evictable entries, so the loop ends.  (The list holds pointers to
  entries, so the branch for an address without an entry is never taken.)
\<close>

function reserveZstd :: "(nat \<Rightarrow> bool) \<Rightarrow> nat \<Rightarrow> uint64 \<Rightarrow> zcache \<Rightarrow> flight_err option \<times> zcache" where
  "reserveZstd rmErr e extra s =
     (case reserve_once e extra s of
        (RGranted, s') \<Rightarrow> (None, s')
      | (RErr x, s') \<Rightarrow> (Some x, s')
      | (REvict v, s') \<Rightarrow>
          if zc_heap s v = None then (Some FFull, s)
          else reserveZstd rmErr e extra (snd (deleteZstd v (rmErr v) s')))"
  by pat_completeness auto
termination
proof (relation "measure (\<lambda>(_, _, _, s). length (zc_lru s))", goal_cases)
  case (2 rmErr e extra s res s' v)
  then have "zc_lru s = v # tl (zc_lru s)" "s' = retireZstdLocked v s"
    using reserve_once_evict [of e extra s v s'] by simp_all
  moreover obtain en where "zc_heap s v = Some en" using 2(3) by auto
  ultimately show ?case
    by (cases "zc_lru s") (simp_all add: deleteZstd_lru retireZstdLocked_def)
qed simp

declare reserveZstd.simps [simp del]

section \<open>Sweeping and closing\<close>

fun sweep_lru :: "int \<Rightarrow> nat list \<Rightarrow> zcache \<Rightarrow> nat list \<times> zcache" where
  "sweep_lru cutoff [] s = ([], s)"
| "sweep_lru cutoff (e # es) s =
     (case zc_heap s e of
        None \<Rightarrow> ([], s)
      | Some en \<Rightarrow>
          if cutoff < ze_lastUsed en then ([], s)
          else case sweep_lru cutoff es (retireZstdLocked e s) of (vs, s') \<Rightarrow> (e # vs, s'))"

text \<open>
  The critical section of \<^verbatim>\<open>SweepZstdCache\<close>: the files whose removal failed before (\<open>failedList\<close>
  enumerates \<^verbatim>\<open>zstdFailed\<close>) and the idle ones at the front of the list.
\<close>

definition retry_failed :: "nat list \<Rightarrow> zcache \<Rightarrow> zcache" where
  "retry_failed es s = foldl (\<lambda>s e. upd_entry e (\<lambda>en. en\<lparr>ze_phase := Retired\<rparr>) s) (s\<lparr>zc_failed := (\<lambda>_. None)\<rparr>) es"

definition SweepZstd_begin :: "int \<Rightarrow> nat list \<Rightarrow> zcache \<Rightarrow> nat list \<times> zcache" where
  "SweepZstd_begin maxIdle failedList s =
     (case sweep_lru (zc_now s - maxIdle) (zc_lru s) (retry_failed failedList s) of
        (vs, s') \<Rightarrow> (failedList @ vs, s'))"

definition Close_begin :: "zcache \<Rightarrow> zcache" where
  "Close_begin s = s\<lparr>zc_closed := True\<rparr>"

text \<open>\<^verbatim>\<open>SweepZstdCache\<close> when nothing intervenes: the victims are deleted one after the other.\<close>

fun delete_all :: "(nat \<Rightarrow> bool) \<Rightarrow> nat list \<Rightarrow> zcache \<Rightarrow> nat \<times> zcache" where
  "delete_all rmErr [] s = (0, s)"
| "delete_all rmErr (e # es) s =
     (case deleteZstd e (rmErr e) s of
        (ok, s1) \<Rightarrow> (case delete_all rmErr es s1 of (removed, s2) \<Rightarrow> (removed + (if ok then 1 else 0), s2)))"

definition SweepZstdCache :: "int \<Rightarrow> nat list \<Rightarrow> (nat \<Rightarrow> bool) \<Rightarrow> zcache \<Rightarrow> nat \<times> zcache" where
  "SweepZstdCache maxIdle failedList rmErr s =
     (case SweepZstd_begin maxIdle failedList s of (victims, s1) \<Rightarrow> delete_all rmErr victims s1)"

section \<open>The transition system\<close>

text \<open>
  The guards are what the source guarantees where a critical section begins: a waiter holds its
  flight, a lease is closed once, a builder owns the entry it builds and its flight, only retired
  entries are deleted, and temporary files get names no live entry has.  \<^verbatim>\<open>Write\<close> is the sequence of
  passes of \<^verbatim>\<open>reserveZstd\<close> and, in one step with the pass that grants the reservation, the write of
  \<open>k\<close> of the \<open>len\<close> bytes: only the builder reads or writes the size of an entry that is not
  published.
\<close>

inductive zstep :: "zcache \<Rightarrow> zcache \<Rightarrow> bool" where
  z_lease_begin: "zstep s (snd (zstdLease_begin key s))"
| z_lease_end: "zc_flights s key = Some f \<Longrightarrow> 0 < zf_waiters f \<Longrightarrow> zf_finished f \<or> ctxErr \<Longrightarrow>
    zstep s (snd (zstdLease_end key ctxErr s))"
| z_lease_close: "e \<in># zc_leases s \<Longrightarrow> zstep s (lease_Close e s)"
| z_begin_entry: "zc_flights s key = Some f \<Longrightarrow> \<not> zf_finished f \<Longrightarrow>
    (\<And>e en. zc_heap s e = Some en \<Longrightarrow> ze_phase en \<noteq> Dead \<Longrightarrow> ze_path en \<noteq> path) \<Longrightarrow>
    zstep s (beginEntry key path s)"
| z_reserve: "zc_heap s e = Some en \<Longrightarrow> ze_phase en = Building \<Longrightarrow>
    reserve_once e (reservation en len) s = (r, s') \<Longrightarrow> r \<noteq> RGranted \<Longrightarrow> zstep s s'"
| z_write: "zc_heap s e = Some en \<Longrightarrow> ze_phase en = Building \<Longrightarrow> unat len < 2 ^ 63 - 2 ^ 16 \<Longrightarrow>
    reserve_once e (reservation en len) s = (RGranted, s') \<Longrightarrow> k \<le> len \<Longrightarrow> zstep s (writeZstd e k s')"
| z_hash: "zc_heap s e = Some en \<Longrightarrow> ze_phase en = Building \<Longrightarrow> zstep s (hashZstd e h s)"
| z_abandon: "zc_heap s e = Some en \<Longrightarrow> ze_phase en = Building \<Longrightarrow> zstep s (abandonZstd e s)"
| z_publish: "zc_flights s key = Some f \<Longrightarrow> \<not> zf_finished f \<Longrightarrow> zc_heap s e = Some en \<Longrightarrow> ze_phase en = Building \<Longrightarrow>
    ze_key en = key \<Longrightarrow> zstep s (publishZstd key (Inr e) s)"
| z_publish_error: "zc_flights s key = Some f \<Longrightarrow> \<not> zf_finished f \<Longrightarrow> zstep s (publishZstd key (Inl x) s)"
| z_delete: "zc_heap s e = Some en \<Longrightarrow> ze_phase en = Retired \<Longrightarrow> zstep s (snd (deleteZstd e rmErr s))"
| z_missing: "zstep s (snd (removeMissingZstd e s))"
| z_sweep: "0 \<le> maxIdle \<Longrightarrow> distinct fl \<Longrightarrow> set fl = ran (zc_failed s) \<Longrightarrow> zstep s (snd (SweepZstd_begin maxIdle fl s))"
| z_close: "zstep s (Close_begin s)"
| z_tick: "zc_now s \<le> t \<Longrightarrow> zstep s (s\<lparr>zc_now := t\<rparr>)"

definition zinit :: "uint64 \<Rightarrow> nat \<Rightarrow> zcache" where
  "zinit limit semCap =
     \<lparr>zc_heap = (\<lambda>_. None), zc_next = 0, zc_cache = (\<lambda>_. None), zc_bytes = 0, zc_limit = limit, zc_lru = [],
      zc_failed = (\<lambda>_. None), zc_flights = (\<lambda>_. None), zc_keys = [], zc_semCap = semCap, zc_closed = False,
      zc_leases = {#}, zc_now = 0\<rparr>"

inductive zreach :: "uint64 \<Rightarrow> nat \<Rightarrow> zcache \<Rightarrow> bool" for limit semCap where
  zreach_init: "zreach limit semCap (zinit limit semCap)"
| zreach_step: "zreach limit semCap s \<Longrightarrow> zstep s s' \<Longrightarrow> zreach limit semCap s'"

end
