(* ===== verification/ZstdCacheInv.thy ===== *)
theory ZstdCacheInv
  imports ZstdCache
begin

text \<open>
  The invariants of the compressed-NAR cache: who pins an entry and which entries may be evicted, what is
  charged against the budget, which files wait for another removal, and that the list of evictable entries
  is in order of last use.  Each is kept by every critical section, so it holds in every reachable state.
\<close>

section \<open>Pins, leases and the list of evictable entries\<close>

definition flight_pin :: "(string \<rightharpoonup> zflight) \<Rightarrow> nat \<Rightarrow> zentry \<Rightarrow> int" where
  "flight_pin F e en = (case F (ze_key en) of None \<Rightarrow> 0 | Some f \<Rightarrow> if zf_entry f = Some e then 1 else 0)"

lemma flight_pin_nonneg [simp]: "0 \<le> flight_pin F e en"
  by (simp add: flight_pin_def split: option.splits)

definition cached_at :: "(nat \<rightharpoonup> zentry) \<Rightarrow> nat \<Rightarrow> string \<Rightarrow> bool" where
  "cached_at h e k \<longleftrightarrow> (\<exists>en. h e = Some en \<and> ze_phase en = Cached \<and> ze_key en = k)"

definition idle_at :: "(nat \<rightharpoonup> zentry) \<Rightarrow> nat \<Rightarrow> bool" where
  "idle_at h e \<longleftrightarrow> (\<exists>en. h e = Some en \<and> ze_phase en = Cached \<and> ze_pins en = 0)"

definition pins_ok ::
  "(nat \<rightharpoonup> zentry) \<Rightarrow> (string \<rightharpoonup> nat) \<Rightarrow> nat list \<Rightarrow> nat multiset \<Rightarrow> (string \<rightharpoonup> zflight) \<Rightarrow> bool" where
  "pins_ok h c l L F \<longleftrightarrow>
     (\<forall>k e. c k = Some e \<longleftrightarrow> cached_at h e k) \<and>
     distinct l \<and> (\<forall>e. e \<in> set l \<longleftrightarrow> idle_at h e) \<and>
     (\<forall>e en. h e = Some en \<longrightarrow> ze_pins en = int (count L e) + flight_pin F e en) \<and>
     (\<forall>e. e \<in># L \<longrightarrow> (\<exists>k. cached_at h e k)) \<and>
     (\<forall>k f e. F k = Some f \<and> zf_entry f = Some e \<longrightarrow> zf_finished f \<and> cached_at h e k) \<and>
     (\<forall>k f. F k = Some f \<and> \<not> zf_finished f \<longrightarrow> c k = None)"

lemma pins_okD:
  assumes "pins_ok h c l L F"
  shows "c k = Some e \<longleftrightarrow> cached_at h e k" and "distinct l" and "e \<in> set l \<longleftrightarrow> idle_at h e"
    and "h e = Some en \<Longrightarrow> ze_pins en = int (count L e) + flight_pin F e en"
    and "e \<in># L \<Longrightarrow> \<exists>k. cached_at h e k"
    and "F k = Some f \<Longrightarrow> zf_entry f = Some e \<Longrightarrow> zf_finished f \<and> cached_at h e k"
    and "F k = Some f \<Longrightarrow> \<not> zf_finished f \<Longrightarrow> c k = None"
  using assms unfolding pins_ok_def by blast+

lemma pins_okI:
  assumes "\<And>k e. c k = Some e \<longleftrightarrow> cached_at h e k" and "distinct l" and "\<And>e. e \<in> set l \<longleftrightarrow> idle_at h e"
    and "\<And>e en. h e = Some en \<Longrightarrow> ze_pins en = int (count L e) + flight_pin F e en"
    and "\<And>e. e \<in># L \<Longrightarrow> \<exists>k. cached_at h e k"
    and "\<And>k f e. F k = Some f \<Longrightarrow> zf_entry f = Some e \<Longrightarrow> zf_finished f \<and> cached_at h e k"
    and "\<And>k f. F k = Some f \<Longrightarrow> \<not> zf_finished f \<Longrightarrow> c k = None"
  shows "pins_ok h c l L F"
  using assms unfolding pins_ok_def by blast

text \<open>Changing a pin count keeps key and phase.\<close>

lemma cached_at_upd:
  "h e = Some en \<Longrightarrow> ze_phase (g en) = ze_phase en \<Longrightarrow> ze_key (g en) = ze_key en \<Longrightarrow>
   cached_at (h(e \<mapsto> g en)) x k \<longleftrightarrow> cached_at h x k"
  by (auto simp: cached_at_def)

lemma idle_at_upd:
  "idle_at (h(e \<mapsto> en')) x \<longleftrightarrow> (if x = e then ze_phase en' = Cached \<and> ze_pins en' = 0 else idle_at h x)"
  by (auto simp: idle_at_def)

lemma pins_ok_pin:
  assumes ok: "pins_ok h c l L F" and e: "h e = Some en" "ze_phase en = Cached"
  shows "pins_ok (h(e \<mapsto> en\<lparr>ze_pins := ze_pins en + 1\<rparr>)) c (remove1 e l) (add_mset e L) F"
proof (rule pins_okI)
  note cached = cached_at_upd [of h e en "\<lambda>en. en\<lparr>ze_pins := ze_pins en + 1\<rparr>", OF e(1)]
  show "c k = Some x \<longleftrightarrow> cached_at (h(e \<mapsto> en\<lparr>ze_pins := ze_pins en + 1\<rparr>)) x k" for k x
    using pins_okD(1) [OF ok] cached by simp
  show "distinct (remove1 e l)" using pins_okD(2) [OF ok] by simp
  show "x \<in> set (remove1 e l) \<longleftrightarrow> idle_at (h(e \<mapsto> en\<lparr>ze_pins := ze_pins en + 1\<rparr>)) x" for x
    using pins_okD(2,3) [OF ok] pins_okD(4) [OF ok e(1)] flight_pin_nonneg [of F e en]
    by (auto simp: idle_at_upd simp del: flight_pin_nonneg)
  show "ze_pins x' = int (count (add_mset e L) x) + flight_pin F x x'"
    if "(h(e \<mapsto> en\<lparr>ze_pins := ze_pins en + 1\<rparr>)) x = Some x'" for x x'
    using that pins_okD(4) [OF ok] e by (auto simp: flight_pin_def split: if_splits)
  show "\<exists>k. cached_at (h(e \<mapsto> en\<lparr>ze_pins := ze_pins en + 1\<rparr>)) x k" if "x \<in># add_mset e L" for x
    using that pins_okD(5) [OF ok] e cached by (auto simp: cached_at_def)
  show "zf_finished f \<and> cached_at (h(e \<mapsto> en\<lparr>ze_pins := ze_pins en + 1\<rparr>)) x k" if "F k = Some f" "zf_entry f = Some x" for k f x
    using pins_okD(6) [OF ok that] cached by simp
  show "c k = None" if "F k = Some f" "\<not> zf_finished f" for k f
    using pins_okD(7) [OF ok that] .
qed

text \<open>Giving up one pin, with the accounting of who held it in \<open>L'\<close> and \<open>F'\<close>.\<close>

definition unpin_entry :: "int \<Rightarrow> zentry \<Rightarrow> zentry" where
  "unpin_entry now en =
     (if ze_pins en - 1 = 0 then en\<lparr>ze_pins := 0, ze_lastUsed := now\<rparr> else en\<lparr>ze_pins := ze_pins en - 1\<rparr>)"

lemma unpin_entry_simps [simp]:
  "ze_pins (unpin_entry now en) = ze_pins en - 1" "ze_phase (unpin_entry now en) = ze_phase en"
  "ze_key (unpin_entry now en) = ze_key en" "ze_charged (unpin_entry now en) = ze_charged en"
  "ze_path (unpin_entry now en) = ze_path en"
  by (simp_all add: unpin_entry_def)

lemma unpinZstdLocked_eq:
  "zc_heap s e = Some en \<Longrightarrow>
   unpinZstdLocked e s = s\<lparr>zc_heap := (zc_heap s)(e \<mapsto> unpin_entry (zc_now s) en),
     zc_lru := zc_lru s @ (if ze_pins en - 1 = 0 then [e] else [])\<rparr>"
  by (simp add: unpinZstdLocked_def unpin_entry_def upd_entry_def)

lemma pins_ok_unpin:
  assumes ok: "pins_ok h c l L F" and e: "h e = Some en" "ze_phase en = Cached" "0 < ze_pins en"
    and acct: "ze_pins en - 1 = int (count L' e) + flight_pin F' e en"
      "\<And>x xn. x \<noteq> e \<Longrightarrow> h x = Some xn \<Longrightarrow> int (count L' x) + flight_pin F' x xn = int (count L x) + flight_pin F x xn"
    and sub: "\<And>x. x \<in># L' \<Longrightarrow> x \<in># L" "\<And>k f. F' k = Some f \<Longrightarrow> F k = Some f"
  shows "pins_ok (h(e \<mapsto> unpin_entry now en)) c (l @ (if ze_pins en - 1 = 0 then [e] else [])) L' F'"
proof (rule pins_okI)
  note cached = cached_at_upd [of h e en "unpin_entry now", OF e(1), simplified]
  have notin: "e \<notin> set l" using pins_okD(3) [OF ok] e by (simp add: idle_at_def)
  show "c k = Some x \<longleftrightarrow> cached_at (h(e \<mapsto> unpin_entry now en)) x k" for k x
    using pins_okD(1) [OF ok] cached by simp
  show "distinct (l @ (if ze_pins en - 1 = 0 then [e] else []))" using pins_okD(2) [OF ok] notin by simp
  show "x \<in> set (l @ (if ze_pins en - 1 = 0 then [e] else [])) \<longleftrightarrow> idle_at (h(e \<mapsto> unpin_entry now en)) x" for x
    using pins_okD(3) [OF ok] notin e by (auto simp: idle_at_upd)
  show "ze_pins xn = int (count L' x) + flight_pin F' x xn" if "(h(e \<mapsto> unpin_entry now en)) x = Some xn" for x xn
    using that pins_okD(4) [OF ok] acct by (auto simp: flight_pin_def split: if_splits)
  show "\<exists>k. cached_at (h(e \<mapsto> unpin_entry now en)) x k" if "x \<in># L'" for x
    using pins_okD(5) [OF ok sub(1) [OF that]] cached by simp
  show "zf_finished f \<and> cached_at (h(e \<mapsto> unpin_entry now en)) x k" if "F' k = Some f" "zf_entry f = Some x" for k f x
    using pins_okD(6) [OF ok sub(2) [OF that(1)] that(2)] cached by simp
  show "c k = None" if "F' k = Some f" "\<not> zf_finished f" for k f
    using pins_okD(7) [OF ok sub(2) [OF that(1)] that(2)] .
qed

text \<open>Updates that do not touch what pins are about.\<close>

lemma pins_ok_same:
  assumes ok: "pins_ok h c l L F" and e: "h e = Some en"
    and same: "ze_pins en' = ze_pins en" "ze_key en' = ze_key en"
      "ze_phase en' = ze_phase en \<or> (ze_phase en \<noteq> Cached \<and> ze_phase en' \<noteq> Cached)"
  shows "pins_ok (h(e \<mapsto> en')) c l L F"
proof -
  have cached: "cached_at (h(e \<mapsto> en')) x k \<longleftrightarrow> cached_at h x k" for x k
    using e same by (auto simp: cached_at_def)
  have idle: "idle_at (h(e \<mapsto> en')) x \<longleftrightarrow> idle_at h x" for x
    using e same by (auto simp: idle_at_def)
  have "ze_pins xn = int (count L x) + flight_pin F x xn" if "(h(e \<mapsto> en')) x = Some xn" for x xn
    using that pins_okD(4) [OF ok, of x] e same by (auto simp: flight_pin_def split: if_splits)
  then show ?thesis
    using ok unfolding pins_ok_def cached idle by blast
qed

lemma pins_ok_retire:
  assumes ok: "pins_ok h c l L F" and e: "h e = Some en" "ze_phase en = Cached" "ze_pins en = 0"
  shows "pins_ok (h(e \<mapsto> en\<lparr>ze_phase := Retired\<rparr>)) (c(ze_key en := None)) (remove1 e l) L F"
proof (rule pins_okI)
  let ?h = "h(e \<mapsto> en\<lparr>ze_phase := Retired\<rparr>)"
  have ce: "c (ze_key en) = Some e" using pins_okD(1) [OF ok] e by (simp add: cached_at_def)
  have none: "count L e = 0" "flight_pin F e en = 0" using pins_okD(4) [OF ok e(1)] e(3) flight_pin_nonneg [of F e en]
    by linarith+
  have nof: "zf_entry f \<noteq> Some e" if "F k = Some f" for k f
    using pins_okD(6) [OF ok that, of e] none(2) e(1) that by (auto simp: cached_at_def flight_pin_def)
  have cached: "cached_at ?h x k \<longleftrightarrow> cached_at h x k \<and> x \<noteq> e" for x k
    by (auto simp: cached_at_def)
  show "(c(ze_key en := None)) k = Some x \<longleftrightarrow> cached_at ?h x k" for k x
    using pins_okD(1) [OF ok, of k x] ce e(1) unfolding cached by (auto simp: cached_at_def)
  show "distinct (remove1 e l)" using pins_okD(2) [OF ok] by simp
  show "x \<in> set (remove1 e l) \<longleftrightarrow> idle_at ?h x" for x
    using pins_okD(2,3) [OF ok] by (auto simp: idle_at_upd)
  show "ze_pins xn = int (count L x) + flight_pin F x xn" if "?h x = Some xn" for x xn
    using that pins_okD(4) [OF ok] none e by (auto simp: flight_pin_def split: if_splits)
  show "\<exists>k. cached_at ?h x k" if "x \<in># L" for x
    using pins_okD(5) [OF ok that] none(1) that unfolding cached by (metis count_eq_zero_iff)
  show "zf_finished f \<and> cached_at ?h x k" if "F k = Some f" "zf_entry f = Some x" for k f x
    using pins_okD(6) [OF ok that] nof [OF that(1)] that unfolding cached by blast
  show "(c(ze_key en := None)) k = None" if "F k = Some f" "\<not> zf_finished f" for k f
    using pins_okD(7) [OF ok that] by simp
qed

lemma pins_ok_flights:
  assumes ok: "pins_ok h c l L F" and k: "c k = None \<or> zf_finished f"
    and f: "zf_entry f = (case F k of None \<Rightarrow> None | Some f0 \<Rightarrow> zf_entry f0)"
      "\<And>f0. F k = Some f0 \<Longrightarrow> zf_finished f0 \<Longrightarrow> zf_finished f"
  shows "pins_ok h c l L (F(k \<mapsto> f))"
proof (rule pins_okI)
  show "ze_pins xn = int (count L x) + flight_pin (F(k \<mapsto> f)) x xn" if "h x = Some xn" for x xn
    using pins_okD(4) [OF ok that] f(1) by (auto simp: flight_pin_def split: option.splits)
  show "zf_finished f' \<and> cached_at h x k'" if F': "(F(k \<mapsto> f)) k' = Some f'" "zf_entry f' = Some x" for k' f' x
  proof (cases "k' = k")
    case True
    then obtain f0 where "F k = Some f0" "zf_entry f0 = Some x"
      using F' f(1) by (cases "F k") auto
    then show ?thesis using pins_okD(6) [OF ok, of k f0 x] f(2) [of f0] True F'(1) by simp
  next
    case False
    then show ?thesis using F' pins_okD(6) [OF ok, of k' f' x] by simp
  qed
  show "c k' = None" if "(F(k \<mapsto> f)) k' = Some f'" "\<not> zf_finished f'" for k' f'
    using that pins_okD(7) [OF ok] k by (cases "k' = k") auto
qed (use pins_okD [OF ok] in auto)

lemma pins_ok_drop_flight:
  assumes ok: "pins_ok h c l L F" and "\<And>f. F k = Some f \<Longrightarrow> zf_entry f = None"
  shows "pins_ok h c l L (F(k := None))"
proof (rule pins_okI)
  show "ze_pins xn = int (count L x) + flight_pin (F(k := None)) x xn" if "h x = Some xn" for x xn
    using pins_okD(4) [OF ok that] assms(2) by (auto simp: flight_pin_def split: option.splits)
  show "zf_finished f' \<and> cached_at h x k'" if "(F(k := None)) k' = Some f'" "zf_entry f' = Some x" for k' f' x
    using that pins_okD(6) [OF ok] by (cases "k' = k") auto
  show "c k' = None" if "(F(k := None)) k' = Some f'" "\<not> zf_finished f'" for k' f'
    using that pins_okD(7) [OF ok] by (cases "k' = k") auto
qed (use pins_okD [OF ok] in auto)

lemma pins_ok_new:
  assumes ok: "pins_ok h c l L F" and "h e = None" and "ze_phase en = Building" and "ze_pins en = 0"
  shows "pins_ok (h(e \<mapsto> en)) c l L F"
proof (rule pins_okI)
  have cached: "cached_at (h(e \<mapsto> en)) x k \<longleftrightarrow> cached_at h x k" for x k
    using assms(2,3) by (auto simp: cached_at_def)
  have idle: "idle_at (h(e \<mapsto> en)) x \<longleftrightarrow> idle_at h x" for x
    using assms(2,3) by (auto simp: idle_at_def)
  have none: "count L e = 0" "F k = Some f \<Longrightarrow> zf_entry f \<noteq> Some e" for k f
    using pins_okD(5) [OF ok, of e] pins_okD(6) [OF ok, of k f e] assms(2)
    by (auto simp: cached_at_def not_in_iff [symmetric])
  show "ze_pins xn = int (count L x) + flight_pin F x xn" if "(h(e \<mapsto> en)) x = Some xn" for x xn
    using that pins_okD(4) [OF ok] none assms(4) by (auto simp: flight_pin_def split: if_splits option.splits)
  show "c k = Some x \<longleftrightarrow> cached_at (h(e \<mapsto> en)) x k" for k x using pins_okD(1) [OF ok] cached by simp
  show "x \<in> set l \<longleftrightarrow> idle_at (h(e \<mapsto> en)) x" for x using pins_okD(3) [OF ok] idle by simp
  show "\<exists>k. cached_at (h(e \<mapsto> en)) x k" if "x \<in># L" for x using pins_okD(5) [OF ok that] cached by simp
  show "zf_finished f \<and> cached_at (h(e \<mapsto> en)) x k" if "F k = Some f" "zf_entry f = Some x" for k f x
    using pins_okD(6) [OF ok that] cached by simp
  show "c k = None" if "F k = Some f" "\<not> zf_finished f" for k f using pins_okD(7) [OF ok that] .
qed (use pins_okD(2) [OF ok] in auto)

text \<open>A finished entry enters the cache, pinned by its flight or idle.\<close>

lemma pins_ok_publish:
  assumes ok: "pins_ok h c l L F" and e: "h e = Some en" "ze_phase en = Building" "ze_key en = k"
    and F: "F k = Some f" "\<not> zf_finished f" and en': "ze_phase en' = Cached" "ze_key en' = k"
    and f': "zf_finished f'" "zf_entry f' = Some e"
  shows "ze_pins en' = 1 \<Longrightarrow> pins_ok (h(e \<mapsto> en')) (c(k \<mapsto> e)) l L (F(k \<mapsto> f'))"
    and "ze_pins en' = 0 \<Longrightarrow> pins_ok (h(e \<mapsto> en')) (c(k \<mapsto> e)) (l @ [e]) L (F(k := None))"
proof -
  have ck: "c k = None" using pins_okD(7) [OF ok F] .
  have cached: "cached_at (h(e \<mapsto> en')) x j \<longleftrightarrow> cached_at h x j \<or> (x = e \<and> j = k)" for x j
    using e en' by (auto simp: cached_at_def)
  have notk: "\<not> cached_at h x k" for x using pins_okD(1) [OF ok, of k x] ck by simp
  have none: "count L e = 0" "F j = Some g \<Longrightarrow> zf_entry g \<noteq> Some e" for j g
    using pins_okD(5) [OF ok, of e] pins_okD(6) [OF ok, of j g e] e
    by (auto simp: cached_at_def not_in_iff [symmetric])
  have fnone: "zf_entry f = None" using pins_okD(6) [OF ok F(1)] F(2) by (cases "zf_entry f") auto
  have notl: "e \<notin> set l" using pins_okD(3) [OF ok, of e] e by (simp add: idle_at_def)
  have conj1: "(c(k \<mapsto> e)) j = Some x \<longleftrightarrow> cached_at (h(e \<mapsto> en')) x j" for j x
    using pins_okD(1) [OF ok, of j x] ck notk unfolding cached by auto
  have conj5: "\<exists>j. cached_at (h(e \<mapsto> en')) x j" if "x \<in># L" for x
    using pins_okD(5) [OF ok that] unfolding cached by blast
  show "pins_ok (h(e \<mapsto> en')) (c(k \<mapsto> e)) l L (F(k \<mapsto> f'))" if p: "ze_pins en' = 1"
  proof (rule pins_okI)
    show "x \<in> set l \<longleftrightarrow> idle_at (h(e \<mapsto> en')) x" for x
      using pins_okD(3) [OF ok, of x] notl p by (auto simp: idle_at_upd)
    show "ze_pins xn = int (count L x) + flight_pin (F(k \<mapsto> f')) x xn" if "(h(e \<mapsto> en')) x = Some xn" for x xn
      using that pins_okD(4) [OF ok, of x xn] none(1) p en'(2) f' F(1) fnone
      by (auto simp: flight_pin_def split: if_splits)
    show "zf_finished g \<and> cached_at (h(e \<mapsto> en')) x j" if "(F(k \<mapsto> f')) j = Some g" "zf_entry g = Some x" for j g x
      using that pins_okD(6) [OF ok, of j g x] f' unfolding cached by (cases "j = k") auto
    show "(c(k \<mapsto> e)) j = None" if "(F(k \<mapsto> f')) j = Some g" "\<not> zf_finished g" for j g
      using that pins_okD(7) [OF ok, of j g] f' by (cases "j = k") auto
  qed (use conj1 conj5 pins_okD(2) [OF ok] in auto)
  show "pins_ok (h(e \<mapsto> en')) (c(k \<mapsto> e)) (l @ [e]) L (F(k := None))" if p: "ze_pins en' = 0"
  proof (rule pins_okI)
    show "x \<in> set (l @ [e]) \<longleftrightarrow> idle_at (h(e \<mapsto> en')) x" for x
      using pins_okD(3) [OF ok, of x] en' p by (auto simp: idle_at_upd)
    show "ze_pins xn = int (count L x) + flight_pin (F(k := None)) x xn" if "(h(e \<mapsto> en')) x = Some xn" for x xn
      using that pins_okD(4) [OF ok, of x xn] none(1) p en'(2) F(1) fnone
      by (auto simp: flight_pin_def split: if_splits)
    show "zf_finished g \<and> cached_at (h(e \<mapsto> en')) x j" if "(F(k := None)) j = Some g" "zf_entry g = Some x" for j g x
      using that pins_okD(6) [OF ok, of j g x] unfolding cached by (cases "j = k") auto
    show "(c(k \<mapsto> e)) j = None" if "(F(k := None)) j = Some g" "\<not> zf_finished g" for j g
      using that pins_okD(7) [OF ok, of j g] by (cases "j = k") auto
  qed (use conj1 conj5 pins_okD(2) [OF ok] notl in auto)
qed

text \<open>The invariant on states, and that each critical section keeps it.\<close>

definition zpins :: "zcache \<Rightarrow> bool" where
  "zpins s \<longleftrightarrow> pins_ok (zc_heap s) (zc_cache s) (zc_lru s) (zc_leases s) (zc_flights s) \<and>
     (\<forall>k f. zc_flights s k = Some f \<and> zf_finished f \<and> zf_err f = None \<longrightarrow> zf_entry f \<noteq> None) \<and>
     (\<forall>e. zc_next s \<le> e \<longrightarrow> zc_heap s e = None)"

lemma zpinsD:
  assumes "zpins s"
  shows "pins_ok (zc_heap s) (zc_cache s) (zc_lru s) (zc_leases s) (zc_flights s)"
    and "zc_flights s k = Some f \<Longrightarrow> zf_finished f \<Longrightarrow> zf_err f = None \<Longrightarrow> zf_entry f \<noteq> None"
    and "zc_next s \<le> e \<Longrightarrow> zc_heap s e = None"
  using assms unfolding zpins_def by blast+

lemma zpins_cached: "zpins s \<Longrightarrow> zc_cache s k = Some e \<Longrightarrow> \<exists>en. zc_heap s e = Some en \<and> ze_phase en = Cached \<and> ze_key en = k"
  using pins_okD(1) [OF zpinsD(1), of s k e] by (simp add: cached_at_def)

lemma zpins_idle: "zpins s \<Longrightarrow> e \<in> set (zc_lru s) \<Longrightarrow> \<exists>en. zc_heap s e = Some en \<and> ze_phase en = Cached \<and> ze_pins en = 0"
  using pins_okD(3) [OF zpinsD(1), of s e] by (simp add: idle_at_def)

lemma zpins_upd_heap:
  assumes "zpins s" "zc_heap s e = Some en" and "ze_pins (g en) = ze_pins en" "ze_key (g en) = ze_key en"
    "ze_phase (g en) = ze_phase en \<or> (ze_phase en \<noteq> Cached \<and> ze_phase (g en) \<noteq> Cached)"
  shows "zpins (upd_entry e g s)"
  using assms pins_ok_same [OF zpinsD(1) [OF assms(1)] assms(2), of "g en"] by (auto simp: zpins_def)

lemma zpins_retire:
  assumes "zpins s" "zc_heap s e = Some en" "ze_phase en = Cached" "ze_pins en = 0"
  shows "zpins (retireZstdLocked e s)"
  using assms pins_ok_retire [OF zpinsD(1) [OF assms(1)] assms(2-)] by (auto simp: zpins_def retireZstdLocked_def)

lemma zpins_pin:
  assumes "zpins s" "zc_heap s e = Some en" "ze_phase en = Cached"
  shows "zpins (pinZstdLocked e s)"
  using assms pins_ok_pin [OF zpinsD(1) [OF assms(1)] assms(2-)] by (auto simp: zpins_def pinZstdLocked_def)

lemma zpins_lease_begin: 
  assumes "zpins s"
  shows "zpins (snd (zstdLease_begin key s))"
proof (cases "zc_closed s")
  case False
  note ok = zpinsD [OF assms]
  show ?thesis
  proof (cases "zc_cache s key")
    case (Some e)
    then show ?thesis
      using False zpins_cached [OF assms Some] zpins_pin [OF assms] by (auto simp: zstdLease_begin_def)
  next
    case None
    note start = pins_ok_flights [OF ok(1), of key new_flight]
    note join = pins_ok_flights [OF ok(1), of key "f\<lparr>zf_waiters := zf_waiters f + 1\<rparr>" for f]
    show ?thesis
      using False None start join ok
      by (auto simp: zstdLease_begin_def zpins_def new_flight_def split: option.splits)
  qed
qed (simp add: zstdLease_begin_def assms)

lemma zpins_lease_close:
  assumes "zpins s" "e \<in># zc_leases s"
  shows "zpins (lease_Close e s)"
proof -
  note ok = zpinsD [OF assms(1)]
  obtain en where en: "zc_heap s e = Some en" "ze_phase en = Cached"
    using pins_okD(5) [OF ok(1) assms(2)] by (auto simp: cached_at_def)
  have pos: "0 < ze_pins en" "ze_pins en - 1 = int (count (zc_leases s - {#e#}) e) + flight_pin (zc_flights s) e en"
    using pins_okD(4) [OF ok(1) en(1)] assms(2) flight_pin_nonneg [of "zc_flights s" e en]
    by (auto simp del: flight_pin_nonneg simp flip: count_greater_zero_iff)
  have "pins_ok ((zc_heap s)(e \<mapsto> unpin_entry (zc_now s) en)) (zc_cache s)
      (zc_lru s @ (if ze_pins en - 1 = 0 then [e] else [])) (zc_leases s - {#e#}) (zc_flights s)"
    by (rule pins_ok_unpin [OF ok(1) en pos]) (auto dest: in_diffD)
  then show ?thesis
    using ok(2-3) en by (auto simp: zpins_def lease_Close_def unpinZstdLocked_eq)
qed

lemma pins_ok_drop_last:
  assumes ok: "pins_ok h c l L F" and F: "F k = Some f" "zf_entry f = Some e" and e: "h e = Some en"
  shows "pins_ok (h(e \<mapsto> unpin_entry now en)) c (l @ (if ze_pins en - 1 = 0 then [e] else [])) L (F(k := None))"
proof (rule pins_ok_unpin [OF ok e])
  have c: "ze_phase en = Cached" "ze_key en = k" 
    using pins_okD(6) [OF ok F] e by (auto simp: cached_at_def)
  then show "ze_phase en = Cached" by simp
  have p: "ze_pins en = int (count L e) + 1"
    using pins_okD(4) [OF ok e] c F by (simp add: flight_pin_def)
  then show "0 < ze_pins en" by simp
  show "ze_pins en - 1 = int (count L e) + flight_pin (F(k := None)) e en"
    using p c by (simp add: flight_pin_def)
  show "int (count L x) + flight_pin (F(k := None)) x xn = int (count L x) + flight_pin F x xn"
    if "x \<noteq> e" "h x = Some xn" for x xn
    using that F by (auto simp: flight_pin_def)
qed (auto split: if_splits)


lemma zpins_flight:
  assumes "zpins s" "zc_flights s k = Some f" "zf_entry f = Some e"
  shows "zf_finished f" "\<exists>en. zc_heap s e = Some en \<and> ze_phase en = Cached \<and> ze_key en = k"
  using pins_okD(6) [OF zpinsD(1) [OF assms(1)] assms(2,3)] by (simp_all add: cached_at_def)

text \<open>A waiter that leaves: it may be the last one to hold the flight.\<close>

definition leave_flight :: "string \<Rightarrow> zflight \<Rightarrow> zcache \<Rightarrow> zcache" where
  "leave_flight key f s =
     (if zf_waiters f - 1 = 0 \<and> zf_finished f
      then (case zf_entry f of Some e \<Rightarrow> unpinZstdLocked e s | None \<Rightarrow> s)
             \<lparr>zc_flights := (zc_flights s)(key := None), zc_keys := removeAll key (zc_keys s)\<rparr>
      else s\<lparr>zc_flights := (zc_flights s)(key \<mapsto> f\<lparr>zf_waiters := zf_waiters f - 1\<rparr>)\<rparr>)"

lemma pinZstdLocked_simps [simp]:
  "zc_flights (pinZstdLocked e s) = zc_flights s" "zc_keys (pinZstdLocked e s) = zc_keys s"
  "zc_cache (pinZstdLocked e s) = zc_cache s" "zc_bytes (pinZstdLocked e s) = zc_bytes s"
  "zc_limit (pinZstdLocked e s) = zc_limit s" "zc_now (pinZstdLocked e s) = zc_now s"
  "zc_next (pinZstdLocked e s) = zc_next s" "zc_failed (pinZstdLocked e s) = zc_failed s"
  "zc_semCap (pinZstdLocked e s) = zc_semCap s" "zc_closed (pinZstdLocked e s) = zc_closed s"
  by (simp_all add: pinZstdLocked_def)

lemma zstdLease_end_leave:
  "zc_flights s key = Some f \<Longrightarrow>
   snd (zstdLease_end key ctxErr s) =
     leave_flight key f (case (lease_error ctxErr f s, zf_entry f) of (None, Some e) \<Rightarrow> pinZstdLocked e s | _ \<Rightarrow> s)"
  by (auto simp: zstdLease_end_def leave_flight_def Let_def split: option.splits)

lemma zpins_leave:
  assumes "zpins s" and f: "zc_flights s key = Some f"
  shows "zpins (leave_flight key f s)"
proof (cases "zf_waiters f - 1 = 0 \<and> zf_finished f")
  case True
  note ok = zpinsD [OF assms(1)]
  show ?thesis
  proof (cases "zf_entry f")
    case None
    then show ?thesis
      using True f ok pins_ok_drop_flight [OF ok(1), of key] by (auto simp: leave_flight_def zpins_def)
  next
    case (Some e)
    then obtain en where "zc_heap s e = Some en" using zpins_flight [OF assms] by blast
    then show ?thesis
      using True Some ok pins_ok_drop_last [OF ok(1) f Some, of en "zc_now s"]
      by (auto simp: leave_flight_def zpins_def unpinZstdLocked_eq)
  qed
next
  case False
  note ok = zpinsD [OF assms(1)]
  have "zc_cache s key = None \<or> zf_finished f" using pins_okD(7) [OF ok(1) f] by blast
  then have "pins_ok (zc_heap s) (zc_cache s) (zc_lru s) (zc_leases s)
      ((zc_flights s)(key \<mapsto> f\<lparr>zf_waiters := zf_waiters f - 1\<rparr>))"
    by (intro pins_ok_flights [OF ok(1)]) (simp_all add: f)
  then show ?thesis
    using False f ok(2,3) by (auto simp: leave_flight_def zpins_def)
qed

lemma zpins_lease_end:
  assumes "zpins s" and f: "zc_flights s key = Some f"
  shows "zpins (snd (zstdLease_end key ctxErr s))"
proof -
  let ?s = "case (lease_error ctxErr f s, zf_entry f) of (None, Some e) \<Rightarrow> pinZstdLocked e s | _ \<Rightarrow> s"
  have "zpins ?s"
  proof (cases "zf_entry f")
    case (Some e)
    then show ?thesis
      using zpins_flight(2) [OF assms Some] zpins_pin [OF assms(1)] assms(1) by (auto split: option.splits)
  qed (simp add: assms(1) split: option.splits)
  moreover have "zc_flights ?s key = Some f" using f by (auto split: option.splits)
  ultimately show ?thesis unfolding zstdLease_end_leave [OF f] by (rule zpins_leave)
qed

lemma zpins_begin_entry: "zpins s \<Longrightarrow> zpins (beginEntry key path s)"
  using pins_ok_new [OF zpinsD(1), of s "zc_next s"] by (auto simp: zpins_def beginEntry_def)

lemma zpins_publish:
  assumes "zpins s" and f: "zc_flights s key = Some f" "\<not> zf_finished f"
    and e: "zc_heap s e = Some en" "ze_phase en = Building" "ze_key en = key"
  shows "zpins (publishZstd key (Inr e) s)"
proof -
  note ok = zpinsD [OF assms(1)]
  have p: "ze_pins en = 0"
  proof -
    have "e \<notin># zc_leases s" using pins_okD(5) [OF ok(1), of e] e by (auto simp: cached_at_def)
    moreover have "flight_pin (zc_flights s) e en = 0"
      using pins_okD(6) [OF ok(1) f(1), of e] f e by (auto simp: flight_pin_def)
    ultimately show ?thesis using pins_okD(4) [OF ok(1) e(1)] by (simp add: not_in_iff)
  qed
  let ?f = "f\<lparr>zf_entry := Some e, zf_err := None, zf_finished := True\<rparr>"
  note pub = pins_ok_publish [OF ok(1) e f, of "en\<lparr>ze_pins := 1, ze_phase := Cached\<rparr>" ?f]
    pins_ok_publish [OF ok(1) e f, of "en\<lparr>ze_lastUsed := zc_now s, ze_phase := Cached\<rparr>" ?f]
  show ?thesis
    using ok(2-3) pub e(1,3) f p by (cases "zf_waiters f = 0") (auto simp: publishZstd_def zpins_def)
qed

lemma zpins_publish_error:
  assumes "zpins s" and f: "zc_flights s key = Some f" "\<not> zf_finished f"
  shows "zpins (publishZstd key (Inl x) s)"
proof -
  note ok = zpinsD [OF assms(1)]
  have none: "zf_entry f = None" using pins_okD(6) [OF ok(1) f(1)] f(2) by (cases "zf_entry f") auto
  let ?f = "f\<lparr>zf_entry := None, zf_err := Some x, zf_finished := True\<rparr>"
  show ?thesis
    using ok(2-3) f none pins_ok_flights [OF ok(1), of key ?f] pins_ok_drop_flight [OF ok(1), of key]
    by (cases "zf_waiters f = 0") (auto simp: publishZstd_def zpins_def)
qed

lemma zpins_cong:
  "zpins s \<Longrightarrow> zc_heap s' = zc_heap s \<Longrightarrow> zc_cache s' = zc_cache s \<Longrightarrow> zc_lru s' = zc_lru s \<Longrightarrow>
   zc_leases s' = zc_leases s \<Longrightarrow> zc_flights s' = zc_flights s \<Longrightarrow> zc_next s' = zc_next s \<Longrightarrow> zpins s'"
  unfolding zpins_def by metis

lemma zpins_reserve:
  assumes "zpins s" "zc_heap s e = Some en"
  shows "zpins (snd (reserve_once e extra s))"
proof -
  have "zpins (upd_entry e (\<lambda>en. en\<lparr>ze_charged := ze_charged en + extra\<rparr>) s)"
    by (rule zpins_upd_heap [OF assms]) simp_all
  from zpins_cong [OF this] have "zpins ((upd_entry e (\<lambda>en. en\<lparr>ze_charged := ze_charged en + extra\<rparr>) s)\<lparr>zc_bytes := b\<rparr>)" for b
    by simp
  moreover have "zpins (retireZstdLocked v s)" if "zc_lru s = v # vs" for v vs
    using zpins_idle [OF assms(1), of v] that zpins_retire [OF assms(1)] by auto
  ultimately show ?thesis
    using assms(1) by (auto simp: reserve_once_def split: list.splits)
qed

lemma zpins_delete:
  assumes "zpins s" "zc_heap s e = Some en" "ze_phase en = Retired"
  shows "zpins (snd (deleteZstd e rmErr s))"
proof -
  have "zpins (upd_entry e (\<lambda>en. en\<lparr>ze_charged := 0, ze_phase := Dead\<rparr>) s)"
    "zpins (upd_entry e (\<lambda>en. en\<lparr>ze_phase := Failed\<rparr>) s)"
    using assms(3) by (auto intro: zpins_upd_heap [OF assms(1,2)])
  then show ?thesis
    using assms(2) by (auto simp: deleteZstd_def elim: zpins_cong)
qed

lemma zpins_missing:
  assumes "zpins s"
  shows "zpins (snd (removeMissingZstd e s))"
proof (cases "zc_heap s e")
  case (Some en)
  then show ?thesis
    using assms zpins_cached [OF assms, of "ze_key en" e] zpins_retire [OF assms Some]
    by (auto simp: removeMissingZstd_def)
qed (simp add: removeMissingZstd_def assms)

lemma zpins_sweep_lru:
  "zpins s \<Longrightarrow> zc_lru s = es \<Longrightarrow> zpins (snd (sweep_lru cutoff es s))"
proof (induction es arbitrary: s)
  case (Cons e es)
  obtain en where en: "zc_heap s e = Some en" "ze_phase en = Cached" "ze_pins en = 0"
    using zpins_idle [OF Cons.prems(1), of e] Cons.prems(2) by auto
  have "zpins (retireZstdLocked e s)" using zpins_retire [OF Cons.prems(1) en] .
  moreover have "zc_lru (retireZstdLocked e s) = es"
    using en Cons.prems(2) by (simp add: retireZstdLocked_def)
  ultimately have "zpins (snd (sweep_lru cutoff es (retireZstdLocked e s)))" by (rule Cons.IH)
  then show ?case
    using Cons.prems(1) en by (auto split: prod.splits)
qed simp


text \<open>
  The retries of a sweep, one after the other: each gives an entry of \<open>zc_failed\<close> back to the
  sweeper, which deletes it again.
\<close>

lemma retry_failed_induct [consumes 1, case_names clear step]:
  assumes "\<And>e. e \<in> set es \<Longrightarrow> \<exists>en. zc_heap s e = Some en \<and> ze_phase en = Failed" "distinct es"
    and "P (s\<lparr>zc_failed := (\<lambda>_. None)\<rparr>)"
    and "\<And>t e en. P t \<Longrightarrow> zc_heap t e = Some en \<Longrightarrow> ze_phase en = Failed \<Longrightarrow>
           P (upd_entry e (\<lambda>en. en\<lparr>ze_phase := Retired\<rparr>) t)"
  shows "P (retry_failed es s)"
proof -
  have "P (foldl (\<lambda>s e. upd_entry e (\<lambda>en. en\<lparr>ze_phase := Retired\<rparr>) s) t es)"
    if "P t" "\<And>e. e \<in> set es \<Longrightarrow> \<exists>en. zc_heap t e = Some en \<and> ze_phase en = Failed" for t
    using that assms(2)
  proof (induction es arbitrary: t)
    case (Cons e es)
    obtain en where en: "zc_heap t e = Some en" "ze_phase en = Failed" using Cons.prems(2) [of e] by auto
    have "P (upd_entry e (\<lambda>en. en\<lparr>ze_phase := Retired\<rparr>) t)" using assms(4) [OF Cons.prems(1) en] .
    then show ?case
      using Cons.prems(2,3) by (auto intro!: Cons.IH)
  qed simp
  then show ?thesis using assms(1,3) by (simp add: retry_failed_def)
qed

section \<open>The byte budget\<close>

definition entry_sum :: "(zentry \<Rightarrow> nat) \<Rightarrow> (nat \<rightharpoonup> zentry) \<Rightarrow> nat \<Rightarrow> nat" where
  "entry_sum w h n = (\<Sum>e<n. case h e of None \<Rightarrow> 0 | Some en \<Rightarrow> w en)"

definition on_disk :: "zentry \<Rightarrow> nat" where
  "on_disk en = (if ze_phase en = Dead then 0 else unat (ze_size en))"

definition charge :: "zentry \<Rightarrow> nat" where
  "charge en = unat (ze_charged en)"

lemma entry_sum_upd:
  assumes "e < n" "h e = Some en"
  shows "entry_sum w (h(e \<mapsto> en')) n + w en = entry_sum w h n + w en'"
proof -
  have "entry_sum w h n = w en + (\<Sum>x\<in>{..<n} - {e}. case h x of None \<Rightarrow> 0 | Some en \<Rightarrow> w en)"
    unfolding entry_sum_def using assms by (subst sum.remove [of _ e]) auto
  moreover have "entry_sum w (h(e \<mapsto> en')) n = w en' + (\<Sum>x\<in>{..<n} - {e}. case h x of None \<Rightarrow> 0 | Some en \<Rightarrow> w en)"
    unfolding entry_sum_def using assms by (subst sum.remove [of _ e]) auto
  ultimately show ?thesis by simp
qed

lemma entry_sum_new: "entry_sum w (h(n \<mapsto> en)) (Suc n) = entry_sum w h n + w en"
  by (simp add: entry_sum_def)

lemma entry_sum_le: "e < n \<Longrightarrow> h e = Some en \<Longrightarrow> w en \<le> entry_sum w h n"
  unfolding entry_sum_def by (rule order_trans [OF _ member_le_sum [of e]]) auto

lemma entry_sum_mono:
  "(\<And>e en. h e = Some en \<Longrightarrow> v en \<le> w en) \<Longrightarrow> entry_sum v h n \<le> entry_sum w h n"
  unfolding entry_sum_def by (rule sum_mono) (auto split: option.splits)

definition budget_ok :: "(nat \<rightharpoonup> zentry) \<Rightarrow> nat \<Rightarrow> uint64 \<Rightarrow> uint64 \<Rightarrow> bool" where
  "budget_ok h n b lim \<longleftrightarrow> unat b = entry_sum charge h n \<and> b \<le> lim \<and>
     (\<forall>e en. h e = Some en \<longrightarrow> e < n \<and> on_disk en \<le> charge en \<and> (ze_phase en = Dead \<longrightarrow> charge en = 0))"

lemma budget_okD:
  assumes "budget_ok h n b lim"
  shows "unat b = entry_sum charge h n" "b \<le> lim" "h e = Some en \<Longrightarrow> e < n" "h e = Some en \<Longrightarrow> on_disk en \<le> charge en"
    "h e = Some en \<Longrightarrow> ze_phase en = Dead \<Longrightarrow> charge en = 0"
  using assms unfolding budget_ok_def by blast+

text \<open>Every change of one entry that changes the total by as much keeps the budget.\<close>

lemma budget_ok_upd:
  assumes ok: "budget_ok h n b lim" and e: "h e = Some en"
    and b': "unat b' + charge en = unat b + charge en'" "b' \<le> lim"
    and en': "on_disk en' \<le> charge en'" "ze_phase en' = Dead \<Longrightarrow> charge en' = 0"
  shows "budget_ok (h(e \<mapsto> en')) n b' lim"
proof -
  have "entry_sum charge (h(e \<mapsto> en')) n + charge en = entry_sum charge h n + charge en'"
    using budget_okD(3) [OF ok e] e by (rule entry_sum_upd)
  then have "unat b' = entry_sum charge (h(e \<mapsto> en')) n" using budget_okD(1) [OF ok] b'(1) by simp
  moreover have "x < n \<and> on_disk xn \<le> charge xn \<and> (ze_phase xn = Dead \<longrightarrow> charge xn = 0)"
    if "(h(e \<mapsto> en')) x = Some xn" for x xn
    using that en' budget_okD(3-5) [OF ok, of x xn] budget_okD(3) [OF ok e] by (auto split: if_splits)
  ultimately show ?thesis using b'(2) by (simp add: budget_ok_def)
qed

lemma budget_ok_same:
  assumes "budget_ok h n b lim" "h e = Some en" "charge en' = charge en" "ze_phase en' = Dead \<longleftrightarrow> ze_phase en = Dead"
    "ze_size en' = ze_size en"
  shows "budget_ok (h(e \<mapsto> en')) n b lim"
proof (rule budget_ok_upd [OF assms(1,2)])
  show "on_disk en' \<le> charge en'" using budget_okD(4) [OF assms(1,2)] assms(3-5) by (auto simp: on_disk_def)
  show "charge en' = 0" if "ze_phase en' = Dead" using budget_okD(5) [OF assms(1,2)] assms(3,4) that by simp
qed (use assms(3) budget_okD(2) [OF assms(1)] in simp_all)

definition zbudget :: "zcache \<Rightarrow> bool" where
  "zbudget s \<longleftrightarrow> budget_ok (zc_heap s) (zc_next s) (zc_bytes s) (zc_limit s)"

lemma zbudget_same:
  assumes "zbudget s" "zc_heap s e = Some en" "charge (g en) = charge en" "ze_phase (g en) = Dead \<longleftrightarrow> ze_phase en = Dead"
    "ze_size (g en) = ze_size en"
  shows "zbudget (upd_entry e g s)"
  using assms budget_ok_same [of "zc_heap s" "zc_next s" "zc_bytes s" "zc_limit s" e en "g en"] by (simp add: zbudget_def)

lemma zbudget_cong:
  "zbudget s \<Longrightarrow> zc_heap s' = zc_heap s \<Longrightarrow> zc_next s' = zc_next s \<Longrightarrow> zc_bytes s' = zc_bytes s \<Longrightarrow>
   zc_limit s' = zc_limit s \<Longrightarrow> zbudget s'"
  by (simp add: zbudget_def)

lemma charge_simps [simp]:
  "charge (en\<lparr>ze_pins := p\<rparr>) = charge en" "charge (en\<lparr>ze_phase := ph\<rparr>) = charge en"
  "charge (en\<lparr>ze_lastUsed := t\<rparr>) = charge en" "charge (en\<lparr>ze_fileHash := x\<rparr>) = charge en"
  "charge (en\<lparr>ze_size := k\<rparr>) = charge en" "charge (en\<lparr>ze_charged := c\<rparr>) = unat c"
  by (simp_all add: charge_def)

lemma zbudget_grow: 
  assumes ok: "zbudget s" and e: "zc_heap s e = Some en" "ze_phase en \<noteq> Dead"
    and fits: "extra \<le> zc_limit s" "zc_bytes s \<le> zc_limit s - extra"
    and en': "unat (ze_charged en + extra) = charge en'" "on_disk en' \<le> charge en'" "ze_phase en' = ze_phase en"
  shows "budget_ok ((zc_heap s)(e \<mapsto> en')) (zc_next s) (zc_bytes s + extra) (zc_limit s)"
proof -
  note ok' = ok [unfolded zbudget_def]
  have le: "unat extra \<le> unat (zc_limit s)" "unat (zc_bytes s) \<le> unat (zc_limit s) - unat extra"
    using fits by (simp_all add: word_le_nat_alt unat_sub)
  have small: "unat (zc_limit s) < 2 ^ 64" using unsigned_less [of "zc_limit s", where ?'a = nat] by simp
  have "charge en \<le> unat (zc_bytes s)"
    using entry_sum_le [of e "zc_next s" "zc_heap s" en charge] budget_okD(1,3) [OF ok'] e(1) by simp
  then have charged: "unat (ze_charged en + extra) = charge en + unat extra"
    using le small by (simp add: charge_def unat_word_ariths)
  have bytes: "unat (zc_bytes s + extra) = unat (zc_bytes s) + unat extra"
    using le small by (simp add: unat_word_ariths)
  show ?thesis
    by (rule budget_ok_upd [OF ok' e(1)]) (use en' e(2) charged bytes le in \<open>simp_all add: word_le_nat_alt\<close>)
qed

text \<open>A granted reservation covers the write it was made for.\<close>

lemma round_up_covers:
  fixes x c :: nat
  assumes "0 < c"
  shows "x \<le> (x + c - 1) div c * c"
proof -
  have "x + c - 1 = (x + c - 1) div c * c + (x + c - 1) mod c" by simp
  moreover have "(x + c - 1) mod c \<le> c - 1" using assms by (simp add: Suc_leI less_Suc_eq_le [symmetric] del: less_Suc_eq_le)
  ultimately show ?thesis using assms by linarith
qed

lemma reservation_covers:
  assumes "unat (ze_size en) \<le> 2 ^ 63" "unat len < 2 ^ 63 - 2 ^ 16"
  shows "unat (ze_size en) + unat len \<le> unat (ze_charged en + reservation en len)"
proof -
  have chunk: "unat zstdReservationChunk = 65536" "zstdReservationChunk = 65536" by (simp_all add: zstdReservationChunk_def)
  have fin: "unat (ze_size en + len) = unat (ze_size en) + unat len" using assms by (simp add: unat_word_ariths)
  have up: "unat (ze_size en + len + 65535) = unat (ze_size en) + unat len + 65535"
    using assms fin by (simp add: unat_word_ariths)
  let ?q = "(ze_size en + len + 65535) div (65536 :: uint64)"
  have q: "unat ?q = (unat (ze_size en) + unat len + 65535) div 65536" using up by (simp add: unat_div_distrib)
  have "unat ?q * 65536 \<le> unat (ze_size en) + unat len + 65535" unfolding q by simp
  then have "unat (?q * 65536) = unat ?q * 65536" using assms by (simp add: unat_word_ariths)
  moreover have "ze_charged en + reservation en len = ?q * 65536"
    by (simp add: reservation_def Let_def chunk add.commute add.left_commute)
  ultimately show ?thesis
    using round_up_covers [of 65536 "unat (ze_size en) + unat len"] q by simp
qed

section \<open>Files and failed removals\<close>

definition files_ok :: "(nat \<rightharpoonup> zentry) \<Rightarrow> (string \<rightharpoonup> nat) \<Rightarrow> bool" where
  "files_ok h fm \<longleftrightarrow>
     (\<forall>p e. fm p = Some e \<longleftrightarrow> (\<exists>en. h e = Some en \<and> ze_phase en = Failed \<and> ze_path en = p)) \<and>
     (\<forall>e e' en en'. h e = Some en \<and> h e' = Some en' \<and> ze_phase en \<noteq> Dead \<and> ze_phase en' \<noteq> Dead \<and>
        ze_path en = ze_path en' \<longrightarrow> e = e')"

lemma files_okD:
  assumes "files_ok h fm"
  shows "fm p = Some e \<longleftrightarrow> (\<exists>en. h e = Some en \<and> ze_phase en = Failed \<and> ze_path en = p)"
    and "h e = Some en \<Longrightarrow> h e' = Some en' \<Longrightarrow> ze_phase en \<noteq> Dead \<Longrightarrow> ze_phase en' \<noteq> Dead \<Longrightarrow>
         ze_path en = ze_path en' \<Longrightarrow> e = e'"
  using assms unfolding files_ok_def by blast+

lemma files_okI:
  assumes "\<And>p e. fm p = Some e \<longleftrightarrow> (\<exists>en. h e = Some en \<and> ze_phase en = Failed \<and> ze_path en = p)"
    and "\<And>e e' en en'. h e = Some en \<Longrightarrow> h e' = Some en' \<Longrightarrow> ze_phase en \<noteq> Dead \<Longrightarrow> ze_phase en' \<noteq> Dead \<Longrightarrow>
         ze_path en = ze_path en' \<Longrightarrow> e = e'"
  shows "files_ok h fm"
  using assms unfolding files_ok_def by blast

text \<open>An entry keeps its path, and what is dead stays dead.\<close>

lemma files_ok_upd:
  assumes ok: "files_ok h fm" and e: "h e = Some en" "ze_path en' = ze_path en" "ze_phase en \<noteq> Dead"
  shows "ze_phase en' \<noteq> Failed \<Longrightarrow> ze_phase en \<noteq> Failed \<Longrightarrow> files_ok (h(e \<mapsto> en')) fm"
    and "ze_phase en' = Failed \<Longrightarrow> files_ok (h(e \<mapsto> en')) (fm(ze_path en \<mapsto> e))"
    and "ze_phase en' \<noteq> Failed \<Longrightarrow> files_ok (h(e \<mapsto> en')) (fm(ze_path en := None))"
proof -
  have inj: "x = x'" if "(h(e \<mapsto> en')) x = Some xn" "(h(e \<mapsto> en')) x' = Some xn'" "ze_phase xn \<noteq> Dead" "ze_phase xn' \<noteq> Dead"
    "ze_path xn = ze_path xn'" for x x' xn xn'
  proof -
    define f where "f y yn = (if y = e then en else yn)" for y yn
    have "h y = Some (f y yn)" "ze_phase (f y yn) \<noteq> Dead" "ze_path (f y yn) = ze_path yn"
      if "(h(e \<mapsto> en')) y = Some yn" "ze_phase yn \<noteq> Dead" for y yn
      using that e by (auto simp: f_def split: if_splits)
    then show ?thesis using files_okD(2) [OF ok, of x "f x xn" x' "f x' xn'"] that by simp
  qed
  have other: "x = e" if "h x = Some xn" "ze_phase xn = Failed" "ze_path xn = ze_path en" for x xn
    using files_okD(2) [OF ok that(1) e(1)] that e(3) by simp
  have failed: "(\<exists>xn. (h(e \<mapsto> en')) x = Some xn \<and> ze_phase xn = Failed \<and> ze_path xn = p) \<longleftrightarrow>
      (if x = e then ze_phase en' = Failed \<and> ze_path en = p else fm p = Some x)" for x p
    using e files_okD(1) [OF ok, of p x] by auto
  have me: "fm p = Some e \<longleftrightarrow> ze_phase en = Failed \<and> ze_path en = p" for p
    using files_okD(1) [OF ok, of p e] e(1) by auto
  have only: "fm (ze_path en) = Some x \<Longrightarrow> x = e" for x
    using files_okD(1) [OF ok, of "ze_path en" x] other by blast
  have intro: "files_ok (h(e \<mapsto> en')) fm'"
    if "\<And>p x. fm' p = Some x \<longleftrightarrow> (if x = e then ze_phase en' = Failed \<and> ze_path en = p else fm p = Some x)" for fm'
    by (rule files_okI) (simp only: that failed, rule inj)
  show "files_ok (h(e \<mapsto> en')) fm" if "ze_phase en' \<noteq> Failed" "ze_phase en \<noteq> Failed"
    using me that by (intro intro) simp
  show "files_ok (h(e \<mapsto> en')) (fm(ze_path en \<mapsto> e))" if "ze_phase en' = Failed"
    using me only that by (intro intro) auto
  show "files_ok (h(e \<mapsto> en')) (fm(ze_path en := None))" if "ze_phase en' \<noteq> Failed"
    using me only that by (intro intro) auto
qed

section \<open>The invariant of every interleaving\<close>

definition zinv :: "zcache \<Rightarrow> bool" where
  "zinv s \<longleftrightarrow> zpins s \<and> zbudget s \<and> files_ok (zc_heap s) (zc_failed s)"

lemma zinvD:
  assumes "zinv s"
  shows "zpins s" "zbudget s" "files_ok (zc_heap s) (zc_failed s)"
  using assms by (simp_all add: zinv_def)

text \<open>Steps that leave charges, sizes, paths and the books on them alone.\<close>

definition file_view :: "zentry \<Rightarrow> uint64 \<times> uint64 \<times> string \<times> bool \<times> bool" where
  "file_view en = (ze_charged en, ze_size en, ze_path en, ze_phase en = Dead, ze_phase en = Failed)"

definition same_files :: "(nat \<rightharpoonup> zentry) \<Rightarrow> (nat \<rightharpoonup> zentry) \<Rightarrow> bool" where
  "same_files h h' \<longleftrightarrow> (\<forall>e. map_option file_view (h e) = map_option file_view (h' e))"

lemma same_filesD:
  assumes "same_files h h'" "h' e = Some en'"
  shows "\<exists>en. h e = Some en \<and> file_view en = file_view en'"
proof -
  have "map_option file_view (h e) = Some (file_view en')" using assms unfolding same_files_def by simp
  then show ?thesis by (cases "h e") auto
qed

lemma same_files_sym: "same_files h h' \<Longrightarrow> same_files h' h"
  by (simp add: same_files_def)

lemma same_files_refl [simp]: "same_files h h"
  by (simp add: same_files_def)

lemma same_files_trans: "same_files h h' \<Longrightarrow> same_files h' h'' \<Longrightarrow> same_files h h''"
  by (simp add: same_files_def)

lemma same_files_upd: "h e = Some en \<Longrightarrow> file_view en' = file_view en \<Longrightarrow> same_files h (h(e \<mapsto> en'))"
  by (simp add: same_files_def)

lemma files_ok_same_files: "files_ok h fm \<Longrightarrow> same_files h h' \<Longrightarrow> files_ok h' fm"
proof (rule files_okI)
  assume ok: "files_ok h fm" and same: "same_files h h'"
  show "fm p = Some e \<longleftrightarrow> (\<exists>en. h' e = Some en \<and> ze_phase en = Failed \<and> ze_path en = p)" for p e
    using same [unfolded same_files_def, rule_format, of e] unfolding files_okD(1) [OF ok, of p e]
    by (cases "h e"; cases "h' e") (auto simp: file_view_def)
  show "e = e'" if en: "h' e = Some en" "h' e' = Some en'" "ze_phase en \<noteq> Dead" "ze_phase en' \<noteq> Dead"
    "ze_path en = ze_path en'" for e e' en en'
  proof -
    obtain e0 e0' where "h e = Some e0" "h e' = Some e0'" "file_view e0 = file_view en" "file_view e0' = file_view en'"
      using same_filesD [OF same en(1)] same_filesD [OF same en(2)] by blast
    then show ?thesis using files_okD(2) [OF ok, of e e0 e' e0'] en(3-) by (simp add: file_view_def)
  qed
qed

lemma budget_same_files:
  assumes "budget_ok h n b lim" "same_files h h'"
  shows "budget_ok h' n b lim"
proof -
  have "(case h' e of None \<Rightarrow> 0 | Some en \<Rightarrow> charge en) = (case h e of None \<Rightarrow> 0 | Some en \<Rightarrow> charge en)" for e
    using assms(2) [unfolded same_files_def, rule_format, of e]
    by (cases "h e"; cases "h' e") (auto simp: charge_def file_view_def)
  then have "entry_sum charge h' n = entry_sum charge h n" by (simp add: entry_sum_def)
  moreover have "e < n \<and> on_disk en \<le> charge en \<and> (ze_phase en = Dead \<longrightarrow> charge en = 0)" if en: "h' e = Some en" for e en
  proof -
    obtain en0 where "h e = Some en0" "ze_charged en = ze_charged en0" "ze_size en = ze_size en0"
      "ze_phase en = Dead \<longleftrightarrow> ze_phase en0 = Dead"
      using same_filesD [OF assms(2) en] by (auto simp: file_view_def)
    then show ?thesis using budget_okD(3-5) [OF assms(1), of e en0] by (auto simp: charge_def on_disk_def)
  qed
  ultimately show ?thesis using assms(1) by (simp add: budget_ok_def)
qed

lemma zinv_same_files:
  assumes "zinv s" "zpins s'" "same_files (zc_heap s) (zc_heap s')"
    "zc_next s' = zc_next s" "zc_bytes s' = zc_bytes s" "zc_limit s' = zc_limit s" "zc_failed s' = zc_failed s"
  shows "zinv s'"
  using assms budget_same_files [of "zc_heap s" "zc_next s" "zc_bytes s" "zc_limit s" "zc_heap s'"]
    files_ok_same_files [of "zc_heap s" "zc_failed s" "zc_heap s'"] by (simp add: zinv_def zbudget_def)

lemma same_files_pin: "same_files (zc_heap s) (zc_heap (pinZstdLocked e s))"
  by (cases "zc_heap s e") (simp_all add: pinZstdLocked_def same_files_def file_view_def)

lemma same_files_unpin: "same_files (zc_heap s) (zc_heap (unpinZstdLocked e s))"
  by (cases "zc_heap s e") (simp_all add: unpinZstdLocked_def same_files_def file_view_def)

lemma unpinZstdLocked_simps [simp]:
  "zc_flights (unpinZstdLocked e s) = zc_flights s" "zc_keys (unpinZstdLocked e s) = zc_keys s"
  "zc_cache (unpinZstdLocked e s) = zc_cache s" "zc_bytes (unpinZstdLocked e s) = zc_bytes s"
  "zc_limit (unpinZstdLocked e s) = zc_limit s" "zc_now (unpinZstdLocked e s) = zc_now s"
  "zc_next (unpinZstdLocked e s) = zc_next s" "zc_failed (unpinZstdLocked e s) = zc_failed s"
  "zc_semCap (unpinZstdLocked e s) = zc_semCap s" "zc_closed (unpinZstdLocked e s) = zc_closed s"
  by (simp_all add: unpinZstdLocked_def split: option.splits)

lemma zinv_lease_begin:
  assumes "zinv s"
  shows "zinv (snd (zstdLease_begin key s))"
  by (rule zinv_same_files [OF assms zpins_lease_begin [OF zinvD(1) [OF assms]]])
    (auto simp: zstdLease_begin_def same_files_pin split: option.splits)

lemma zinv_lease_close:
  assumes "zinv s" "e \<in># zc_leases s"
  shows "zinv (lease_Close e s)"
  by (rule zinv_same_files [OF assms(1) zpins_lease_close [OF zinvD(1) [OF assms(1)] assms(2)]]) (auto simp: lease_Close_def same_files_unpin)

lemma leave_flight_frame:
  "same_files (zc_heap s) (zc_heap (leave_flight key f s)) \<and> zc_next (leave_flight key f s) = zc_next s \<and>
   zc_bytes (leave_flight key f s) = zc_bytes s \<and> zc_limit (leave_flight key f s) = zc_limit s \<and>
   zc_failed (leave_flight key f s) = zc_failed s"
  by (auto simp: leave_flight_def same_files_unpin split: option.splits)

lemma zinv_lease_end:
  assumes "zinv s" and f: "zc_flights s key = Some f"
  shows "zinv (snd (zstdLease_end key ctxErr s))"
proof (rule zinv_same_files [OF assms(1) zpins_lease_end [OF zinvD(1) [OF assms(1)] f]])
  let ?s = "case (lease_error ctxErr f s, zf_entry f) of (None, Some e) \<Rightarrow> pinZstdLocked e s | _ \<Rightarrow> s"
  have "same_files (zc_heap s) (zc_heap ?s) \<and> zc_next ?s = zc_next s \<and> zc_bytes ?s = zc_bytes s \<and> zc_limit ?s = zc_limit s \<and>
      zc_failed ?s = zc_failed s"
    by (simp add: same_files_pin split: option.splits)
  then show "same_files (zc_heap s) (zc_heap (snd (zstdLease_end key ctxErr s)))"
    "zc_next (snd (zstdLease_end key ctxErr s)) = zc_next s" "zc_bytes (snd (zstdLease_end key ctxErr s)) = zc_bytes s"
    "zc_limit (snd (zstdLease_end key ctxErr s)) = zc_limit s" "zc_failed (snd (zstdLease_end key ctxErr s)) = zc_failed s"
    unfolding zstdLease_end_leave [OF f] using leave_flight_frame [of ?s key f] same_files_trans by auto
qed

lemma zinv_upd_view:
  assumes "zinv s" "zpins (upd_entry e g s)" "zc_heap s e = Some en" "file_view (g en) = file_view en"
  shows "zinv (upd_entry e g s)"
  by (rule zinv_same_files [OF assms(1,2)]) (use same_files_upd [of "zc_heap s" e en "g en"] assms(3,4) in simp_all)

lemma zinv_hash: "zinv s \<Longrightarrow> zc_heap s e = Some en \<Longrightarrow> zinv (hashZstd e h s)"
  unfolding hashZstd_def by (rule zinv_upd_view, assumption, rule zpins_upd_heap) (auto simp: zinvD file_view_def)

lemma zinv_abandon: "zinv s \<Longrightarrow> zc_heap s e = Some en \<Longrightarrow> ze_phase en = Building \<Longrightarrow> zinv (abandonZstd e s)"
  unfolding abandonZstd_def by (rule zinv_upd_view, assumption, rule zpins_upd_heap) (auto simp: zinvD file_view_def)

lemma zinv_retire:
  assumes "zinv s" "zc_heap s e = Some en" "ze_phase en = Cached" "ze_pins en = 0"
  shows "zinv (retireZstdLocked e s)"
  by (rule zinv_same_files [OF assms(1) zpins_retire [OF zinvD(1) [OF assms(1)] assms(2-)]])
    (use assms(2,3) in \<open>auto simp: retireZstdLocked_def same_files_def file_view_def\<close>)

lemma zinv_publish:
  assumes "zinv s" "zc_flights s key = Some f" "\<not> zf_finished f" "zc_heap s e = Some en" "ze_phase en = Building" "ze_key en = key"
  shows "zinv (publishZstd key (Inr e) s)"
  by (rule zinv_same_files [OF assms(1) zpins_publish [OF zinvD(1) [OF assms(1)] assms(2-)]])
    (use assms(2,4,5) in \<open>auto simp: publishZstd_def Let_def same_files_def file_view_def\<close>)

lemma zinv_publish_error:
  assumes "zinv s" "zc_flights s key = Some f" "\<not> zf_finished f"
  shows "zinv (publishZstd key (Inl x) s)"
  by (rule zinv_same_files [OF assms(1) zpins_publish_error [OF zinvD(1) [OF assms(1)] assms(2-)]])
    (use assms(2) in \<open>auto simp: publishZstd_def Let_def\<close>)

lemma zinv_missing: "zinv s \<Longrightarrow> zinv (snd (removeMissingZstd e s))"
  using zpins_cached [OF zinvD(1), of s _ e]
  by (cases "zc_heap s e") (auto simp: removeMissingZstd_def intro!: zinv_retire)

lemma zinv_evict: "zinv s \<Longrightarrow> v \<in> set (zc_lru s) \<Longrightarrow> zinv (retireZstdLocked v s)"
  using zpins_idle [OF zinvD(1)] zinv_retire by blast

lemma zinv_reserve:
  assumes "zinv s" "reserve_once e extra s = (r, s')" "r \<noteq> RGranted"
  shows "zinv s'"
  using assms zinv_evict [OF assms(1)] by (auto simp: reserve_once_def split: if_splits list.splits)

lemma zinv_sweep_lru: "zinv s \<Longrightarrow> zc_lru s = es \<Longrightarrow> zinv (snd (sweep_lru cutoff es s))"
proof (induction es arbitrary: s)
  case (Cons e es)
  obtain en where en: "zc_heap s e = Some en" using zpins_idle [OF zinvD(1) [OF Cons.prems(1)], of e] Cons.prems(2) by auto
  have "zc_lru (retireZstdLocked e s) = es" using en Cons.prems(2) by (simp add: retireZstdLocked_def)
  with zinv_evict [OF Cons.prems(1), of e] Cons.prems(2)
  have "zinv (snd (sweep_lru cutoff es (retireZstdLocked e s)))" by (intro Cons.IH) simp_all
  then show ?case using Cons.prems(1) en by (auto split: prod.splits)
qed simp

lemma zinv_begin_entry:
  assumes "zinv s" "\<And>e en. zc_heap s e = Some en \<Longrightarrow> ze_phase en \<noteq> Dead \<Longrightarrow> ze_path en \<noteq> path"
  shows "zinv (beginEntry key path s)"
proof -
  note inv = zinvD [OF assms(1)]
  have fresh: "zc_heap s (zc_next s) = None" using zpinsD(3) [OF inv(1)] by simp
  have "budget_ok (zc_heap (beginEntry key path s)) (Suc (zc_next s)) (zc_bytes s) (zc_limit s)"
    using inv(2) by (auto simp: zbudget_def budget_ok_def beginEntry_def entry_sum_new charge_def on_disk_def less_Suc_eq)
  moreover have "files_ok (zc_heap (beginEntry key path s)) (zc_failed s)"
  proof (rule files_okI)
    show "zc_failed s p = Some e \<longleftrightarrow> (\<exists>en. zc_heap (beginEntry key path s) e = Some en \<and> ze_phase en = Failed \<and> ze_path en = p)" for p e
      using files_okD(1) [OF inv(3), of p e] fresh by (auto simp: beginEntry_def)
    show "e = e'" if "zc_heap (beginEntry key path s) e = Some en" "zc_heap (beginEntry key path s) e' = Some en'"
      "ze_phase en \<noteq> Dead" "ze_phase en' \<noteq> Dead" "ze_path en = ze_path en'" for e e' en en'
      using that assms(2) [of e en] assms(2) [of e' en'] files_okD(2) [OF inv(3), of e en e' en']
      by (auto simp: beginEntry_def split: if_splits)
  qed
  ultimately show ?thesis
    using zpins_begin_entry [OF inv(1), of key path] by (simp add: zinv_def zbudget_def beginEntry_def)
qed

lemma zinv_delete:
  assumes "zinv s" "zc_heap s e = Some en" "ze_phase en = Retired"
  shows "zinv (snd (deleteZstd e rmErr s))"
proof -
  note inv = zinvD [OF assms(1)]
  note b = inv(2) [unfolded zbudget_def]
  have le: "ze_charged en \<le> zc_bytes s"
    using entry_sum_le [of e "zc_next s" "zc_heap s" en charge] budget_okD(1,3) [OF b] assms(2)
    by (simp add: word_le_nat_alt charge_def)
  then have sub: "unat (zc_bytes s - ze_charged en) = unat (zc_bytes s) - charge en" "charge en \<le> unat (zc_bytes s)"
    by (simp_all add: unat_sub charge_def word_le_nat_alt)
  let ?dead = "en\<lparr>ze_charged := 0, ze_phase := Dead\<rparr>"
  have "zc_bytes s - ze_charged en \<le> zc_limit s"
    using sub budget_okD(2) [OF b] by (simp add: word_le_nat_alt)
  then have "budget_ok ((zc_heap s)(e \<mapsto> ?dead)) (zc_next s) (zc_bytes s - ze_charged en) (zc_limit s)"
    using sub by (intro budget_ok_upd [OF b assms(2)]) (simp_all add: on_disk_def)
  moreover have "budget_ok ((zc_heap s)(e \<mapsto> en\<lparr>ze_phase := Failed\<rparr>)) (zc_next s) (zc_bytes s) (zc_limit s)"
    using assms(3) by (intro budget_ok_same [OF b assms(2)]) simp_all
  moreover note files = files_ok_upd [OF inv(3) assms(2)]
  ultimately show ?thesis
    using zpins_delete [OF inv(1) assms(2,3), of rmErr] assms(2,3) files(2) [of "en\<lparr>ze_phase := Failed\<rparr>"] files(3) [of ?dead]
    by (cases rmErr) (simp_all add: deleteZstd_def zinv_def zbudget_def)
qed

lemma zinv_write:
  assumes "zinv s" "zc_heap s e = Some en" "ze_phase en = Building" "unat len < 2 ^ 63 - 2 ^ 16" "unat (zc_limit s) \<le> 2 ^ 63"
    "reserve_once e (reservation en len) s = (RGranted, s')" "k \<le> len"
  shows "zinv (writeZstd e k s')"
proof -
  note inv = zinvD [OF assms(1)]
  note b = inv(2) [unfolded zbudget_def]
  let ?r = "reservation en len" and ?en = "en\<lparr>ze_charged := ze_charged en + reservation en len, ze_size := ze_size en + k\<rparr>"
  have fits: "?r \<le> zc_limit s" "zc_bytes s \<le> zc_limit s - ?r"
    and s': "s' = (upd_entry e (\<lambda>en. en\<lparr>ze_charged := ze_charged en + ?r\<rparr>) s)\<lparr>zc_bytes := zc_bytes s + ?r\<rparr>"
    using assms(6) by (auto simp: reserve_once_def split: if_splits list.splits)
  have "unat (ze_size en) \<le> unat (zc_bytes s)"
    using budget_okD(4) [OF b assms(2)] entry_sum_le [of e "zc_next s" "zc_heap s" en charge] budget_okD(1,3) [OF b] assms(2,3)
    by (simp add: on_disk_def)
  then have small: "unat (ze_size en) \<le> 2 ^ 63" using budget_okD(2) [OF b] assms(5) by (simp add: word_le_nat_alt)
  have "unat (ze_size en + k) \<le> unat (ze_size en) + unat len"
    using assms(7) by (simp add: word_le_nat_alt unat_word_ariths)
  then have "on_disk ?en \<le> charge ?en"
    using reservation_covers [OF small assms(4)] assms(3) by (simp add: on_disk_def charge_def)
  then have "budget_ok ((zc_heap s)(e \<mapsto> ?en)) (zc_next s) (zc_bytes s + ?r) (zc_limit s)"
    using zbudget_grow [OF inv(2) assms(2) _ fits, of ?en] assms(3) by (simp add: charge_def)
  moreover have "files_ok ((zc_heap s)(e \<mapsto> ?en)) (zc_failed s)"
    using files_ok_upd(1) [OF inv(3) assms(2), of ?en] assms(3) by simp
  moreover have "zpins (writeZstd e k s')"
  proof -
    have "zpins s'" using zpins_reserve [OF inv(1) assms(2), of ?r] assms(6) by simp
    moreover have "zc_heap s' e = Some (en\<lparr>ze_charged := ze_charged en + ?r\<rparr>)" using assms(2) s' by simp
    ultimately show ?thesis unfolding writeZstd_def by (rule zpins_upd_heap) simp_all
  qed
  ultimately show ?thesis using assms(2) by (simp add: zinv_def zbudget_def writeZstd_def s')
qed

lemma retry_failed_frame:
  "zc_heap (retry_failed es s) e =
     (if e \<in> set es then map_option (\<lambda>en. en\<lparr>ze_phase := Retired\<rparr>) (zc_heap s e) else zc_heap s e)"
  "zc_failed (retry_failed es s) = (\<lambda>_. None)" "zc_lru (retry_failed es s) = zc_lru s"
proof -
  let ?f = "\<lambda>s e. upd_entry e (\<lambda>en. en\<lparr>ze_phase := Retired\<rparr>) s"
  have "zc_heap (foldl ?f t es) e =
     (if e \<in> set es then map_option (\<lambda>en. en\<lparr>ze_phase := Retired\<rparr>) (zc_heap t e) else zc_heap t e) \<and>
     zc_failed (foldl ?f t es) = zc_failed t \<and> zc_lru (foldl ?f t es) = zc_lru t" for t
    by (induction es arbitrary: t) (auto simp: option.map_comp comp_def)
  then show "zc_heap (retry_failed es s) e =
     (if e \<in> set es then map_option (\<lambda>en. en\<lparr>ze_phase := Retired\<rparr>) (zc_heap s e) else zc_heap s e)"
    "zc_failed (retry_failed es s) = (\<lambda>_. None)" "zc_lru (retry_failed es s) = zc_lru s"
    by (auto simp: retry_failed_def)
qed

lemma zinv_failed: "zinv s \<Longrightarrow> e \<in> ran (zc_failed s) \<longleftrightarrow> (\<exists>en. zc_heap s e = Some en \<and> ze_phase en = Failed)"
  using files_okD(1) [OF zinvD(3), of s _ e] by (auto simp: ran_def)

lemma zinv_retry:
  assumes "zinv s" "distinct fl" "set fl = ran (zc_failed s)"
  shows "zinv (retry_failed fl s)"
proof -
  have failed: "\<exists>en. zc_heap s e = Some en \<and> ze_phase en = Failed" if "e \<in> set fl" for e
    using zinv_failed [OF assms(1), of e] that assms(3) by simp
  have "zpins (retry_failed fl s) \<and> zbudget (retry_failed fl s)"
  proof (rule retry_failed_induct [where P = "\<lambda>t. zpins t \<and> zbudget t", OF failed assms(2)])
    show "zpins (s\<lparr>zc_failed := \<lambda>_. None\<rparr>) \<and> zbudget (s\<lparr>zc_failed := \<lambda>_. None\<rparr>)"
      using zinvD [OF assms(1)] zpins_cong [of s "s\<lparr>zc_failed := \<lambda>_. None\<rparr>"] by (simp add: zbudget_def)
  qed (auto intro!: zpins_upd_heap zbudget_same)
  moreover have "files_ok (zc_heap (retry_failed fl s)) (zc_failed (retry_failed fl s))"
  proof (rule files_okI)
    show "zc_failed (retry_failed fl s) p = Some e \<longleftrightarrow>
        (\<exists>en. zc_heap (retry_failed fl s) e = Some en \<and> ze_phase en = Failed \<and> ze_path en = p)" for p e
      using zinv_failed [OF assms(1), of e] assms(3) by (auto simp: retry_failed_frame)
    show "e = e'" if en: "zc_heap (retry_failed fl s) e = Some en" "zc_heap (retry_failed fl s) e' = Some en'"
      "ze_phase en \<noteq> Dead" "ze_phase en' \<noteq> Dead" "ze_path en = ze_path en'" for e e' en en'
    proof -
      have "\<exists>yn. zc_heap s y = Some yn \<and> ze_phase yn \<noteq> Dead \<and> ze_path yn = ze_path xn"
        if "zc_heap (retry_failed fl s) y = Some xn" "ze_phase xn \<noteq> Dead" for y xn
        using that failed [of y] by (auto simp: retry_failed_frame split: if_splits)
      from this [OF en(1,3)] this [OF en(2,4)] show ?thesis
        using files_okD(2) [OF zinvD(3) [OF assms(1)]] en(5) by force
    qed
  qed
  ultimately show ?thesis by (simp add: zinv_def)
qed

lemma zinv_sweep:
  assumes "zinv s" "distinct fl" "set fl = ran (zc_failed s)"
  shows "zinv (snd (SweepZstd_begin maxIdle fl s))"
  using zinv_sweep_lru [OF zinv_retry [OF assms], of "zc_lru s" "zc_now s - maxIdle"]
  by (auto simp: SweepZstd_begin_def retry_failed_frame split: prod.splits)

lemma zinv_other:
  assumes "zinv s" 
  shows "zinv (Close_begin s)" "zinv (s\<lparr>zc_now := t\<rparr>)"
  using zinvD [OF assms] zpins_cong [of s "Close_begin s"] zpins_cong [of s "s\<lparr>zc_now := t\<rparr>"]
  by (simp_all add: zinv_def zbudget_def Close_begin_def)

text \<open>The limit never changes.\<close>

lemma retireZstdLocked_simps [simp]:
  "zc_limit (retireZstdLocked e s) = zc_limit s" "zc_now (retireZstdLocked e s) = zc_now s"
  "zc_leases (retireZstdLocked e s) = zc_leases s" "zc_failed (retireZstdLocked e s) = zc_failed s"
  "zc_flights (retireZstdLocked e s) = zc_flights s" "zc_closed (retireZstdLocked e s) = zc_closed s"
  "zc_next (retireZstdLocked e s) = zc_next s" "zc_bytes (retireZstdLocked e s) = zc_bytes s"
  by (simp_all add: retireZstdLocked_def split: option.splits)

lemma sweep_lru_limit: "zc_limit (snd (sweep_lru c es s)) = zc_limit s"
  by (induction c es s rule: sweep_lru.induct) (auto split: option.splits prod.splits)

lemma retry_failed_limit: "zc_limit (retry_failed es s) = zc_limit s"
proof -
  have "zc_limit (foldl (\<lambda>s e. upd_entry e (\<lambda>en. en\<lparr>ze_phase := Retired\<rparr>) s) t es) = zc_limit t" for t
    by (induction es arbitrary: t) simp_all
  then show ?thesis by (simp add: retry_failed_def)
qed

lemma zstdLease_limit: "zc_limit (snd (zstdLease_begin key s)) = zc_limit s" "zc_limit (snd (zstdLease_end key ctxErr s)) = zc_limit s"
  by (auto simp: zstdLease_begin_def zstdLease_end_def Let_def split: option.splits)

lemma reserve_once_limit: "zc_limit (snd (reserve_once e extra s)) = zc_limit s"
  by (auto simp: reserve_once_def split: list.splits)

lemma zstep_limit: "zstep s s' \<Longrightarrow> zc_limit s' = zc_limit s"
proof (induction rule: zstep.induct)
  case (z_sweep maxIdle fl s)
  then show ?case
    using sweep_lru_limit [of "zc_now s - maxIdle" "zc_lru s" "retry_failed fl s"] 
    by (auto simp: SweepZstd_begin_def retry_failed_limit split: prod.splits)
next
  case (z_reserve s e en len r s')
  then show ?case using reserve_once_limit [of e "reservation en len" s] by simp
next
  case (z_write s e en len s' k)
  then show ?case using reserve_once_limit [of e "reservation en len" s] by (simp add: writeZstd_def)
qed (auto simp: zstdLease_limit lease_Close_def beginEntry_def hashZstd_def abandonZstd_def publishZstd_def
    deleteZstd_def removeMissingZstd_def Close_begin_def Let_def split: option.splits)

lemma zstep_zinv: "zstep s s' \<Longrightarrow> unat (zc_limit s) \<le> 2 ^ 63 \<Longrightarrow> zinv s \<Longrightarrow> zinv s'"
proof (induction rule: zstep.induct)
  case (z_write s e en len s' k)
  then show ?case by (intro zinv_write)
qed (simp_all add: zinv_lease_begin zinv_lease_end zinv_lease_close zinv_begin_entry zinv_reserve zinv_hash zinv_abandon
    zinv_publish zinv_publish_error zinv_delete zinv_missing zinv_sweep zinv_other)

lemma zinit_zinv: "zinv (zinit limit semCap)"
  by (simp add: zinit_def zinv_def zpins_def pins_ok_def zbudget_def budget_ok_def files_ok_def entry_sum_def
      cached_at_def idle_at_def)

lemma zreach_zinv:
  assumes "zreach limit semCap s" and lim: "unat limit \<le> 2 ^ 63"
  shows "zinv s \<and> zc_limit s = limit"
  using assms(1)
proof (induction rule: zreach.induct)
  case zreach_init
  show ?case using zinit_zinv [of limit semCap] by (simp add: zinit_def)
next
  case (zreach_step s s')
  then show ?case using zstep_limit [of s s'] zstep_zinv [of s s'] lim by simp
qed

section \<open>The list is in order of last use\<close>

definition used :: "(nat \<rightharpoonup> zentry) \<Rightarrow> nat \<Rightarrow> int" where
  "used h e = (case h e of None \<Rightarrow> 0 | Some en \<Rightarrow> ze_lastUsed en)"

definition lru_ok :: "(nat \<rightharpoonup> zentry) \<Rightarrow> nat list \<Rightarrow> int \<Rightarrow> bool" where
  "lru_ok h l now \<longleftrightarrow> sorted (map (used h) l) \<and> (\<forall>e\<in>set l. used h e \<le> now)"

definition zlru :: "zcache \<Rightarrow> bool" where
  "zlru s \<longleftrightarrow> lru_ok (zc_heap s) (zc_lru s) (zc_now s)"

lemma lru_ok_cong: "lru_ok h l now \<Longrightarrow> (\<And>e. e \<in> set l \<Longrightarrow> used h' e = used h e) \<Longrightarrow> lru_ok h' l now"
  by (simp add: lru_ok_def cong: map_cong)

lemma lru_ok_remove1: "lru_ok h l now \<Longrightarrow> lru_ok h (remove1 e l) now"
  using set_remove1_subset [of e l] by (auto simp: lru_ok_def sorted_map_remove1)

lemma lru_ok_push:
  assumes "lru_ok h l now" "e \<notin> set l" "ze_lastUsed en = now"
  shows "lru_ok (h(e \<mapsto> en)) (l @ [e]) now"
proof -
  have "used (h(e \<mapsto> en)) x = used h x" if "x \<in> set l" for x using that assms(2) by (auto simp: used_def)
  then have "lru_ok (h(e \<mapsto> en)) l now" by (rule lru_ok_cong [OF assms(1)])
  moreover have "used (h(e \<mapsto> en)) e = now" using assms(3) by (simp add: used_def)
  ultimately show ?thesis by (auto simp: lru_ok_def sorted_append)
qed

lemma zlru_frame:
  assumes "zlru s" "zc_lru s' = zc_lru s \<or> (\<exists>e. zc_lru s' = remove1 e (zc_lru s))" "zc_now s' = zc_now s"
    and "\<And>e. e \<in> set (zc_lru s) \<Longrightarrow> used (zc_heap s') e = used (zc_heap s) e"
  shows "zlru s'"
proof -
  have "lru_ok (zc_heap s') (zc_lru s) (zc_now s)" using assms(1,4) lru_ok_cong unfolding zlru_def by blast
  then show ?thesis using assms(2,3) lru_ok_remove1 unfolding zlru_def by auto
qed

lemma zlru_unpin:
  assumes "zlru s" "zc_heap s e = Some en" "e \<notin> set (zc_lru s)"
  shows "zlru (unpinZstdLocked e s)"
proof (cases "ze_pins en - 1 = 0")
  case True
  then show ?thesis
    using lru_ok_push [of "zc_heap s" "zc_lru s" "zc_now s" e "unpin_entry (zc_now s) en"] assms
    by (simp add: zlru_def unpinZstdLocked_eq unpin_entry_def)
next
  case False
  then show ?thesis
    using assms(2) by (intro zlru_frame [OF assms(1)]) (auto simp: unpinZstdLocked_eq unpin_entry_def used_def)
qed

lemma zlru_pin: "zlru s \<Longrightarrow> zlru (pinZstdLocked e s)"
  by (rule zlru_frame, assumption) (auto simp: pinZstdLocked_def used_def split: option.splits)

lemma zlru_retire: "zlru s \<Longrightarrow> zlru (retireZstdLocked e s)"
  by (rule zlru_frame, assumption) (auto simp: retireZstdLocked_def used_def split: option.splits)

lemma zlru_sweep_lru: "zlru s \<Longrightarrow> zlru (snd (sweep_lru c es s))"
  by (induction c es s rule: sweep_lru.induct) (auto simp: zlru_retire split: option.splits prod.splits)

lemma retry_failed_now: "zc_now (retry_failed es s) = zc_now s"
proof -
  have "zc_now (foldl (\<lambda>s e. upd_entry e (\<lambda>en. en\<lparr>ze_phase := Retired\<rparr>) s) t es) = zc_now t" for t
    by (induction es arbitrary: t) simp_all
  then show ?thesis by (simp add: retry_failed_def)
qed

lemma zlru_retry: "zlru s \<Longrightarrow> zlru (retry_failed es s)"
  by (rule zlru_frame, assumption) (auto simp: retry_failed_frame retry_failed_now used_def split: option.splits)

lemma not_idle: "zpins s \<Longrightarrow> zc_heap s e = Some en \<Longrightarrow> ze_pins en \<noteq> 0 \<or> ze_phase en \<noteq> Cached \<Longrightarrow> e \<notin> set (zc_lru s)"
  using zpins_idle [of s e] by auto

lemma zlru_leave:
  assumes "zlru s" "zpins s" "zc_flights s key = Some f"
  shows "zlru (leave_flight key f s)"
proof (cases "zf_waiters f - 1 = 0 \<and> zf_finished f \<and> zf_entry f \<noteq> None")
  case True
  then obtain e where e: "zf_entry f = Some e" by blast
  obtain en where en: "zc_heap s e = Some en" "ze_key en = key" using zpins_flight(2) [OF assms(2,3) e] by blast
  have "ze_pins en \<noteq> 0"
    using pins_okD(4) [OF zpinsD(1) [OF assms(2)] en(1)] assms(3) e en(2) by (simp add: flight_pin_def)
  then have "e \<notin> set (zc_lru s)" using not_idle [OF assms(2) en(1)] by blast
  then have "zlru (unpinZstdLocked e s)" by (rule zlru_unpin [OF assms(1) en(1)])
  then show ?thesis using True e by (simp add: leave_flight_def zlru_def)
qed (use assms(1) in \<open>auto simp: leave_flight_def zlru_def split: option.splits\<close>)

lemma zlru_lease_end:
  assumes "zlru s" "zpins s" and f: "zc_flights s key = Some f"
  shows "zlru (snd (zstdLease_end key ctxErr s))"
proof -
  let ?s = "case (lease_error ctxErr f s, zf_entry f) of (None, Some e) \<Rightarrow> pinZstdLocked e s | _ \<Rightarrow> s"
  have "zpins ?s"
    using zpins_flight(2) [OF assms(2) f] zpins_pin [OF assms(2)] assms(2) by (auto split: option.splits)
  moreover have "zlru ?s" using assms(1) by (auto simp: zlru_pin split: option.splits)
  moreover have "zc_flights ?s key = Some f" using f by (auto split: option.splits)
  ultimately show ?thesis unfolding zstdLease_end_leave [OF f] by (intro zlru_leave)
qed

lemma zlru_lease_close:
  assumes "zlru s" "zpins s" "e \<in># zc_leases s"
  shows "zlru (lease_Close e s)"
proof -
  obtain en where en: "zc_heap s e = Some en" using pins_okD(5) [OF zpinsD(1) [OF assms(2)] assms(3)] by (auto simp: cached_at_def)
  have "ze_pins en \<noteq> 0"
    using pins_okD(4) [OF zpinsD(1) [OF assms(2)] en] assms(3) flight_pin_nonneg [of "zc_flights s" e en]
    by (auto simp del: flight_pin_nonneg simp flip: count_greater_zero_iff)
  then have "zlru (unpinZstdLocked e s)" using not_idle [OF assms(2) en] by (intro zlru_unpin [OF assms(1) en]) blast
  then show ?thesis by (simp add: lease_Close_def zlru_def)
qed

lemma zlru_publish:
  assumes "zlru s" "zpins s" "zc_heap s e = Some en" "ze_phase en = Building"
  shows "zlru (publishZstd key (Inr e) s)"
proof -
  have e: "e \<notin> set (zc_lru s)" using not_idle [OF assms(2,3)] assms(4) by simp
  have "lru_ok ((zc_heap s)(e \<mapsto> en\<lparr>ze_pins := 1, ze_phase := Cached\<rparr>)) (zc_lru s) (zc_now s)"
    using assms(1,3) by (auto simp: zlru_def used_def intro: lru_ok_cong)
  then show ?thesis
    using assms(1,3) lru_ok_push [OF assms(1) [unfolded zlru_def] e, of "en\<lparr>ze_lastUsed := zc_now s, ze_phase := Cached\<rparr>"]
    by (auto simp: publishZstd_def zlru_def Let_def split: option.splits)
qed

lemma zlru_begin_entry: "zlru s \<Longrightarrow> zpins s \<Longrightarrow> zlru (beginEntry key path s)"
  by (rule zlru_frame, assumption) (use zpins_idle [of s] zpinsD(3) [of s] in \<open>auto simp: beginEntry_def used_def\<close>)

lemma zlru_reserve: "zlru s \<Longrightarrow> zlru (snd (reserve_once e extra s))"
proof -
  assume s: "zlru s"
  have "zlru ((upd_entry e (\<lambda>en. en\<lparr>ze_charged := ze_charged en + extra\<rparr>) s)\<lparr>zc_bytes := b\<rparr>)" for b
    by (rule zlru_frame [OF s]) (auto simp: used_def split: option.splits)
  then show ?thesis using s by (auto simp: reserve_once_def zlru_retire split: list.splits)
qed

lemma zlru_upd: "zlru s \<Longrightarrow> (\<And>en. ze_lastUsed (g en) = ze_lastUsed en) \<Longrightarrow> zlru (upd_entry e g s)"
  by (rule zlru_frame, assumption) (auto simp: used_def split: option.splits)

lemma zlru_delete: "zlru s \<Longrightarrow> zlru (snd (deleteZstd e rmErr s))"
  by (rule zlru_frame, assumption) (auto simp: deleteZstd_def used_def split: option.splits)

lemma zlru_now: "zlru s \<Longrightarrow> zc_now s \<le> t \<Longrightarrow> zlru (s\<lparr>zc_now := t\<rparr>)"
  by (fastforce simp: zlru_def lru_ok_def)

lemma zlru_other:
  assumes "zlru s"
  shows "zlru (snd (zstdLease_begin key s))" "zlru (publishZstd key (Inl x) s)" "zlru (snd (removeMissingZstd e s))"
    "zlru (Close_begin s)" "zlru (snd (SweepZstd_begin maxIdle fl s))"
proof -
  show "zlru (snd (zstdLease_begin key s))" "zlru (publishZstd key (Inl x) s)" "zlru (Close_begin s)"
    using assms zlru_pin [OF assms]
    by (auto simp: zstdLease_begin_def publishZstd_def Close_begin_def Let_def zlru_def split: option.splits)
  show "zlru (snd (removeMissingZstd e s))"
    using assms zlru_retire [OF assms] by (auto simp: removeMissingZstd_def split: option.splits)
  show "zlru (snd (SweepZstd_begin maxIdle fl s))"
    using zlru_sweep_lru [OF zlru_retry [OF assms], of "zc_now s - maxIdle" "zc_lru s" fl]
    by (auto simp: SweepZstd_begin_def split: prod.splits)
qed

lemma zstep_zlru: "zstep s s' \<Longrightarrow> zinv s \<Longrightarrow> zlru s \<Longrightarrow> zlru s'"
proof (induction rule: zstep.induct)
  case (z_reserve s e en len r s')
  then show ?case using zlru_reserve [of s e "reservation en len"] by simp
next
  case (z_write s e en len s' k)
  then have "zlru s'" using zlru_reserve [of s e "reservation en len"] by simp
  then show ?case unfolding writeZstd_def by (rule zlru_upd) simp
qed (simp_all add: zlru_other zlru_lease_end zlru_lease_close zlru_begin_entry zlru_publish zlru_delete zlru_now zlru_upd
    zinvD(1) hashZstd_def abandonZstd_def)

lemma zreach_zlru:
  assumes "zreach limit semCap s" and lim: "unat limit \<le> 2 ^ 63"
  shows "zlru s"
  using assms(1)
proof (induction rule: zreach.induct)
  case (zreach_step s s')
  then show ?case using zstep_zlru [of s s'] zreach_zinv [OF zreach_step(1) lim] by simp
qed (simp add: zinit_def zlru_def lru_ok_def)

section \<open>What a sweep does\<close>

lemma sweep_lru_spec:
  assumes "zinv s" "zc_lru s = es"
  shows "fst (sweep_lru cutoff es s) = takeWhile (\<lambda>e. used (zc_heap s) e \<le> cutoff) es \<and>
    zc_lru (snd (sweep_lru cutoff es s)) = dropWhile (\<lambda>e. used (zc_heap s) e \<le> cutoff) es \<and>
    (\<forall>x. zc_heap (snd (sweep_lru cutoff es s)) x =
      (if x \<in> set (takeWhile (\<lambda>e. used (zc_heap s) e \<le> cutoff) es)
       then map_option (\<lambda>en. en\<lparr>ze_phase := Retired\<rparr>) (zc_heap s x) else zc_heap s x))"
  using assms
proof (induction es arbitrary: s)
  case (Cons e es)
  obtain en where en: "zc_heap s e = Some en" using zpins_idle [OF zinvD(1) [OF Cons.prems(1)], of e] Cons.prems(2) by auto
  let ?s = "retireZstdLocked e s"
  have lru: "zc_lru ?s = es" using en Cons.prems(2) by (simp add: retireZstdLocked_def)
  have inv: "zinv ?s" using zinv_evict [OF Cons.prems(1), of e] Cons.prems(2) by simp
  have heap: "zc_heap ?s = (zc_heap s)(e \<mapsto> en\<lparr>ze_phase := Retired\<rparr>)" using en by (simp add: retireZstdLocked_def)
  have same: "used (zc_heap ?s) x = used (zc_heap s) x" for x using en by (simp add: heap used_def)
  have "e \<notin> set es" using pins_okD(2) [OF zpinsD(1) [OF zinvD(1) [OF Cons.prems(1)]]] Cons.prems(2) by simp
  then have "e \<notin> set (takeWhile p es)" for p by (meson set_takeWhileD)
  then show ?case
    using Cons.IH [OF inv lru] Cons.prems(2) en unfolding same by (auto simp: used_def heap split: prod.splits)
qed simp

lemma delete_all_spec:
  assumes "zinv s" "distinct es" "\<And>e. e \<in> set es \<Longrightarrow> \<exists>en. zc_heap s e = Some en \<and> ze_phase en = Retired"
  shows "zinv (snd (delete_all rmErr es s)) \<and> zc_cache (snd (delete_all rmErr es s)) = zc_cache s \<and>
    zc_lru (snd (delete_all rmErr es s)) = zc_lru s \<and>
    fst (delete_all rmErr es s) = length (filter (\<lambda>e. \<not> rmErr e) es) \<and>
    (\<forall>x. map_option ze_phase (zc_heap (snd (delete_all rmErr es s)) x) =
      (if x \<in> set es then Some (if rmErr x then Failed else Dead) else map_option ze_phase (zc_heap s x)))"
  using assms
proof (induction es arbitrary: s)
  case (Cons e es)
  obtain en where en: "zc_heap s e = Some en" "ze_phase en = Retired" using Cons.prems(3) [of e] by auto
  obtain ok s1 where d: "deleteZstd e (rmErr e) s = (ok, s1)" by fastforce
  have inv: "zinv s1" using zinv_delete [OF Cons.prems(1) en, of "rmErr e"] d by simp
  have del: "ok \<longleftrightarrow> \<not> rmErr e" "zc_cache s1 = zc_cache s" "zc_lru s1 = zc_lru s"
    "map_option ze_phase (zc_heap s1 e) = Some (if rmErr e then Failed else Dead)"
    using en d by (auto simp: deleteZstd_def split: if_splits)
  have other: "zc_heap s1 x = zc_heap s x" if "x \<noteq> e" for x
    using en d that by (auto simp: deleteZstd_def split: if_splits)
  then have "\<exists>en. zc_heap s1 x = Some en \<and> ze_phase en = Retired" if "x \<in> set es" for x
    using Cons.prems(2) Cons.prems(3) [of x] that by (metis distinct.simps(2) list.set_intros(2))
  note IH = Cons.IH [OF inv _ this]
  have "e \<notin> set es" "distinct es" using Cons.prems(2) by simp_all
  obtain k s2 where d2: "delete_all rmErr es s1 = (k, s2)" by fastforce
  have "map_option ze_phase (zc_heap s2 x) =
      (if x \<in> set (e # es) then Some (if rmErr x then Failed else Dead) else map_option ze_phase (zc_heap s x))" for x
    using IH [OF \<open>distinct es\<close>] del(4) other [of x] \<open>e \<notin> set es\<close> unfolding d2 by (cases "x = e") simp_all
  then show ?case using IH [OF \<open>distinct es\<close>] del(1-3) d d2 by simp
qed simp

lemma zinv_all_idle:
  assumes "zinv s" "zc_leases s = {#}" "zc_flights s = (\<lambda>_. None)" "zc_heap s e = Some en" "ze_phase en = Cached"
  shows "e \<in> set (zc_lru s)"
  using pins_okD(3) [OF zpinsD(1) [OF zinvD(1) [OF assms(1)]], of e] pins_okD(4) [OF zpinsD(1) [OF zinvD(1) [OF assms(1)]] assms(4)]
    assms(2-) by (simp add: idle_at_def flight_pin_def)

text \<open>Once all entries are dead nothing is charged.\<close>

lemma zinv_all_dead:
  assumes "zinv s" "\<And>e en. zc_heap s e = Some en \<Longrightarrow> ze_phase en = Dead"
  shows "zc_bytes s = 0" "zc_cache s = (\<lambda>_. None)"
proof -
  note b = zinvD(2) [OF assms(1), unfolded zbudget_def]
  have "entry_sum charge (zc_heap s) (zc_next s) = 0"
    using budget_okD(5) [OF b] assms(2) by (auto simp: entry_sum_def split: option.splits)
  then show "zc_bytes s = 0" using budget_okD(1) [OF b] by (simp add: unat_eq_0)
  have "zc_cache s k = None" for k
  proof (cases "zc_cache s k")
    case (Some e)
    then show ?thesis using zpins_cached [OF zinvD(1) [OF assms(1)] Some] assms(2) by fastforce
  qed simp
  then show "zc_cache s = (\<lambda>_. None)" by blast
qed

lemma sweep_everything:
  assumes inv: "zinv s" "zlru s" and quiet: "zc_leases s = {#}" "zc_flights s = (\<lambda>_. None)"
    "\<And>e en. zc_heap s e = Some en \<Longrightarrow> ze_phase en \<noteq> Building \<and> ze_phase en \<noteq> Retired"
    and fl: "distinct fl" "set fl = ran (zc_failed s)"
  shows "fst (SweepZstdCache 0 fl (\<lambda>_. False) s) = length fl + length (zc_lru s) \<and>
    zc_bytes (snd (SweepZstdCache 0 fl (\<lambda>_. False) s)) = 0 \<and>
    zc_cache (snd (SweepZstdCache 0 fl (\<lambda>_. False) s)) = (\<lambda>_. None)"
proof -
  let ?r = "retry_failed fl s" let ?sw = "sweep_lru (zc_now s) (zc_lru s) ?r"
  note pins = zpinsD(1) [OF zinvD(1) [OF inv(1)]]
  have rinv: "zinv ?r" "zc_lru ?r = zc_lru s" using zinv_retry [OF inv(1) fl] by (simp_all add: retry_failed_frame)
  have failed: "\<exists>en. zc_heap s e = Some en \<and> ze_phase en = Failed" if "e \<in> set fl" for e
    using zinv_failed [OF inv(1), of e] that fl(2) by simp
  have disj: "set fl \<inter> set (zc_lru s) = {}" using failed zpins_idle [OF zinvD(1) [OF inv(1)]] by fastforce
  have old: "used (zc_heap ?r) e \<le> zc_now s" if "e \<in> set (zc_lru s)" for e
    using inv(2) that disj by (auto simp: zlru_def lru_ok_def used_def retry_failed_frame)
  then have take: "takeWhile (\<lambda>e. used (zc_heap ?r) e \<le> zc_now s) (zc_lru s) = zc_lru s" by (simp add: takeWhile_eq_all_conv)
  note spec = sweep_lru_spec [OF rinv, of "zc_now s", unfolded take]
  have sinv: "zinv (snd ?sw)" using zinv_sweep_lru [OF rinv] .
  have dist: "distinct (fl @ zc_lru s)" using fl(1) pins_okD(2) [OF pins] disj by simp
  have heap: "zc_heap (snd ?sw) e = (if e \<in> set (fl @ zc_lru s) then map_option (\<lambda>en. en\<lparr>ze_phase := Retired\<rparr>) (zc_heap s e) else zc_heap s e)" for e
    using spec disj by (auto simp: retry_failed_frame)
  have retired: "\<exists>en. zc_heap (snd ?sw) e = Some en \<and> ze_phase en = Retired" if "e \<in> set (fl @ zc_lru s)" for e
    using that failed [of e] zpins_idle [OF zinvD(1) [OF inv(1)], of e] unfolding heap by auto
  note del = delete_all_spec [OF sinv dist retired, of "\<lambda>_. False"]
  have eq: "SweepZstdCache 0 fl (\<lambda>_. False) s = delete_all (\<lambda>_. False) (fl @ zc_lru s) (snd ?sw)"
    using spec by (auto simp: SweepZstdCache_def SweepZstd_begin_def split: prod.splits)
  have "ze_phase en = Dead" if "zc_heap (snd (SweepZstdCache 0 fl (\<lambda>_. False) s)) e = Some en" for e en
  proof (cases "e \<in> set (fl @ zc_lru s)")
    case True
    then show ?thesis using del that unfolding eq by (metis option.map(2) option.inject)
  next
    case False
    then have "Some (ze_phase en) = map_option ze_phase (zc_heap s e)" using del that heap unfolding eq by (metis option.map(2))
    then obtain en0 where en0: "zc_heap s e = Some en0" "ze_phase en = ze_phase en0" by (cases "zc_heap s e") auto
    have "e \<notin> ran (zc_failed s)" "e \<notin> set (zc_lru s)" using False fl(2) by auto
    then have "ze_phase en0 \<noteq> Failed" "ze_phase en0 \<noteq> Cached"
      using zinv_failed [OF inv(1), of e] zinv_all_idle [OF inv(1) quiet(1,2) en0(1)] en0(1) by auto
    then show ?thesis using quiet(3) [OF en0(1)] en0(2) by (cases "ze_phase en0") auto
  qed
  then show ?thesis using zinv_all_dead [of "snd (SweepZstdCache 0 fl (\<lambda>_. False) s)"] del unfolding eq by simp
qed

section \<open>Reservations make room\<close>

definition held :: "zentry \<Rightarrow> nat" where
  "held en = (if ze_phase en = Cached \<and> ze_pins en = 0 then 0 else charge en)"

lemma held_evict:
  assumes "zinv s" "v \<in> set (zc_lru s)"
  shows "zinv (snd (deleteZstd v rmErr (retireZstdLocked v s)))"
    and "entry_sum held (zc_heap (snd (deleteZstd v False (retireZstdLocked v s)))) (zc_next s) = entry_sum held (zc_heap s) (zc_next s)"
    and "zc_limit (snd (deleteZstd v rmErr (retireZstdLocked v s))) = zc_limit s"
    and "zc_next (snd (deleteZstd v rmErr (retireZstdLocked v s))) = zc_next s"
    and "zc_closed (snd (deleteZstd v rmErr (retireZstdLocked v s))) = zc_closed s"
proof -
  obtain en where en: "zc_heap s v = Some en" "ze_phase en = Cached" "ze_pins en = 0"
    using zpins_idle [OF zinvD(1) [OF assms(1)] assms(2)] by blast
  have r: "zc_heap (retireZstdLocked v s) v = Some (en\<lparr>ze_phase := Retired\<rparr>)" using en by (simp add: retireZstdLocked_def)
  show "zinv (snd (deleteZstd v rmErr (retireZstdLocked v s)))"
    by (rule zinv_delete [OF zinv_evict [OF assms] r]) simp
  have less: "v < zc_next s" using budget_okD(3) [OF zinvD(2) [OF assms(1), unfolded zbudget_def] en(1)] .
  let ?en = "en\<lparr>ze_phase := Dead, ze_charged := 0\<rparr>"
  have "zc_heap (snd (deleteZstd v False (retireZstdLocked v s))) = (zc_heap s)(v \<mapsto> ?en)"
    using en by (auto simp: deleteZstd_def retireZstdLocked_def)
  then show "entry_sum held (zc_heap (snd (deleteZstd v False (retireZstdLocked v s)))) (zc_next s) = entry_sum held (zc_heap s) (zc_next s)"
    using entry_sum_upd [of v "zc_next s" "zc_heap s" en held ?en] less en by (simp add: held_def charge_def)
qed (auto simp: deleteZstd_def split: option.splits)

lemma zinv_no_idle:
  assumes "zinv s" "zc_lru s = []"
  shows "entry_sum held (zc_heap s) (zc_next s) = unat (zc_bytes s)"
proof -
  have "held en = charge en" if "zc_heap s e = Some en" for e en
    using pins_okD(3) [OF zpinsD(1) [OF zinvD(1) [OF assms(1)]], of e] assms(2) that by (auto simp: held_def idle_at_def)
  then have "entry_sum held (zc_heap s) (zc_next s) = entry_sum charge (zc_heap s) (zc_next s)"
    unfolding entry_sum_def by (auto intro!: sum.cong split: option.splits)
  then show ?thesis using budget_okD(1) [OF zinvD(2) [OF assms(1), unfolded zbudget_def]] by simp
qed

lemma reserve_once_room:
  assumes "zinv s" "\<not> zc_closed s" "entry_sum held (zc_heap s) (zc_next s) + unat extra \<le> unat (zc_limit s)"
  shows "(\<exists>s'. reserve_once e extra s = (RGranted, s')) \<or>
    (\<exists>v. v \<in> set (zc_lru s) \<and> reserve_once e extra s = (REvict v, retireZstdLocked v s))"
proof -
  have "extra \<le> zc_limit s" using assms(3) by (simp add: word_le_nat_alt)
  moreover have "zc_bytes s \<le> zc_limit s - extra" if "zc_lru s = []"
    using zinv_no_idle [OF assms(1) that] assms(3) \<open>extra \<le> zc_limit s\<close> by (simp add: word_le_nat_alt unat_sub)
  ultimately show ?thesis using assms(2) by (cases "zc_lru s") (auto simp: reserve_once_def)
qed

lemma reserveZstd_grants:
  "zinv s \<Longrightarrow> \<not> zc_closed s \<Longrightarrow> entry_sum held (zc_heap s) (zc_next s) + unat extra \<le> unat (zc_limit s) \<Longrightarrow>
   rmErr = (\<lambda>_. False) \<Longrightarrow> fst (reserveZstd rmErr e extra s) = None"
proof (induction rmErr e extra s rule: reserveZstd.induct)
  case (1 rmErr e extra s)
  from reserve_once_room [OF "1.prems"(1-3), of e] consider s' where "reserve_once e extra s = (RGranted, s')"
    | v where "v \<in> set (zc_lru s)" "reserve_once e extra s = (REvict v, retireZstdLocked v s)" by blast
  then show ?case
  proof cases
    case (2 v)
    have h: "zc_heap s v \<noteq> None" using zpins_idle [OF zinvD(1) [OF "1.prems"(1)] 2(1)] by auto
    show ?thesis
      using "1.IH" [OF 2(2) [symmetric] refl h] held_evict [OF "1.prems"(1) 2(1)] "1.prems" h 2(2)
      by (subst reserveZstd.simps) simp
  qed (subst reserveZstd.simps, simp)
qed

text \<open>A small history: one compression, one reader.\<close>

definition zex0 :: zcache where "zex0 = zinit zstdCacheMaxBytes 2"
definition zex1 :: zcache where "zex1 = snd (zstdLease_begin ''k'' zex0)"
definition zex2 :: zcache where "zex2 = beginEntry ''k'' ''/spool/a'' zex1"
definition zex3 :: zcache where "zex3 = writeZstd 0 100 (snd (reserve_once 0 65536 zex2))"
definition zex4 :: zcache where "zex4 = publishZstd ''k'' (Inr 0) zex3"
definition zex5 :: zcache where "zex5 = snd (zstdLease_end ''k'' False zex4)"
definition zex6 :: zcache where "zex6 = lease_Close 0 zex5"

lemmas zex_defs = zex0_def zinit_def zex1_def zex2_def zex3_def zex4_def zex5_def zex6_def zstdLease_begin_def beginEntry_def
  writeZstd_def reserve_once_def publishZstd_def zstdLease_end_def lease_Close_def Let_def new_flight_def lease_error_def
  pinZstdLocked_def unpinZstdLocked_def upd_entry_def zstdCacheMaxBytes_def

lemma zex_reach:
  "zreach zstdCacheMaxBytes 2 zex5" "zreach zstdCacheMaxBytes 2 zex6"
proof -
  have "zreach zstdCacheMaxBytes 2 zex1" unfolding zex1_def zex0_def by (rule zreach_step [OF zreach_init z_lease_begin])
  then have "zreach zstdCacheMaxBytes 2 zex2" unfolding zex2_def
    by (rule zreach_step) (rule z_begin_entry [of _ _ new_flight], auto simp: zex_defs)
  moreover have "zstep zex2 zex3" unfolding zex3_def
    by (rule z_write [of _ _ "the (zc_heap zex2 0)" 100])
      (auto simp: zex_defs reservation_def zstdReservationChunk_def)
  ultimately have "zreach zstdCacheMaxBytes 2 zex3" by (rule zreach_step)
  then have "zreach zstdCacheMaxBytes 2 zex4" unfolding zex4_def
    by (rule zreach_step) (rule z_publish [of _ _ new_flight _ "the (zc_heap zex3 0)"], auto simp: zex_defs)
  then show "zreach zstdCacheMaxBytes 2 zex5" unfolding zex5_def
    by (rule zreach_step) (rule z_lease_end [of _ _ "the (zc_flights zex4 ''k'')"], auto simp: zex_defs)
  then show "zreach zstdCacheMaxBytes 2 zex6" unfolding zex6_def
    by (rule zreach_step) (rule z_lease_close, auto simp: zex_defs)
qed

section \<open>Properties\<close>

text \<open>
  C17: in every state any interleaving of requests, builders, sweeps and shutdown can reach, the byte
  counter is exactly the sum of what is charged to the entries, it covers the bytes written to the files
  that are still on disk, and it does not exceed the limit; no step wraps around.
\<close>

theorem zstd_budget:
  assumes "zreach limit semCap s" and "unat limit \<le> 2 ^ 63"
  shows "unat (zc_bytes s) = entry_sum charge (zc_heap s) (zc_next s) \<and>
    entry_sum on_disk (zc_heap s) (zc_next s) \<le> unat (zc_bytes s) \<and> zc_bytes s \<le> limit"
proof -
  have b: "budget_ok (zc_heap s) (zc_next s) (zc_bytes s) limit"
    using zinvD(2) [of s] zreach_zinv [OF assms] by (simp add: zbudget_def)
  show ?thesis using budget_okD(1,2,4) [OF b] entry_sum_mono [of "zc_heap s" on_disk charge] by simp
qed

theorem zstd_budget_witness:
  "entry_sum on_disk (zc_heap zex5) (zc_next zex5) = 100 \<and> zc_bytes zex5 = 65536 \<and>
   unat (zc_bytes zex5) = entry_sum charge (zc_heap zex5) (zc_next zex5)"
proof -
  have "unat zstdCacheMaxBytes \<le> 2 ^ 63" by (simp add: zstdCacheMaxBytes_def)
  moreover have "entry_sum on_disk (zc_heap zex5) (zc_next zex5) = 100" "zc_bytes zex5 = 65536"
    by (simp_all add: zex_defs entry_sum_def on_disk_def)
  ultimately show ?thesis using zstd_budget [OF zex_reach(1)] by simp
qed

text \<open>
  C18: an entry with an open lease stays: it is published under its key, pinned, and neither an
  eviction by a reservation, a sweep, nor the removal of missing files picks it.
\<close>

theorem zstd_lease_safe:
  assumes "zreach limit semCap s" and "unat limit \<le> 2 ^ 63" and "e \<in># zc_leases s"
    and "distinct fl" and "set fl = ran (zc_failed s)"
  shows "(\<exists>en. zc_heap s e = Some en \<and> ze_phase en = Cached \<and> 0 < ze_pins en \<and> zc_cache s (ze_key en) = Some e) \<and>
    e \<notin> set (zc_lru s) \<and> fst (reserve_once x extra s) \<noteq> REvict e \<and> \<not> fst (removeMissingZstd e s) \<and>
    e \<notin> set (fst (SweepZstd_begin maxIdle fl s))"
proof -
  have inv: "zinv s" using zreach_zinv [OF assms(1,2)] by simp
  note pins = zpinsD(1) [OF zinvD(1) [OF inv]]
  obtain en where en: "zc_heap s e = Some en" "ze_phase en = Cached" "zc_cache s (ze_key en) = Some e"
    using pins_okD(5) [OF pins assms(3)] pins_okD(1) [OF pins] by (auto simp: cached_at_def)
  have pos: "0 < ze_pins en"
    using pins_okD(4) [OF pins en(1)] assms(3) flight_pin_nonneg [of "zc_flights s" e en]
    by (auto simp del: flight_pin_nonneg simp flip: count_greater_zero_iff)
  have lru: "e \<notin> set (zc_lru s)" using not_idle [OF zinvD(1) [OF inv] en(1)] pos by simp
  have "fst (reserve_once x extra s) \<noteq> REvict e"
    using lru by (auto simp: reserve_once_def split: list.splits)
  moreover have "\<not> fst (removeMissingZstd e s)" using en(1) pos by (simp add: removeMissingZstd_def)
  moreover have "e \<notin> set fl" using zinv_failed [OF inv, of e] assms(5) en by auto
  moreover have "e \<notin> set (fst (sweep_lru (zc_now s - maxIdle) (zc_lru s) (retry_failed fl s)))"
    using sweep_lru_spec [OF zinv_retry [OF inv assms(4,5)], of "zc_lru s" "zc_now s - maxIdle"] lru
    by (auto simp: retry_failed_frame dest: set_takeWhileD)
  ultimately show ?thesis using en pos lru by (auto simp: SweepZstd_begin_def split: prod.splits)
qed

theorem zstd_lease_safe_witness:
  "0 \<in># zc_leases zex5 \<and> 0 \<notin> set (zc_lru zex5) \<and> 0 \<notin> set (fst (SweepZstd_begin 0 [] zex5))"
proof -
  have "unat zstdCacheMaxBytes \<le> 2 ^ 63" by (simp add: zstdCacheMaxBytes_def)
  moreover have "0 \<in># zc_leases zex5" "set [] = ran (zc_failed zex5)" by (simp_all add: zex_defs)
  ultimately show ?thesis using zstd_lease_safe [OF zex_reach(1), of 0 "[]" 0 0 0] by simp
qed

text \<open>
  C19: when what is in use or being built and the reservation fit into the limit together,
  \<^verbatim>\<open>reserveZstd\<close> grants it, evicting idle entries as needed: the loop ends and cannot report a full
  cache while idle entries hold the space.
\<close>

theorem reserveZstd_makes_room:
  assumes "zreach limit semCap s" and "unat limit \<le> 2 ^ 63" and "\<not> zc_closed s"
    and "entry_sum held (zc_heap s) (zc_next s) + unat extra \<le> unat limit"
  shows "fst (reserveZstd (\<lambda>_. False) e extra s) = None"
  using reserveZstd_grants [of s extra "\<lambda>_. False" e] zreach_zinv [OF assms(1,2)] assms(3,4) by simp

theorem reserveZstd_makes_room_witness:
  "zc_lru zex6 = [0] \<and> zc_bytes zex6 = 65536 \<and> fst (reserveZstd (\<lambda>_. False) 0 zstdCacheMaxBytes zex6) = None"
proof -
  have "unat zstdCacheMaxBytes \<le> 2 ^ 63" by (simp add: zstdCacheMaxBytes_def)
  moreover have "\<not> zc_closed zex6" "entry_sum held (zc_heap zex6) (zc_next zex6) = 0" "zc_lru zex6 = [0]" "zc_bytes zex6 = 65536"
    by (simp_all add: zex_defs entry_sum_def held_def)
  ultimately show ?thesis using reserveZstd_makes_room [OF zex_reach(2), of zstdCacheMaxBytes 0] by simp
qed

text \<open>
  The sweep with which \<^verbatim>\<open>Close\<close> ends, after builders, requests and leases are gone, reclaims
  everything when the files can be removed: it counts every failed and every idle entry, nothing stays
  charged and no key stays published.
\<close>

theorem Close_reclaims_everything:
  assumes "zreach limit semCap s" and "unat limit \<le> 2 ^ 63"
    and "zc_leases s = {#}" and "zc_flights s = (\<lambda>_. None)"
    and "\<And>e en. zc_heap s e = Some en \<Longrightarrow> ze_phase en \<noteq> Building \<and> ze_phase en \<noteq> Retired"
    and "distinct fl" and "set fl = ran (zc_failed s)"
  shows "fst (SweepZstdCache 0 fl (\<lambda>_. False) s) = length fl + length (zc_lru s) \<and>
    zc_bytes (snd (SweepZstdCache 0 fl (\<lambda>_. False) s)) = 0 \<and>
    zc_cache (snd (SweepZstdCache 0 fl (\<lambda>_. False) s)) = (\<lambda>_. None)"
proof (rule sweep_everything)
  show "zinv s" "zlru s" using zreach_zinv [OF assms(1,2)] zreach_zlru [OF assms(1,2)] by simp_all
qed (use assms(3-) in blast)+

theorem Close_reclaims_everything_witness:
  "zc_bytes zex6 \<noteq> 0 \<and> fst (SweepZstdCache 0 [] (\<lambda>_. False) zex6) = 1 \<and>
   zc_bytes (snd (SweepZstdCache 0 [] (\<lambda>_. False) zex6)) = 0"
proof -
  have "unat zstdCacheMaxBytes \<le> 2 ^ 63" by (simp add: zstdCacheMaxBytes_def)
  moreover have "zc_leases zex6 = {#}" "zc_flights zex6 = (\<lambda>_. None)" "zc_lru zex6 = [0]" "zc_bytes zex6 \<noteq> 0"
    "distinct ([] :: nat list)" "set [] = ran (zc_failed zex6)"
    by (auto simp: zex_defs)
  moreover have "ze_phase en \<noteq> Building \<and> ze_phase en \<noteq> Retired" if "zc_heap zex6 e = Some en" for e en
    using that by (auto simp: zex_defs split: if_splits)
  ultimately show ?thesis using Close_reclaims_everything [OF zex_reach(2), of "[]"] by simp
qed

end
