(* ===== verification/GoTime.thy ===== *)
theory GoTime
  imports GoText
begin

text \<open>
  Signed integers and durations of Go's standard library as the sources use them: \<^verbatim>\<open>strconv.ParseInt\<close>
  (and \<^verbatim>\<open>Atoi\<close>), \<^verbatim>\<open>time.ParseDuration\<close> and \<^verbatim>\<open>time.Duration.String\<close>.  A duration is a number of
  nanoseconds in 64 signed bits.  The only floating-point computation of \<^verbatim>\<open>ParseDuration\<close>, the
  nanoseconds of a decimal fraction of a unit, is the parameter \<open>frac\<close>: it takes the digits after
  the point as a number, how many there were, and the unit.
\<close>

section \<open>Signed integers\<close>

definition int64 :: "int \<Rightarrow> int" where
  "int64 x = (x + 2 ^ 63) mod 2 ^ 64 - 2 ^ 63"

definition ParseInt :: "string \<Rightarrow> num_error + int" where
  "ParseInt s =
     (if s = [] then Inl ErrSyntax
      else let neg = (hd s = CHR ''-''); t = (if hd s \<in> {CHR ''+'', CHR ''-''} then tl s else s)
           in case ParseUint t of
                Inl e \<Rightarrow> Inl e
              | Inr un \<Rightarrow>
                  if \<not> neg \<and> 2 ^ 63 \<le> unat un then Inl ErrRange
                  else if neg \<and> 2 ^ 63 < unat un then Inl ErrRange
                  else Inr (if neg then - int (unat un) else int (unat un)))"

definition format_int :: "int \<Rightarrow> string" where
  "format_int x = (if x < 0 then CHR ''-'' # format_nat (nat (- x)) else format_nat (nat x))"

section \<open>Units\<close>

definition Microsecond :: int where "Microsecond = 1000"
definition Millisecond :: int where "Millisecond = 1000000"
definition Second :: int where "Second = 1000000000"
definition Minute :: int where "Minute = 60 * Second"
definition Hour :: int where "Hour = 60 * Minute"

definition unitMap :: "string \<Rightarrow> nat option" where
  "unitMap u =
     (if u = ''ns'' then Some 1
      else if u = ''us'' \<or> u = [CHR 0xC2, CHR 0xB5, CHR ''s''] \<or> u = [CHR 0xCE, CHR 0xBC, CHR ''s''] then Some 1000
      else if u = ''ms'' then Some 1000000
      else if u = ''s'' then Some 1000000000
      else if u = ''m'' then Some 60000000000
      else if u = ''h'' then Some 3600000000000
      else None)"

section \<open>time.ParseDuration\<close>

datatype dur_error = DurInvalid | DurMissingUnit | DurUnknownUnit

text \<open>\<^verbatim>\<open>leadingInt\<close>: the digits up to the first other character, refused above \<open>2^63\<close>.\<close>

fun leadingInt :: "nat \<Rightarrow> string \<Rightarrow> (nat \<times> string) option" where
  "leadingInt x [] = Some (x, [])"
| "leadingInt x (c # cs) =
     (if \<not> is_digit c then Some (x, c # cs)
      else if 2 ^ 63 div 10 < x then None
      else if 2 ^ 63 < x * 10 + digit_val c then None
      else leadingInt (x * 10 + digit_val c) cs)"

text \<open>\<^verbatim>\<open>leadingFraction\<close>: digits that no longer fit are skipped; the second component counts the others.\<close>

fun leadingFraction :: "nat \<Rightarrow> nat \<Rightarrow> bool \<Rightarrow> string \<Rightarrow> nat \<times> nat \<times> string" where
  "leadingFraction x k over [] = (x, k, [])"
| "leadingFraction x k over (c # cs) =
     (if \<not> is_digit c then (x, k, c # cs)
      else if over then leadingFraction x k True cs
      else if (2 ^ 63 - 1) div 10 < x then leadingFraction x k True cs
      else if 2 ^ 63 < x * 10 + digit_val c then leadingFraction x k True cs
      else leadingFraction (x * 10 + digit_val c) (k + 1) False cs)"

definition unit_char :: "char \<Rightarrow> bool" where
  "unit_char c \<longleftrightarrow> c \<noteq> CHR ''.'' \<and> \<not> is_digit c"

text \<open>One pass of the loop: the value of the next number and unit, and what is left.\<close>

definition duration_part :: "(nat \<Rightarrow> nat \<Rightarrow> nat \<Rightarrow> nat) \<Rightarrow> string \<Rightarrow> dur_error + nat \<times> string" where
  "duration_part frac s =
     (if s = [] \<or> unit_char (hd s) then Inl DurInvalid
      else case leadingInt 0 s of
        None \<Rightarrow> Inl DurInvalid
      | Some (v, s1) \<Rightarrow>
          let pre = (length s1 \<noteq> length s);
              (f, k, s2, post) =
                (if s1 \<noteq> [] \<and> hd s1 = CHR ''.''
                 then (case leadingFraction 0 0 False (tl s1) of (f, k, r) \<Rightarrow> (f, k, r, length r \<noteq> length (tl s1)))
                 else (0, 0, s1, False));
              u = takeWhile unit_char s2
          in if \<not> pre \<and> \<not> post then Inl DurInvalid
             else if u = [] then Inl DurMissingUnit
             else case unitMap u of
               None \<Rightarrow> Inl DurUnknownUnit
             | Some unit \<Rightarrow>
                 if 2 ^ 63 div unit < v then Inl DurInvalid
                 else let w = (if 0 < f then v * unit + frac f k unit else v * unit)
                      in if 0 < f \<and> 2 ^ 63 < w then Inl DurInvalid else Inr (w, dropWhile unit_char s2))"

lemma leadingInt_shorter: "leadingInt x s = Some (v, r) \<Longrightarrow> length r \<le> length s"
  by (induction x s rule: leadingInt.induct) (auto split: if_splits)

lemma leadingFraction_shorter: "leadingFraction x k over s = (f, k', r) \<Longrightarrow> length r \<le> length s"
  by (induction x k over s rule: leadingFraction.induct) (auto split: if_splits)

lemma duration_part_shorter: "duration_part frac s = Inr (w, r) \<Longrightarrow> length r < length s"
proof -
  assume part: "duration_part frac s = Inr (w, r)"
  have drop: "takeWhile unit_char t \<noteq> [] \<Longrightarrow> length (dropWhile unit_char t) < length t" for t
    by (cases t) (auto simp: length_dropWhile_le less_Suc_eq_le split: if_splits)
  obtain v s1 where s1: "leadingInt 0 s = Some (v, s1)" using part by (auto simp: duration_part_def split: if_splits option.splits)
  let ?s2 = "if s1 \<noteq> [] \<and> hd s1 = CHR ''.'' then snd (snd (leadingFraction 0 0 False (tl s1))) else s1"
  have r: "r = dropWhile unit_char ?s2" "takeWhile unit_char ?s2 \<noteq> []"
    using part s1 by (auto simp: duration_part_def Let_def split: if_splits option.splits prod.splits)
  have "length ?s2 \<le> length s1"
    by (cases "leadingFraction 0 0 False (tl s1)") (auto dest!: leadingFraction_shorter)
  then show ?thesis using drop [OF r(2)] leadingInt_shorter [OF s1] r(1) by simp
qed

function parse_parts :: "(nat \<Rightarrow> nat \<Rightarrow> nat \<Rightarrow> nat) \<Rightarrow> nat \<Rightarrow> string \<Rightarrow> dur_error + nat" where
  "parse_parts frac d s =
     (if s = [] then Inr d
      else case duration_part frac s of
        Inl e \<Rightarrow> Inl e
      | Inr (v, r) \<Rightarrow> let d' = (d + v) mod 2 ^ 64 in if 2 ^ 63 < d' then Inl DurInvalid else parse_parts frac d' r)"
  by pat_completeness auto
termination
  by (relation "measure (\<lambda>(_, _, s). length s)") (auto dest: duration_part_shorter)

declare parse_parts.simps [simp del]

definition ParseDuration :: "(nat \<Rightarrow> nat \<Rightarrow> nat \<Rightarrow> nat) \<Rightarrow> string \<Rightarrow> dur_error + int" where
  "ParseDuration frac s =
     (let neg = (s \<noteq> [] \<and> hd s = CHR ''-'');
          t = (if s \<noteq> [] \<and> hd s \<in> {CHR ''-'', CHR ''+''} then tl s else s)
      in if t = ''0'' then Inr 0
         else if t = [] then Inl DurInvalid
         else case parse_parts frac 0 t of
           Inl e \<Rightarrow> Inl e
         | Inr d \<Rightarrow> if neg then Inr (- int d) else if 2 ^ 63 - 1 < d then Inl DurInvalid else Inr (int d))"

section \<open>time.Duration.String\<close>

fun pad_digits :: "nat \<Rightarrow> nat \<Rightarrow> string" where
  "pad_digits 0 v = []"
| "pad_digits (Suc k) v = pad_digits k (v div 10) @ [digit_char (v mod 10)]"

text \<open>\<^verbatim>\<open>fmtFrac\<close>: the fraction of \<open>v / 10^prec\<close> without trailing zeros, and the point unless it is empty.\<close>

definition fmtFrac :: "nat \<Rightarrow> nat \<Rightarrow> string" where
  "fmtFrac v prec = (let ds = TrimRight (pad_digits prec v) {CHR ''0''} in if ds = [] then [] else CHR ''.'' # ds)"

definition duration_abs :: "nat \<Rightarrow> string" where
  "duration_abs u =
     (if u = 0 then ''0s''
      else if u < 1000 then format_nat u @ ''ns''
      else if u < 1000000 then format_nat (u div 1000) @ fmtFrac u 3 @ [CHR 0xC2, CHR 0xB5, CHR ''s'']
      else if u < 1000000000 then format_nat (u div 1000000) @ fmtFrac u 6 @ ''ms''
      else let secs = u div 1000000000; mins = secs div 60; hours = mins div 60
           in (if 0 < hours then format_nat hours @ ''h'' else []) @
              (if 0 < mins then format_nat (mins mod 60) @ ''m'' else []) @
              format_nat (secs mod 60) @ fmtFrac u 9 @ ''s'')"

definition Duration_String :: "int \<Rightarrow> string" where
  "Duration_String d = (if d < 0 then CHR ''-'' # duration_abs (nat (- d)) else duration_abs (nat d))"

section \<open>Lemmas\<close>

lemma int64_id: "- (2 ^ 63) \<le> x \<Longrightarrow> x < 2 ^ 63 \<Longrightarrow> int64 x = x"
  by (simp add: int64_def)

lemma format_nat_hd: "is_digit (hd (format_nat n))"
  using format_nat_digits [of "hd (format_nat n)" n] by (simp add: is_digit_def)

lemma format_nat_no_sign: "hd (format_nat n) \<noteq> CHR ''-''" "hd (format_nat n) \<noteq> CHR ''+''"
  using format_nat_hd [of n] by (auto simp: is_digit_def)

lemma ParseUint_format_nat: "n < 2 ^ 64 \<Longrightarrow> ParseUint (format_nat n) = Inr (word_of_nat n)"
  by (simp add: ParseUint_def parse_digits_format_nat)

lemma ParseInt_format_nat: "n < 2 ^ 63 \<Longrightarrow> ParseInt (format_nat n) = Inr (int n)"
  using format_nat_no_sign [of n]
  by (simp add: ParseInt_def Let_def ParseUint_format_nat unat_of_nat)

lemma ParseInt_format_int: "0 \<le> x \<Longrightarrow> x < 2 ^ 63 \<Longrightarrow> ParseInt (format_int x) = Inr x"
  by (simp add: format_int_def ParseInt_format_nat nat_less_iff)

lemma leadingInt_format_nat: "n \<le> 2 ^ 63 \<Longrightarrow> leadingInt 0 (format_nat n @ r) = leadingInt n r"
proof (induction n arbitrary: r rule: format_nat.induct)
  case (1 n)
  show ?case
  proof (cases "n < 10")
    case True
    then show ?thesis by (subst format_nat.simps) (simp add: digit_char_props)
  next
    case False
    have "n div 10 \<le> 2 ^ 63 div 10" using "1.prems" by (rule div_le_mono)
    moreover have "n div 10 * 10 + n mod 10 = n" by simp
    ultimately show ?thesis
      using "1.IH" [OF False] "1.prems" False by (subst format_nat.simps) (simp add: digit_char_props)
  qed
qed

lemma duration_part_int:
  assumes "unitMap u = Some unit" "u \<noteq> []" "list_all unit_char u" "r = [] \<or> \<not> unit_char (hd r)" "v \<le> 2 ^ 63 div unit" "0 < unit"
  shows "duration_part frac (format_nat v @ u @ r) = Inr (v * unit, r)"
proof -
  have "v \<le> 2 ^ 63" using assms(5) div_le_dividend le_trans by blast
  then have "leadingInt 0 (format_nat v @ u @ r) = Some (v, u @ r)"
    using leadingInt_format_nat [of v "u @ r"] assms(2,3) by (cases u) (auto simp: unit_char_def)
  moreover have "takeWhile unit_char (u @ r) = u" "dropWhile unit_char (u @ r) = r"
    using assms(3,4) by (auto simp: list_all_iff takeWhile_append dropWhile_append; cases r; auto)+
  moreover have "hd (u @ r) \<noteq> CHR ''.''" using assms(2,3) by (cases u) (auto simp: unit_char_def)
  moreover have "\<not> unit_char (hd (format_nat v @ u @ r))" using format_nat_hd [of v] by (simp add: unit_char_def)
  ultimately show ?thesis
    using assms(1,2,5) by (simp add: duration_part_def)
qed

lemma parse_parts_int:
  assumes "unitMap u = Some unit" "u \<noteq> []" "list_all unit_char u" "r = [] \<or> \<not> unit_char (hd r)" "0 < unit" "d + v * unit \<le> 2 ^ 63"
  shows "parse_parts frac d (format_nat v @ u @ r) = parse_parts frac (d + v * unit) r"
proof -
  have "v * unit \<le> 2 ^ 63" using assms(6) by simp
  then have "v \<le> 2 ^ 63 div unit" using assms(5) by (simp add: less_eq_div_iff_mult_less_eq)
  from duration_part_int [OF assms(1-4) this assms(5)] show ?thesis
    using assms(6) by (subst parse_parts.simps) simp
qed

lemma pad_digits_zero: "10 ^ k dvd v \<Longrightarrow> set (pad_digits k v) \<subseteq> {CHR ''0''}"
proof (induction k arbitrary: v)
  case (Suc k)
  then have "10 dvd v" "10 ^ k dvd v div 10"
    by (metis dvd_mult_left power_Suc, metis Suc.prems dvd_div_eq_mult dvd_mult_div_cancel dvd_mult_imp_div mult.commute power_Suc)
  moreover have "char_of (48 :: nat) = CHR ''0''" by code_simp
  ultimately show ?case using Suc.IH [of "v div 10"] by (simp add: digit_char_def)
qed simp

lemma fmtFrac_zero:
  assumes "10 ^ k dvd v"
  shows "fmtFrac v k = []"
proof -
  have "dropWhile (\<lambda>c. c = CHR ''0'') (rev (pad_digits k v)) = []"
    using pad_digits_zero [OF assms] by auto
  then show ?thesis by (simp add: fmtFrac_def TrimRight_def Let_def)
qed

lemma units: "unitMap ''h'' = Some 3600000000000" "unitMap ''m'' = Some 60000000000" "unitMap ''s'' = Some 1000000000"
  "list_all unit_char ''h''" "list_all unit_char ''m''" "list_all unit_char ''s''"
  by (simp_all add: unitMap_def unit_char_def is_digit_def)

lemma not_unit_format_nat: "\<not> unit_char (hd (format_nat n @ r))"
  using format_nat_hd [of n] by (simp add: unit_char_def)

text \<open>Whole seconds print and parse back.\<close>

lemma parse_parts_duration:
  assumes "0 < secs" "secs * 1000000000 < 2 ^ 63"
  shows "parse_parts frac 0 (duration_abs (secs * 1000000000)) = Inr (secs * 1000000000)"
proof -
  let ?mins = "secs div 60" let ?hours = "?mins div 60"
  have split: "secs = ?hours * 3600 + ?mins mod 60 * 60 + secs mod 60"
    using div_mult_mod_eq [of secs 60] div_mult_mod_eq [of ?mins 60] by linarith
  have total: "?hours * 3600000000000 + ?mins mod 60 * 60000000000 + secs mod 60 * 1000000000 = secs * 1000000000"
    using split by linarith
  have "fmtFrac (secs * 1000000000) 9 = []" by (rule fmtFrac_zero) simp
  then have str: "duration_abs (secs * 1000000000) =
      (if 0 < ?hours then format_nat ?hours @ ''h'' else []) @ (if 0 < ?mins then format_nat (?mins mod 60) @ ''m'' else []) @
      format_nat (secs mod 60) @ ''s''"
    using assms(1) by (simp add: duration_abs_def Let_def)
  have s: "parse_parts frac d (format_nat (secs mod 60) @ ''s'') = Inr (d + secs mod 60 * 1000000000)"
    if "d + secs mod 60 * 1000000000 < 2 ^ 63" for d
    using parse_parts_int [OF units(3) _ units(6), of "[]" d "secs mod 60" frac] that by (simp add: parse_parts.simps)
  have m: "parse_parts frac d (format_nat (?mins mod 60) @ ''m'' @ format_nat (secs mod 60) @ ''s'') =
      Inr (d + ?mins mod 60 * 60000000000 + secs mod 60 * 1000000000)"
    if "d + ?mins mod 60 * 60000000000 + secs mod 60 * 1000000000 < 2 ^ 63" for d
    using parse_parts_int [OF units(2) _ units(5) disjI2 [OF not_unit_format_nat], of d "?mins mod 60" frac] that s by simp
  have h: "parse_parts frac 0 (format_nat ?hours @ ''h'' @ format_nat (?mins mod 60) @ ''m'' @ format_nat (secs mod 60) @ ''s'') =
      Inr (secs * 1000000000)"
    using parse_parts_int [OF units(1) _ units(4) disjI2 [OF not_unit_format_nat], of 0 ?hours frac] m total assms(2) by simp
  show ?thesis
    using s [of 0] m [of 0] h total assms(2) unfolding str by (cases "0 < ?hours"; cases "0 < ?mins") simp_all
qed

lemma duration_abs_start:
  assumes "1000000000 \<le> u"
  shows "is_digit (hd (duration_abs u))" "duration_abs u \<noteq> []" "duration_abs u \<noteq> ''0''" "last (duration_abs u) = CHR ''s''"
  using assms format_nat_hd by (auto simp: duration_abs_def Let_def)

lemma ParseDuration_String:
  assumes "0 < d" "d < 2 ^ 63" "Second dvd d"
  shows "ParseDuration frac (Duration_String d) = Inr d"
proof -
  obtain k where k: "d = k * 1000000000" using assms(3) by (auto simp: Second_def mult.commute)
  define secs where "secs = nat k"
  have d: "nat d = secs * 1000000000" "0 < secs" "secs * 1000000000 < 2 ^ 63" "d = int (secs * 1000000000)"
    using assms(1,2) k by (auto simp: secs_def nat_mult_distrib)
  have big: "1000000000 \<le> secs * 1000000000" using d(2) by simp
  have "hd (duration_abs (secs * 1000000000)) \<notin> {CHR ''-'', CHR ''+''}"
    using duration_abs_start(1) [OF big] by (auto simp: is_digit_def)
  then show ?thesis
    using parse_parts_duration [OF d(2,3), of frac] duration_abs_start(2,3) [OF big] d
    by (simp add: ParseDuration_def Duration_String_def Let_def)
qed

end
