(* ===== verification/GCRoot.thy ===== *)
theory GCRoot
  imports GoTime Nixbase32
begin

text \<open>
  Package \<^verbatim>\<open>gcroot\<close> and the directory of gcroot links that importers and collectors share.  The
  directory is a map from full paths to files; \<open>gd_held\<close> lists the lock files some other process has
  flocked.  Failing system calls are the predicates of \<open>os_faults\<close>.
\<close>

section \<open>The directory\<close>

record rootfile =
  rf_mtime :: int
  rf_symlink :: bool
  rf_target :: string

record gcdir =
  gd_files :: "string \<rightharpoonup> rootfile"
  gd_held :: "string list"

record os_faults =
  lstat_fails :: "string \<Rightarrow> bool"
  readlink_fails :: "string \<Rightarrow> bool"
  remove_fails :: "string \<Rightarrow> bool"
  symlink_fails :: "string \<Rightarrow> bool"
  rename_fails :: "string \<Rightarrow> bool"
  mkdir_fails :: bool
  sync_fails :: bool
  lock_fails :: bool
  root_busy :: bool

definition no_faults :: os_faults where
  "no_faults = \<lparr>lstat_fails = (\<lambda>_. False), readlink_fails = (\<lambda>_. False), remove_fails = (\<lambda>_. False),
     symlink_fails = (\<lambda>_. False), rename_fails = (\<lambda>_. False), mkdir_fails = False, sync_fails = False,
     lock_fails = False, root_busy = False\<rparr>"

section \<open>Locks\<close>

definition LockDir :: string where
  "LockDir = ''.locks''"

datatype lock_error = ErrBusy | LockFailed

text \<open>
  \<^verbatim>\<open>openLock\<close> names the lock file of a key by the first byte of its SHA-256 digest (the parameter
  \<open>sha\<close>); several keys may share a stripe.
\<close>

definition lock_name :: "(bytes \<Rightarrow> bytes) \<Rightarrow> string \<Rightarrow> string" where
  "lock_name sha key = ''v1-'' @ hex_EncodeToString [hd (sha (bytes_of key))]"

text \<open>
  \<^verbatim>\<open>TryAcquire\<close>: opening the lock file may fail or find the directory's own lock taken; then the flock
  is taken unless somebody holds it.  The result is the name of the lock file now held.
\<close>

definition TryAcquire :: "(bytes \<Rightarrow> bytes) \<Rightarrow> os_faults \<Rightarrow> gcdir \<Rightarrow> string \<Rightarrow> lock_error + string" where
  "TryAcquire sha flt d key =
     (if lock_fails flt then Inl LockFailed
      else if root_busy flt then Inl ErrBusy
      else if lock_name sha key \<in> set (gd_held d) then Inl ErrBusy
      else Inr (lock_name sha key))"

section \<open>Names of roots\<close>

definition isGCRootName :: "string \<Rightarrow> bool" where
  "isGCRootName name = (case Cut name ''.'' of (hash, _, _) \<Rightarrow> ValidHashPart hash)"

definition pointsIntoStore :: "string \<Rightarrow> string \<Rightarrow> bool" where
  "pointsIntoStore target storeDir =
     (let store = path_Clean storeDir; t = path_Clean target in t = store \<or> HasPrefix t (store @ ''/''))"

section \<open>Lemmas on paths\<close>

definition plain_name :: "string \<Rightarrow> bool" where
  "plain_name s \<longleftrightarrow> s \<noteq> [] \<and> s \<noteq> ''.'' \<and> s \<noteq> ''..'' \<and> CHR ''/'' \<notin> set s"

lemma split_char_nonempty [simp]: "split_char c s \<noteq> []"
  by (induction s) (auto split: list.splits)

lemma split_char_append: "split_char c (d @ c # e) = split_char c d @ split_char c e"
  by (induction d) (auto split: list.splits)

lemma split_char_notin: "c \<notin> set e \<Longrightarrow> split_char c e = [e]"
  by (induction e) auto

lemma join_char_snoc: "ws \<noteq> [] \<Longrightarrow> join_char c (ws @ [w]) = join_char c ws @ c # w"
  by (induction ws rule: join_char.induct) (auto simp: neq_Nil_conv)

lemma path_Clean_plain:
  assumes "plain_name w"
  shows "\<exists>p. path_Clean (d @ CHR ''/'' # w) = p @ CHR ''/'' # w \<or> path_Clean (d @ CHR ''/'' # w) = w"
proof -
  let ?rooted = "hd (d @ CHR ''/'' # w) = CHR ''/''"
  let ?st = "foldl (clean_step ?rooted) [] (split_char CHR ''/'' d)"
  have "split_char CHR ''/'' (d @ CHR ''/'' # w) = split_char CHR ''/'' d @ [w]"
    using assms by (simp add: split_char_append split_char_notin plain_name_def)
  then have st: "foldl (clean_step ?rooted) [] (split_char CHR ''/'' (d @ CHR ''/'' # w)) = w # ?st"
    using assms by (simp add: clean_step_def plain_name_def)
  have "join_char CHR ''/'' (rev ?st @ [w]) = (if ?st = [] then w else join_char CHR ''/'' (rev ?st) @ CHR ''/'' # w)"
    by (simp add: join_char_snoc)
  then show ?thesis
    unfolding path_Clean_def Let_def st by (auto intro: exI [of _ "CHR ''/'' # x" for x])
qed

lemma path_Base_plain:
  assumes "plain_name w"
  shows "path_Base w = w"
proof -
  have w: "w \<noteq> []" "CHR ''/'' \<notin> set w" using assms by (simp_all add: plain_name_def)
  have dw: "dropWhile (\<lambda>c. c = CHR ''/'') (rev w) = rev w" using w by (cases "rev w") auto
  have tw: "takeWhile (\<lambda>c. c \<noteq> CHR ''/'') (rev w) = rev w" using w by (auto simp: takeWhile_eq_all_conv)
  show ?thesis using w(1) by (simp add: path_Base_def Let_def dw tw)
qed

lemma path_Base_Join:
  assumes "plain_name w"
  shows "path_Base (filepath_Join [d, w]) = w"
proof (cases "d = []")
  case True
  have "hd w \<noteq> CHR ''/''" using assms list.set_sel(1) [of w] by (metis plain_name_def)
  then have "path_Clean w = w"
    using assms by (simp add: path_Clean_def plain_name_def split_char_notin clean_step_def Let_def)
  then show ?thesis using True assms by (simp add: filepath_Join_def Let_def path_Base_plain plain_name_def)
next
  case False
  then have "filepath_Join [d, w] = path_Clean (d @ CHR ''/'' # w)"
    using assms by (simp add: filepath_Join_def Let_def plain_name_def)
  then show ?thesis
    using path_Clean_plain [OF assms, of d] path_Base_plain [OF assms] path_Base_suffix [of w] assms by (auto simp: plain_name_def)
qed

lemma Join_plain_inj: "plain_name v \<Longrightarrow> plain_name w \<Longrightarrow> filepath_Join [d, v] = filepath_Join [d, w] \<longleftrightarrow> v = w"
  by (metis path_Base_Join)

lemma isGCRootName_plain:
  assumes "isGCRootName w" "CHR ''/'' \<notin> set w"
  shows "plain_name w"
proof -
  have "w \<noteq> []" "w \<noteq> ''.''" "w \<noteq> ''..''"
    using assms(1) by (auto simp: isGCRootName_def Cut_char ValidHashPart_def HashPartLen_def)
  then show ?thesis using assms(2) by (simp add: plain_name_def)
qed

lemma Join_plain: "\<exists>p. \<forall>w. plain_name w \<longrightarrow> filepath_Join [d, w] = p @ w"
proof (cases "d = []")
  case True
  have "filepath_Join [d, w] = w" if "plain_name w" for w
  proof -
    have "hd w \<noteq> CHR ''/''" using that list.set_sel(1) [of w] by (metis plain_name_def)
    then show ?thesis
      using that True by (simp add: filepath_Join_def path_Clean_def plain_name_def split_char_notin clean_step_def Let_def)
  qed
  then show ?thesis by (intro exI [of _ "[]"]) simp
next
  case False
  let ?rooted = "hd d = CHR ''/''"
  let ?st = "rev (foldl (clean_step ?rooted) [] (split_char CHR ''/'' d))"
  let ?p = "(if ?rooted then ''/'' else []) @ (if ?st = [] then [] else join_char CHR ''/'' ?st @ ''/'')"
  have "filepath_Join [d, w] = ?p @ w" if "plain_name w" for w
  proof -
    have split: "split_char CHR ''/'' (d @ CHR ''/'' # w) = split_char CHR ''/'' d @ [w]"
      using that by (simp add: split_char_append split_char_notin plain_name_def)
    have "join_char CHR ''/'' (rev st @ [w]) = (if st = [] then w else join_char CHR ''/'' (rev st) @ CHR ''/'' # w)" for st
      by (simp add: join_char_snoc)
    then show ?thesis
      using that False by (simp add: filepath_Join_def path_Clean_def plain_name_def split clean_step_def Let_def)
  qed
  then show ?thesis by blast
qed

end
