(* ===== verification/Gc.thy ===== *)
theory Gc
  imports GCRoot
begin

text \<open>
  Garbage collection (\<^verbatim>\<open>cli/gc.go\<close>): the rules of the command line, which gcroots a rule makes
  eligible, pruning them under their locks, running \<^verbatim>\<open>nix-collect-garbage\<close> and the watcher that repeats
  this.  Times and durations are nanoseconds.  The outcome of every system call and of the child process
  is part of an environment; log lines are left out, the counters they print are kept.
\<close>

section \<open>Rules\<close>

definition maxDurationDays :: int where
  "maxDurationDays = (2 ^ 63 - 1) div (24 * Hour)"

definition collectCooldownFloor :: int where
  "collectCooldownFloor = Hour"

text \<open>\<^verbatim>\<open>gcRootEpoch\<close>, 2026-01-01T00:00:00Z, in Unix nanoseconds.\<close>

definition gcRootEpoch :: int where
  "gcRootEpoch = 1767225600 * Second"

definition defaultStoreDir :: string where
  "defaultStoreDir = ''/nix/store''"

datatype gc_error =
    MissingColon | InvalidPct | EmptyDuration | NoRules | BadDuration | NonPositiveDuration | DurationTooLarge
  | ParseDurationErr dur_error | NonDefaultStoreDir | ZeroBlocks | RootDirUnusable
  | StatfsErr | ReadDirErr | GCLockErr | LstatErr | RemoveErr | SyncErr | CollectErr

record GCRule =
  ThresholdPct :: int
  OlderThan :: int

definition parseDurationString :: "(nat \<Rightarrow> nat \<Rightarrow> nat \<Rightarrow> nat) \<Rightarrow> string \<Rightarrow> gc_error + int" where
  "parseDurationString frac s =
     (case CutSuffix s ''d'' of
        (before, True) \<Rightarrow>
          (case ParseInt before of
             Inl _ \<Rightarrow> Inl BadDuration
           | Inr k \<Rightarrow>
               if k \<le> 0 then Inl BadDuration
               else if maxDurationDays < k then Inl DurationTooLarge
               else Inr (int64 (int64 (k * 24) * Hour)))
      | (_, False) \<Rightarrow>
          (case ParseDuration frac s of
             Inl e \<Rightarrow> Inl (ParseDurationErr e)
           | Inr d \<Rightarrow> if d \<le> 0 then Inl NonPositiveDuration else Inr d))"

definition parseGCRule :: "(nat \<Rightarrow> nat \<Rightarrow> nat \<Rightarrow> nat) \<Rightarrow> string \<Rightarrow> gc_error + GCRule" where
  "parseGCRule frac s =
     (case Cut s '':'' of
        (pct, rest, ok) \<Rightarrow>
          if \<not> ok then Inl MissingColon
          else case ParseInt pct of
            Inl _ \<Rightarrow> Inl InvalidPct
          | Inr k \<Rightarrow>
              if k < 1 \<or> 100 < k then Inl InvalidPct
              else if rest = [] then Inl EmptyDuration
              else case parseDurationString frac rest of
                Inl e \<Rightarrow> Inl e
              | Inr d \<Rightarrow> Inr \<lparr>ThresholdPct = k, OlderThan = d\<rparr>)"

text \<open>Go's remainder truncates; it is zero exactly when the divisor divides.\<close>

definition formatDuration :: "int \<Rightarrow> string" where
  "formatDuration d =
     (if (24 * Hour) dvd d then format_int (sgn d * (\<bar>d\<bar> div (24 * Hour))) @ ''d'' else Duration_String d)"

definition GCRule_String :: "GCRule \<Rightarrow> string" where
  "GCRule_String r = format_int (ThresholdPct r) @ '':'' @ formatDuration (OlderThan r)"

text \<open>The repeatable flag: rules accumulate in the order they are given.\<close>

definition gcRulesFlag_Set :: "(nat \<Rightarrow> nat \<Rightarrow> nat \<Rightarrow> nat) \<Rightarrow> GCRule list \<Rightarrow> string \<Rightarrow> gc_error + GCRule list" where
  "gcRulesFlag_Set frac rules s = (case parseGCRule frac s of Inl e \<Rightarrow> Inl e | Inr r \<Rightarrow> Inr (rules @ [r]))"

fun select_loop :: "GCRule option \<Rightarrow> GCRule list \<Rightarrow> int \<Rightarrow> GCRule option" where
  "select_loop best [] usedPct = best"
| "select_loop best (r # rs) usedPct =
     select_loop
       (if ThresholdPct r \<le> usedPct \<and> (case best of None \<Rightarrow> True | Some b \<Rightarrow> ThresholdPct b < ThresholdPct r)
        then Some r else best) rs usedPct"

definition selectRule :: "GCRule list \<Rightarrow> int \<Rightarrow> GCRule option" where
  "selectRule rules usedPct = select_loop None rules usedPct"

section \<open>Which roots are stale\<close>

text \<open>\<open>env\<close> of one pass: the directories, the cutoff and the clock.\<close>

record prune_env =
  pe_gcrootDir :: string
  pe_storeDir :: string
  pe_cutoff :: int
  pe_now :: int
  pe_faults :: os_faults

record selection =
  sel_stale :: "(string \<times> int) list"
  sel_kept :: nat
  sel_keptExample :: string
  sel_skewed :: nat
  sel_linkErrPath :: "string option"

definition keep :: "string \<Rightarrow> selection \<Rightarrow> selection" where
  "keep path sel = sel\<lparr>sel_kept := sel_kept sel + 1,
     sel_keptExample := (if sel_keptExample sel = [] then path else sel_keptExample sel)\<rparr>"

definition lstat :: "os_faults \<Rightarrow> gcdir \<Rightarrow> string \<Rightarrow> rootfile option" where
  "lstat flt d path = (if lstat_fails flt path then None else gd_files d path)"

definition select_entry :: "prune_env \<Rightarrow> gcdir \<Rightarrow> string \<Rightarrow> selection \<Rightarrow> selection" where
  "select_entry pe d name sel =
     (let path = filepath_Join [pe_gcrootDir pe, name] in
      if name = LockDir then sel
      else if \<not> isGCRootName name then keep path sel
      else case lstat (pe_faults pe) d path of
        None \<Rightarrow> sel
      | Some fi \<Rightarrow>
          if pe_cutoff pe < rf_mtime fi then sel
          else if rf_mtime fi < gcRootEpoch then sel\<lparr>sel_skewed := sel_skewed sel + 1\<rparr>
          else if \<not> rf_symlink fi then keep path sel
          else if readlink_fails (pe_faults pe) path
          then keep path (if sel_linkErrPath sel = None then sel\<lparr>sel_linkErrPath := Some path\<rparr> else sel)
          else if \<not> pointsIntoStore (rf_target fi) (pe_storeDir pe) then keep path sel
          else sel\<lparr>sel_stale := sel_stale sel @ [(path, pe_now pe - rf_mtime fi)]\<rparr>)"

definition empty_selection :: selection where
  "empty_selection = \<lparr>sel_stale = [], sel_kept = 0, sel_keptExample = [], sel_skewed = 0, sel_linkErrPath = None\<rparr>"

definition selectStaleGCRoots :: "prune_env \<Rightarrow> gcdir \<Rightarrow> string list \<Rightarrow> selection" where
  "selectStaleGCRoots pe d entries = foldl (\<lambda>sel name. select_entry pe d name sel) empty_selection entries"

section \<open>Pruning\<close>

definition remove_file :: "string \<Rightarrow> gcdir \<Rightarrow> gcdir" where
  "remove_file path d = d\<lparr>gd_files := (gd_files d)(path := None)\<rparr>"

definition pruneLockedRoot ::
  "(bytes \<Rightarrow> bytes) \<Rightarrow> prune_env \<Rightarrow> string \<Rightarrow> gcdir \<Rightarrow> (gc_error + bool) \<times> gcdir" where
  "pruneLockedRoot sha pe path d =
     (let flt = pe_faults pe; key = fst (Cut (path_Base path) ''.'') in
      case TryAcquire sha flt d key of
        Inl ErrBusy \<Rightarrow> (Inr False, d)
      | Inl LockFailed \<Rightarrow> (Inl GCLockErr, d)
      | Inr _ \<Rightarrow>
          if lstat_fails flt path then (Inl LstatErr, d)
          else case gd_files d path of
            None \<Rightarrow> (Inr False, d)
          | Some fi \<Rightarrow>
              if sel_stale (selectStaleGCRoots pe d [path_Base path]) = [] then (Inr False, d)
              else if remove_fails flt path then (Inl RemoveErr, d)
              else if sync_fails flt then (Inl SyncErr, remove_file path d)
              else (Inr True, remove_file path d))"

record pruneResult =
  pr_pruned :: nat
  pr_failed :: nat

fun prune_loop ::
  "(bytes \<Rightarrow> bytes) \<Rightarrow> prune_env \<Rightarrow> bool \<Rightarrow> (string \<times> int) list \<Rightarrow> pruneResult \<Rightarrow> gc_error list \<Rightarrow> gcdir
   \<Rightarrow> pruneResult \<times> gc_error list \<times> gcdir" where
  "prune_loop sha pe dryRun [] res errs d = (res, errs, d)"
| "prune_loop sha pe dryRun ((path, age) # roots) res errs d =
     (if dryRun then prune_loop sha pe dryRun roots (res\<lparr>pr_pruned := pr_pruned res + 1\<rparr>) errs d
      else case pruneLockedRoot sha pe path d of
        (Inl e, d') \<Rightarrow> prune_loop sha pe dryRun roots (res\<lparr>pr_failed := pr_failed res + 1\<rparr>) (errs @ [e]) d'
      | (Inr False, d') \<Rightarrow> prune_loop sha pe dryRun roots res errs d'
      | (Inr True, d') \<Rightarrow> prune_loop sha pe dryRun roots (res\<lparr>pr_pruned := pr_pruned res + 1\<rparr>) errs d')"

datatype read_dir = NoDir | DirError | Entries "string list"

text \<open>\<^verbatim>\<open>pruneOldGCRoots\<close>; the list of errors stands for their \<^verbatim>\<open>errors.Join\<close>, nil when empty.\<close>

definition pruneOldGCRoots ::
  "(bytes \<Rightarrow> bytes) \<Rightarrow> os_faults \<Rightarrow> read_dir \<Rightarrow> int \<Rightarrow> string \<Rightarrow> string \<Rightarrow> int \<Rightarrow> bool \<Rightarrow> gcdir
   \<Rightarrow> pruneResult \<times> gc_error list \<times> gcdir" where
  "pruneOldGCRoots sha flt listing now gcrootDir storeDir minAge dryRun d =
     (let none = \<lparr>pr_pruned = 0, pr_failed = 0\<rparr> in
      case listing of
        NoDir \<Rightarrow> (none, [], d)
      | DirError \<Rightarrow> (none, [ReadDirErr], d)
      | Entries entries \<Rightarrow>
          let pe = \<lparr>pe_gcrootDir = gcrootDir, pe_storeDir = storeDir, pe_cutoff = now - minAge, pe_now = now, pe_faults = flt\<rparr>
          in prune_loop sha pe dryRun (sel_stale (selectStaleGCRoots pe d entries)) none [] d)"

section \<open>Disk usage and collecting\<close>

record statfs =
  st_Blocks :: uint64
  st_Bfree :: uint64
  st_Bavail :: uint64
  st_Bsize :: uint64

definition diskUsedPct :: "statfs option \<Rightarrow> gc_error + int" where
  "diskUsedPct st =
     (case st of
        None \<Rightarrow> Inl StatfsErr
      | Some s \<Rightarrow> if st_Blocks s = 0 then Inl ZeroBlocks
                  else Inr (int64 (uint (100 * (st_Blocks s - st_Bfree s) div st_Blocks s))))"

record gcMetrics =
  m_checks :: nat
  m_runs :: "int \<Rightarrow> nat"
  m_rootsPruned :: nat
  m_freedBytes :: nat
  m_statfsErrors :: nat
  m_pruneErrors :: nat
  m_collectErrors :: nat
  m_diskUsedPct :: int

record gcRunner =
  g_storeDir :: string
  g_gcrootDir :: string
  g_rules :: "GCRule list"
  g_dryRun :: bool
  g_metrics :: "gcMetrics option"
  g_cooldown :: int
  g_lastCollect :: "int option"
  g_lastFreed :: uint64

definition upd_metrics :: "(gcMetrics \<Rightarrow> gcMetrics) \<Rightarrow> gcRunner \<Rightarrow> gcRunner" where
  "upd_metrics f g = g\<lparr>g_metrics := map_option f (g_metrics g)\<rparr>"

text \<open>What the outside world answers during one check.\<close>

record check_env =
  ce_statfs :: "statfs option"
  ce_listing :: read_dir
  ce_faults :: os_faults
  ce_pruneNow :: int
  ce_skipNow :: int
  ce_before :: "statfs option"
  ce_childOk :: bool
  ce_after :: "statfs option"
  ce_collectNow :: int

definition runCollectGarbage :: "check_env \<Rightarrow> gcRunner \<Rightarrow> (gc_error + uint64) \<times> gcRunner" where
  "runCollectGarbage ce g =
     (if \<not> ce_childOk ce then (Inl CollectErr, upd_metrics (\<lambda>m. m\<lparr>m_collectErrors := m_collectErrors m + 1\<rparr>) g)
      else let freed = (case (ce_before ce, ce_after ce) of
                          (Some b, Some a) \<Rightarrow> if st_Bavail b < st_Bavail a then (st_Bavail a - st_Bavail b) * st_Bsize a else 0
                        | _ \<Rightarrow> 0)
           in (Inr freed, upd_metrics (\<lambda>m. m\<lparr>m_freedBytes := m_freedBytes m + unat freed\<rparr>) g))"

definition skipCollect :: "int \<Rightarrow> nat \<Rightarrow> gcRunner \<Rightarrow> bool" where
  "skipCollect now pruned g =
     (case g_lastCollect g of
        None \<Rightarrow> False
      | Some t \<Rightarrow> \<not> (0 < pruned) \<and> \<not> (0 < g_lastFreed g \<or> g_cooldown g \<le> now - t))"

definition gc_apply ::
  "(bytes \<Rightarrow> bytes) \<Rightarrow> check_env \<Rightarrow> gcRunner \<Rightarrow> gcdir \<Rightarrow> (gc_error list + bool) \<times> gcRunner \<times> gcdir" where
  "gc_apply sha ce g0 d =
     (let g = upd_metrics (\<lambda>m. m\<lparr>m_checks := m_checks m + 1\<rparr>) g0 in
      case diskUsedPct (ce_statfs ce) of
        Inl e \<Rightarrow> (Inl [e], upd_metrics (\<lambda>m. m\<lparr>m_statfsErrors := m_statfsErrors m + 1\<rparr>) g, d)
      | Inr usedPct \<Rightarrow>
          let g1 = upd_metrics (\<lambda>m. m\<lparr>m_diskUsedPct := usedPct\<rparr>) g in
          case selectRule (g_rules g) usedPct of
            None \<Rightarrow> (Inr False, g1, d)
          | Some rule \<Rightarrow>
              let g2 = upd_metrics (\<lambda>m. m\<lparr>m_runs := (m_runs m)(ThresholdPct rule := m_runs m (ThresholdPct rule) + 1)\<rparr>) g1 in
              case pruneOldGCRoots sha (ce_faults ce) (ce_listing ce) (ce_pruneNow ce) (g_gcrootDir g) (g_storeDir g)
                     (OlderThan rule) (g_dryRun g) d of
                (res, errs, d') \<Rightarrow>
                  let g3 = upd_metrics (\<lambda>m. m\<lparr>m_rootsPruned := m_rootsPruned m + pr_pruned res,
                                               m_pruneErrors := m_pruneErrors m + pr_failed res\<rparr>) g2 in
                  if errs \<noteq> [] then (Inl errs, upd_metrics (\<lambda>m. m\<lparr>m_pruneErrors := m_pruneErrors m + 1\<rparr>) g3, d')
                  else if skipCollect (ce_skipNow ce) (pr_pruned res) g3 then (Inr False, g3, d')
                  else case runCollectGarbage ce g3 of
                    (Inl e, g4) \<Rightarrow> (Inl [e], g4\<lparr>g_lastCollect := Some (ce_collectNow ce), g_lastFreed := 0\<rparr>, d')
                  | (Inr freed, g4) \<Rightarrow> (Inr True, g4\<lparr>g_lastCollect := Some (ce_collectNow ce), g_lastFreed := freed\<rparr>, d'))"

section \<open>The watcher and the command\<close>

text \<open>\<^verbatim>\<open>gcRootsCollector.Collect\<close>: the gauge of current roots, absent when the directory is unreadable.\<close>

definition gcRoots_Collect :: "string \<Rightarrow> read_dir \<Rightarrow> gcdir \<Rightarrow> nat option" where
  "gcRoots_Collect gcrootDir listing d =
     (case listing of
        DirError \<Rightarrow> None
      | NoDir \<Rightarrow> Some 0
      | Entries es \<Rightarrow>
          Some (length (filter (\<lambda>name. isGCRootName name \<and>
            (case gd_files d (filepath_Join [gcrootDir, name]) of None \<Rightarrow> False | Some fi \<Rightarrow> rf_symlink fi)) es)))"

definition new_watcher :: "string \<Rightarrow> string \<Rightarrow> GCRule list \<Rightarrow> int \<Rightarrow> gcMetrics option \<Rightarrow> gcRunner" where
  "new_watcher storeDir gcrootDir rules interval m =
     \<lparr>g_storeDir = storeDir, g_gcrootDir = gcrootDir, g_rules = rules, g_dryRun = False, g_metrics = m,
      g_cooldown = max interval collectCooldownFloor, g_lastCollect = None, g_lastFreed = 0\<rparr>"

text \<open>
  The checks of \<^verbatim>\<open>runGCWatcher\<close>, one per tick; between ticks other processes may have changed the
  directory to what \<open>others\<close> makes of it.
\<close>

fun watch_checks ::
  "(bytes \<Rightarrow> bytes) \<Rightarrow> (check_env \<times> (gcdir \<Rightarrow> gcdir)) list \<Rightarrow> gcRunner \<Rightarrow> gcdir \<Rightarrow> gcRunner \<times> gcdir" where
  "watch_checks sha [] g d = (g, d)"
| "watch_checks sha ((ce, others) # ticks) g d =
     (case gc_apply sha ce g (others d) of (_, g', d') \<Rightarrow> watch_checks sha ticks g' d')"

definition checkGCRootDir :: "bool option \<Rightarrow> gc_error option" where
  "checkGCRootDir st = (case st of Some True \<Rightarrow> None | _ \<Rightarrow> Some RootDirUnusable)"

text \<open>The \<^verbatim>\<open>gc\<close> command; \<open>dirStat\<close> is \<^verbatim>\<open>os.Stat\<close> of the gcroot directory (is it a directory?).\<close>

definition gc_Exec ::
  "(bytes \<Rightarrow> bytes) \<Rightarrow> check_env \<Rightarrow> bool option \<Rightarrow> GCRule list \<Rightarrow> string \<Rightarrow> string \<Rightarrow> bool \<Rightarrow> gcdir
   \<Rightarrow> gc_error list \<times> gcdir" where
  "gc_Exec sha ce dirStat rules storeDir gcrootDir dryRun d =
     (if rules = [] then ([NoRules], d)
      else if path_Clean storeDir \<noteq> defaultStoreDir then ([NonDefaultStoreDir], d)
      else case checkGCRootDir dirStat of
        Some e \<Rightarrow> ([e], d)
      | None \<Rightarrow>
          let g = \<lparr>g_storeDir = storeDir, g_gcrootDir = gcrootDir, g_rules = rules, g_dryRun = dryRun, g_metrics = None,
                   g_cooldown = 0, g_lastCollect = None, g_lastFreed = 0\<rparr>
          in case gc_apply sha ce g d of
               (Inl errs, _, d') \<Rightarrow> (errs, d')
             | (Inr _, _, d') \<Rightarrow> ([], d'))"

section \<open>Rules parse back\<close>

definition wf_rule :: "GCRule \<Rightarrow> bool" where
  "wf_rule r \<longleftrightarrow> 1 \<le> ThresholdPct r \<and> ThresholdPct r \<le> 100 \<and> 0 < OlderThan r \<and> OlderThan r < 2 ^ 63"

lemma day_ns: "24 * Hour = 86400000000000" "maxDurationDays = 106751" "Second = 1000000000"
  by (simp_all add: Hour_def Minute_def Second_def maxDurationDays_def)

lemma days_no_wrap: "0 < k \<Longrightarrow> k \<le> maxDurationDays \<Longrightarrow> int64 (int64 (k * 24) * Hour) = k * (24 * Hour)"
  by (simp add: day_ns int64_id Hour_def Minute_def Second_def)

lemma days_bound: "0 < k \<Longrightarrow> k \<le> maxDurationDays \<Longrightarrow> 0 < k * (24 * Hour) \<and> k * (24 * Hour) < 2 ^ 63"
  by (simp add: day_ns)

lemma ParseDuration_bound: "ParseDuration frac s = Inr d \<Longrightarrow> d < 2 ^ 63"
  by (auto simp: ParseDuration_def Let_def split: if_splits sum.splits)

lemma parseDurationString_bounds:
  assumes "parseDurationString frac s = Inr d"
  shows "0 < d \<and> d < 2 ^ 63"
  using assms days_no_wrap days_bound ParseDuration_bound
  by (auto simp: parseDurationString_def not_le not_less split: prod.splits bool.splits sum.splits if_splits)

lemma parseGCRule_wf: "parseGCRule frac s = Inr r \<Longrightarrow> wf_rule r"
  by (auto simp: parseGCRule_def wf_rule_def dest: parseDurationString_bounds split: prod.splits sum.splits if_splits)

lemma CutSuffix_append [simp]: "CutSuffix (t @ p) p = (t, True)"
  by (simp add: CutSuffix_def HasSuffix_def)

lemma CutSuffix_last: "s \<noteq> [] \<Longrightarrow> last s \<noteq> c \<Longrightarrow> CutSuffix s [c] = (s, False)"
  by (auto simp: CutSuffix_def HasSuffix_iff)

lemma parseDurationString_format:
  assumes "0 < d" "d < 2 ^ 63" "Second dvd d"
  shows "parseDurationString frac (formatDuration d) = Inr d"
proof (cases "24 * Hour dvd d")
  case True
  then obtain k where k: "d = (24 * Hour) * k" by blast
  have "0 < k" using assms(1) k by (simp add: day_ns zero_less_mult_iff)
  moreover have "k \<le> maxDurationDays" using assms(2) k by (simp add: day_ns)
  moreover have "sgn d * (\<bar>d\<bar> div (24 * Hour)) = k" using assms(1) k by (simp add: day_ns)
  moreover have "ParseInt (format_int k) = Inr k" using calculation by (simp add: ParseInt_format_int day_ns)
  ultimately show ?thesis
    using True k days_no_wrap [of k] by (simp add: formatDuration_def parseDurationString_def mult.commute)
next
  case False
  obtain secs where "d = Second * secs" using assms(3) by blast
  then have "1000000000 \<le> nat d" using assms(1) by (simp add: Second_def zero_less_mult_iff)
  then have "Duration_String d \<noteq> []" "last (Duration_String d) = CHR ''s''"
    using duration_abs_start(2,4) [of "nat d"] assms(1) by (simp_all add: Duration_String_def)
  then have "CutSuffix (Duration_String d) ''d'' = (Duration_String d, False)" by (intro CutSuffix_last) auto
  then show ?thesis
    using False ParseDuration_String [OF assms] assms(1) by (simp add: formatDuration_def parseDurationString_def)
qed

lemma format_int_digits: "0 \<le> x \<Longrightarrow> c \<in> set (format_int x) \<Longrightarrow> is_digit c"
  using format_nat_digits by (auto simp: format_int_def is_digit_def)

lemma formatDuration_nonempty: "formatDuration d \<noteq> []"
  by (auto simp: formatDuration_def Duration_String_def duration_abs_def Let_def)

lemma parseGCRule_String:
  assumes "wf_rule r" "Second dvd OlderThan r"
  shows "parseGCRule frac (GCRule_String r) = Inr r"
proof -
  have "CHR '':'' \<notin> set (format_int (ThresholdPct r))"
    using format_int_digits [of "ThresholdPct r" "CHR '':''"] assms(1) by (auto simp: wf_rule_def is_digit_def)
  then have "Cut (GCRule_String r) '':'' = (format_int (ThresholdPct r), formatDuration (OlderThan r), True)"
    using Cut_char_append by (simp add: GCRule_String_def)
  then show ?thesis
    using assms parseDurationString_format [of "OlderThan r" frac] ParseInt_format_int [of "ThresholdPct r"] formatDuration_nonempty
    by (simp add: parseGCRule_def wf_rule_def)
qed

section \<open>Selecting a rule\<close>

lemma select_loop_spec:
  "select_loop best rs u = Some r \<Longrightarrow> (\<And>b. best = Some b \<Longrightarrow> ThresholdPct b \<le> u) \<Longrightarrow>
   (best = Some r \<or> r \<in> set rs) \<and> ThresholdPct r \<le> u \<and>
   (\<forall>x\<in>set rs. ThresholdPct x \<le> u \<longrightarrow> ThresholdPct x \<le> ThresholdPct r) \<and>
   (\<forall>b. best = Some b \<longrightarrow> ThresholdPct b \<le> ThresholdPct r)"
  "select_loop best rs u = None \<Longrightarrow> best = None \<and> (\<forall>x\<in>set rs. u < ThresholdPct x)"
  by (induction best rs u rule: select_loop.induct) (fastforce split: if_splits option.splits)+

section \<open>What is pruned\<close>

definition stale_root :: "prune_env \<Rightarrow> gcdir \<Rightarrow> string \<Rightarrow> bool" where
  "stale_root pe d name \<longleftrightarrow> isGCRootName name \<and>
     (case lstat (pe_faults pe) d (filepath_Join [pe_gcrootDir pe, name]) of
        None \<Rightarrow> False
      | Some fi \<Rightarrow> gcRootEpoch \<le> rf_mtime fi \<and> rf_mtime fi \<le> pe_cutoff pe \<and> rf_symlink fi \<and>
          \<not> readlink_fails (pe_faults pe) (filepath_Join [pe_gcrootDir pe, name]) \<and>
          pointsIntoStore (rf_target fi) (pe_storeDir pe))"

lemma LockDir_no_root: "\<not> isGCRootName LockDir"
  by (simp add: isGCRootName_def LockDir_def Cut_char ValidHashPart_def HashPartLen_def)

lemma select_entry_stale:
  "map fst (sel_stale (select_entry pe d name sel)) =
   map fst (sel_stale sel) @ (if stale_root pe d name then [filepath_Join [pe_gcrootDir pe, name]] else [])"
  using LockDir_no_root
  by (auto simp: select_entry_def stale_root_def keep_def Let_def split: option.splits)

lemma selectStale_eq:
  "map fst (sel_stale (selectStaleGCRoots pe d es)) =
   map (\<lambda>name. filepath_Join [pe_gcrootDir pe, name]) (filter (stale_root pe d) es)"
proof -
  have "map fst (sel_stale (foldl (\<lambda>sel name. select_entry pe d name sel) sel es)) =
      map fst (sel_stale sel) @ map (\<lambda>name. filepath_Join [pe_gcrootDir pe, name]) (filter (stale_root pe d) es)" for sel
    by (induction es arbitrary: sel) (simp_all add: select_entry_stale)
  then show ?thesis by (simp add: selectStaleGCRoots_def empty_selection_def)
qed

lemma selectStale_single: "sel_stale (selectStaleGCRoots pe d [name]) = [] \<longleftrightarrow> \<not> stale_root pe d name"
  using selectStale_eq [of pe d "[name]"] by (metis (no_types, lifting) filter.simps list.map_disc_iff list.simps(3,8))

definition root_lock :: "(bytes \<Rightarrow> bytes) \<Rightarrow> string \<Rightarrow> string" where
  "root_lock sha name = lock_name sha (fst (Cut name ''.''))"

text \<open>One removal, whatever other processes did to the directory since it was listed.\<close>

lemma pruneLockedRoot_safe:
  assumes "plain_name name" "pruneLockedRoot sha pe (filepath_Join [pe_gcrootDir pe, name]) d = (r, d')"
  shows "d' = d \<or> (d' = remove_file (filepath_Join [pe_gcrootDir pe, name]) d \<and> stale_root pe d name \<and>
    root_lock sha name \<notin> set (gd_held d))"
  using assms path_Base_Join [OF assms(1), of "pe_gcrootDir pe"]
  by (auto simp: pruneLockedRoot_def Let_def TryAcquire_def root_lock_def selectStale_single
      split: sum.splits lock_error.splits option.splits if_splits)

lemma pruneLockedRoot_ok:
  assumes "plain_name name" "stale_root pe d name" "root_lock sha name \<notin> set (gd_held d)" "pe_faults pe = no_faults"
  shows "pruneLockedRoot sha pe (filepath_Join [pe_gcrootDir pe, name]) d =
    (Inr True, remove_file (filepath_Join [pe_gcrootDir pe, name]) d)"
  using assms path_Base_Join [OF assms(1), of "pe_gcrootDir pe"]
  by (auto simp: pruneLockedRoot_def Let_def TryAcquire_def root_lock_def selectStale_single no_faults_def lstat_def stale_root_def
      split: option.splits)

definition root_path :: "prune_env \<Rightarrow> string \<Rightarrow> string" where
  "root_path pe name = filepath_Join [pe_gcrootDir pe, name]"

lemma stale_root_cong: "gd_files d (root_path pe name) = gd_files d' (root_path pe name) \<Longrightarrow> stale_root pe d name = stale_root pe d' name"
  by (simp add: stale_root_def lstat_def root_path_def)

lemma stale_root_file: "stale_root pe d name \<Longrightarrow> gd_files d (root_path pe name) \<noteq> None"
  by (auto simp: stale_root_def lstat_def root_path_def split: option.splits if_splits)

text \<open>\<open>only_stale\<close>: every difference between two directories is the removal of a stale, unlocked root.\<close>

definition only_stale :: "(bytes \<Rightarrow> bytes) \<Rightarrow> prune_env \<Rightarrow> string list \<Rightarrow> gcdir \<Rightarrow> gcdir \<Rightarrow> bool" where
  "only_stale sha pe es d d' \<longleftrightarrow> gd_held d' = gd_held d \<and>
     (\<forall>p. gd_files d' p = gd_files d p \<or>
       (gd_files d' p = None \<and> (\<exists>name\<in>set es. p = root_path pe name \<and> stale_root pe d name \<and> root_lock sha name \<notin> set (gd_held d))))"

lemma only_stale_refl [simp]: "only_stale sha pe es d d"
  by (simp add: only_stale_def)

lemma only_stale_trans:
  assumes "only_stale sha pe es d d1" "only_stale sha pe es d1 d2"
  shows "only_stale sha pe es d d2"
proof -
  have "gd_files d2 p = gd_files d p \<or>
      (gd_files d2 p = None \<and> (\<exists>name\<in>set es. p = root_path pe name \<and> stale_root pe d name \<and> root_lock sha name \<notin> set (gd_held d)))" for p
  proof (cases "gd_files d1 p = gd_files d p")
    case True
    then show ?thesis using assms stale_root_cong [of d1 pe _ d] unfolding only_stale_def by metis
  next
    case False
    then have "gd_files d1 p = None" using assms(1) unfolding only_stale_def by metis
    then have "gd_files d2 p = None" using assms(2) stale_root_file unfolding only_stale_def by metis
    then show ?thesis using False assms(1) unfolding only_stale_def by metis
  qed
  then show ?thesis using assms unfolding only_stale_def by simp
qed

lemma prune_loop_only_stale:
  assumes "\<And>p age. (p, age) \<in> set roots \<Longrightarrow> \<exists>name\<in>set es. plain_name name \<and> p = root_path pe name"
    and "prune_loop sha pe dryRun roots res errs d = (res', errs', d')"
  shows "only_stale sha pe es d d' \<and> (dryRun \<longrightarrow> d' = d)"
  using assms
proof (induction sha pe dryRun roots res errs d rule: prune_loop.induct)
  case (2 sha pe dryRun path age roots res errs d)
  obtain r d1 where r: "pruneLockedRoot sha pe path d = (r, d1)" by fastforce
  obtain name where name: "name \<in> set es" "plain_name name" "path = root_path pe name" using "2.prems"(1) [of path age] by auto
  have first: "only_stale sha pe es d d1"
    using pruneLockedRoot_safe [OF name(2), of sha pe d r d1] r name
    by (auto simp: only_stale_def root_path_def remove_file_def split: if_splits)
  have rest: "\<And>p age. (p, age) \<in> set roots \<Longrightarrow> \<exists>name\<in>set es. plain_name name \<and> p = root_path pe name"
    using "2.prems"(1) by auto
  show ?case
  proof (cases dryRun)
    case True
    then show ?thesis using "2.IH"(1) [OF True rest] "2.prems"(2) by simp
  next
    case False
    have "only_stale sha pe es d1 d'"
      using "2.IH"(2-4) False r rest "2.prems"(2) by (auto split: sum.splits bool.splits)
    then show ?thesis using False only_stale_trans [OF first] by simp
  qed
qed simp

definition prune_env_of :: "os_faults \<Rightarrow> int \<Rightarrow> string \<Rightarrow> string \<Rightarrow> int \<Rightarrow> prune_env" where
  "prune_env_of flt now gcrootDir storeDir minAge =
     \<lparr>pe_gcrootDir = gcrootDir, pe_storeDir = storeDir, pe_cutoff = now - minAge, pe_now = now, pe_faults = flt\<rparr>"

lemma selected_names:
  assumes "(p, age) \<in> set (sel_stale (selectStaleGCRoots pe d es))"
  shows "\<exists>name\<in>set es. stale_root pe d name \<and> p = root_path pe name"
proof -
  have "p \<in> set (map fst (sel_stale (selectStaleGCRoots pe d es)))" using assms by force
  then show ?thesis unfolding selectStale_eq by (auto simp: root_path_def)
qed

lemma stale_root_plain: "stale_root pe d name \<Longrightarrow> CHR ''/'' \<notin> set name \<Longrightarrow> plain_name name"
  using isGCRootName_plain by (simp add: stale_root_def)

lemma pruneOld_only_stale:
  assumes "\<And>name. name \<in> set es \<Longrightarrow> CHR ''/'' \<notin> set name"
    and "pruneOldGCRoots sha flt (Entries es) now gcrootDir storeDir minAge dryRun d = (res, errs, d')"
  shows "only_stale sha (prune_env_of flt now gcrootDir storeDir minAge) es d d' \<and> (dryRun \<longrightarrow> d' = d)"
proof -
  let ?pe = "prune_env_of flt now gcrootDir storeDir minAge"
  have "prune_loop sha ?pe dryRun (sel_stale (selectStaleGCRoots ?pe d es)) \<lparr>pr_pruned = 0, pr_failed = 0\<rparr> [] d = (res, errs, d')"
    using assms(2) by (simp add: pruneOldGCRoots_def prune_env_of_def Let_def)
  moreover have "\<exists>name\<in>set es. plain_name name \<and> p = root_path ?pe name"
    if "(p, age) \<in> set (sel_stale (selectStaleGCRoots ?pe d es))" for p age
    using selected_names [OF that] stale_root_plain assms(1) by blast
  ultimately show ?thesis using prune_loop_only_stale by blast
qed

text \<open>Without faults and locks nothing stale stays.\<close>

lemma prune_loop_exact:
  assumes "distinct names" "\<And>name. name \<in> set names \<Longrightarrow> plain_name name \<and> stale_root pe d name \<and> root_lock sha name \<notin> set (gd_held d)"
    and "pe_faults pe = no_faults" and "map fst roots = map (root_path pe) names"
  shows "prune_loop sha pe False roots res errs d =
    (res\<lparr>pr_pruned := pr_pruned res + length names\<rparr>, errs,
     d\<lparr>gd_files := (\<lambda>p. if p \<in> root_path pe ` set names then None else gd_files d p)\<rparr>)"
  using assms
proof (induction names arbitrary: roots res d)
  case (Cons name names)
  obtain age roots' where roots: "roots = (root_path pe name, age) # roots'" "map fst roots' = map (root_path pe) names"
    using Cons.prems(4) by (cases roots) auto
  let ?d = "remove_file (root_path pe name) d"
  have first: "pruneLockedRoot sha pe (root_path pe name) d = (Inr True, ?d)"
    using pruneLockedRoot_ok [of name pe d sha] Cons.prems(2) [of name] Cons.prems(3) by (simp add: root_path_def)
  have "plain_name x \<and> stale_root pe ?d x \<and> root_lock sha x \<notin> set (gd_held ?d)" if "x \<in> set names" for x
  proof -
    have "root_path pe x \<noteq> root_path pe name"
      using Cons.prems(1) Cons.prems(2) [of x] Cons.prems(2) [of name] that Join_plain_inj unfolding root_path_def by auto
    then have "stale_root pe ?d x = stale_root pe d x" by (intro stale_root_cong) (simp add: remove_file_def)
    then show ?thesis using Cons.prems(2) [of x] that by (simp add: remove_file_def)
  qed
  note IH = Cons.IH [OF _ this Cons.prems(3) roots(2), of "res\<lparr>pr_pruned := pr_pruned res + 1\<rparr>"]
  show ?case
    using IH Cons.prems(1) first by (simp add: roots(1)) (auto simp: remove_file_def fun_eq_iff)
qed simp

lemma prune_loop_dry:
  "prune_loop sha pe True roots res errs d = (res\<lparr>pr_pruned := pr_pruned res + length roots\<rparr>, errs, d)"
  by (induction roots arbitrary: res) auto

lemma pruneOld_exact:
  assumes "distinct es" "\<And>name. name \<in> set es \<Longrightarrow> CHR ''/'' \<notin> set name"
    and "\<And>name. name \<in> set es \<Longrightarrow> root_lock sha name \<notin> set (gd_held d)"
    and pe: "pe = prune_env_of no_faults now gcrootDir storeDir minAge"
  shows "pruneOldGCRoots sha no_faults (Entries es) now gcrootDir storeDir minAge False d =
      (\<lparr>pr_pruned = length (filter (stale_root pe d) es), pr_failed = 0\<rparr>, [],
       d\<lparr>gd_files := (\<lambda>p. if p \<in> root_path pe ` {name \<in> set es. stale_root pe d name} then None else gd_files d p)\<rparr>)"
    and "pruneOldGCRoots sha no_faults (Entries es) now gcrootDir storeDir minAge True d =
      (\<lparr>pr_pruned = length (filter (stale_root pe d) es), pr_failed = 0\<rparr>, [], d)"
proof -
  let ?roots = "sel_stale (selectStaleGCRoots pe d es)"
  have names: "map fst ?roots = map (root_path pe) (filter (stale_root pe d) es)" unfolding selectStale_eq by (simp add: root_path_def)
  then have len: "length ?roots = length (filter (stale_root pe d) es)" by (metis length_map)
  have "prune_loop sha pe False ?roots \<lparr>pr_pruned = 0, pr_failed = 0\<rparr> [] d =
      (\<lparr>pr_pruned = length (filter (stale_root pe d) es), pr_failed = 0\<rparr>, [],
       d\<lparr>gd_files := (\<lambda>p. if p \<in> root_path pe ` {name \<in> set es. stale_root pe d name} then None else gd_files d p)\<rparr>)"
    using prune_loop_exact [OF _ _ _ names, of d sha] assms(1-3) stale_root_plain [of pe d] pe by (simp add: prune_env_of_def)
  then show "pruneOldGCRoots sha no_faults (Entries es) now gcrootDir storeDir minAge False d =
      (\<lparr>pr_pruned = length (filter (stale_root pe d) es), pr_failed = 0\<rparr>, [],
       d\<lparr>gd_files := (\<lambda>p. if p \<in> root_path pe ` {name \<in> set es. stale_root pe d name} then None else gd_files d p)\<rparr>)"
    unfolding pe by (simp add: pruneOldGCRoots_def prune_env_of_def Let_def)
  show "pruneOldGCRoots sha no_faults (Entries es) now gcrootDir storeDir minAge True d =
      (\<lparr>pr_pruned = length (filter (stale_root pe d) es), pr_failed = 0\<rparr>, [], d)"
    using prune_loop_dry [of sha pe ?roots] len unfolding pe by (simp add: pruneOldGCRoots_def prune_env_of_def Let_def)
qed

section \<open>Collections are paced\<close>

text \<open>
  The collections of a run of the watcher, in order: when the check decided, when the child was done,
  how many roots the check had pruned (by the counter) and what the collection freed.
\<close>

record collection =
  co_decided :: int
  co_done :: int
  co_pruned :: nat
  co_freed :: uint64

definition child_ran :: "gc_error list + bool \<Rightarrow> bool" where
  "child_ran r \<longleftrightarrow> r = Inr True \<or> r = Inl [CollectErr]"

definition pruned_total :: "gcRunner \<Rightarrow> nat" where
  "pruned_total g = (case g_metrics g of None \<Rightarrow> 0 | Some m \<Rightarrow> m_rootsPruned m)"

fun collections :: "(bytes \<Rightarrow> bytes) \<Rightarrow> (check_env \<times> (gcdir \<Rightarrow> gcdir)) list \<Rightarrow> gcRunner \<Rightarrow> gcdir \<Rightarrow> collection list" where
  "collections sha [] g d = []"
| "collections sha ((ce, others) # ticks) g d =
     (case gc_apply sha ce g (others d) of
        (r, g', d') \<Rightarrow>
          (if child_ran r
           then [\<lparr>co_decided = ce_skipNow ce, co_done = ce_collectNow ce, co_pruned = pruned_total g' - pruned_total g,
                  co_freed = g_lastFreed g'\<rparr>]
           else []) @ collections sha ticks g' d')"

lemma upd_metrics_simps [simp]:
  "g_lastCollect (upd_metrics f g) = g_lastCollect g" "g_lastFreed (upd_metrics f g) = g_lastFreed g"
  "g_cooldown (upd_metrics f g) = g_cooldown g" "g_rules (upd_metrics f g) = g_rules g" "g_dryRun (upd_metrics f g) = g_dryRun g"
  "g_storeDir (upd_metrics f g) = g_storeDir g" "g_gcrootDir (upd_metrics f g) = g_gcrootDir g"
  "g_metrics (upd_metrics f g) = map_option f (g_metrics g)"
  by (simp_all add: upd_metrics_def)

lemma prune_loop_errors: "prune_loop sha pe dryRun roots res errs d = (res', errs', d') \<Longrightarrow> CollectErr \<notin> set errs \<Longrightarrow> CollectErr \<notin> set errs'"
proof (induction sha pe dryRun roots res errs d rule: prune_loop.induct)
  case (2 sha pe dryRun path age roots res errs d)
  moreover have "fst (pruneLockedRoot sha pe path d) \<noteq> Inl CollectErr"
    by (auto simp: pruneLockedRoot_def Let_def split: sum.splits lock_error.splits option.splits)
  ultimately show ?case by (auto split: if_splits sum.splits bool.splits prod.splits)
qed simp

lemma pruneOld_errors: "pruneOldGCRoots sha flt l now gd sd age dry d = (res, errs, d') \<Longrightarrow> CollectErr \<notin> set errs"
  by (auto simp: pruneOldGCRoots_def Let_def dest: prune_loop_errors split: read_dir.splits)

lemma gc_apply_step:
  assumes "gc_apply sha ce g d = (r, g', d')" "g_metrics g = Some m"
  shows "g_cooldown g' = g_cooldown g \<and> g_metrics g' \<noteq> None \<and>
    (child_ran r \<longrightarrow> g_lastCollect g' = Some (ce_collectNow ce) \<and>
       \<not> skipCollect (ce_skipNow ce) (pruned_total g' - pruned_total g) g) \<and>
    (\<not> child_ran r \<longrightarrow> g_lastCollect g' = g_lastCollect g \<and> g_lastFreed g' = g_lastFreed g)"
proof (cases "diskUsedPct (ce_statfs ce)")
  case (Inl e)
  then have "e \<noteq> CollectErr" by (auto simp: diskUsedPct_def split: option.splits if_splits)
  then show ?thesis using Inl assms by (auto simp: gc_apply_def Let_def child_ran_def)
next
  case (Inr used)
  show ?thesis
  proof (cases "selectRule (g_rules g) used")
    case None
    then show ?thesis using Inr assms by (auto simp: gc_apply_def Let_def child_ran_def)
  next
    case (Some rule)
    obtain res errs d1 where p: "pruneOldGCRoots sha (ce_faults ce) (ce_listing ce) (ce_pruneNow ce) (g_gcrootDir g) (g_storeDir g)
        (OlderThan rule) (g_dryRun g) d = (res, errs, d1)" by (metis prod_cases3)
    have "errs \<noteq> [CollectErr]" using pruneOld_errors [OF p] by auto
    then show ?thesis
      using Inr Some p assms
      by (auto simp: gc_apply_def Let_def child_ran_def pruned_total_def skipCollect_def runCollectGarbage_def
          split: if_splits option.splits sum.splits prod.splits)
  qed
qed

definition paced :: "int \<Rightarrow> collection \<Rightarrow> collection \<Rightarrow> bool" where
  "paced cooldown a b \<longleftrightarrow> 0 < co_pruned b \<or> 0 < co_freed a \<or> cooldown \<le> co_decided b - co_done a"

text \<open>\<open>after g\<close>: the collections that may precede what the runner \<open>g\<close> does next.\<close>

definition after :: "gcRunner \<Rightarrow> collection \<Rightarrow> bool" where
  "after g a \<longleftrightarrow> g_lastCollect g = Some (co_done a) \<and> g_lastFreed g = co_freed a"

lemma collections_paced_from:
  "g_metrics g \<noteq> None \<Longrightarrow> successively (paced (g_cooldown g)) (collections sha ticks g d) \<and>
   (\<forall>a. after g a \<longrightarrow> successively (paced (g_cooldown g)) (a # collections sha ticks g d))"
proof (induction ticks arbitrary: g d)
  case (Cons tick ticks)
  obtain ce others where tick: "tick = (ce, others)" by fastforce
  obtain r g' d' where step: "gc_apply sha ce g (others d) = (r, g', d')" by (metis prod_cases3)
  obtain m where m: "g_metrics g = Some m" using Cons.prems by auto
  note s = gc_apply_step [OF step m]
  note IH = Cons.IH [of g' d'] s
  show ?case
  proof (cases "child_ran r")
    case True
    let ?c = "\<lparr>co_decided = ce_skipNow ce, co_done = ce_collectNow ce, co_pruned = pruned_total g' - pruned_total g, co_freed = g_lastFreed g'\<rparr>"
    have "after g' ?c" using s True by (simp add: after_def)
    then have "successively (paced (g_cooldown g)) (?c # collections sha ticks g' d')" using IH by auto
    moreover have "paced (g_cooldown g) a ?c" if "after g a" for a
      using s True that by (auto simp: after_def paced_def skipCollect_def)
    ultimately show ?thesis using True step by (auto simp: tick successively_Cons)
  next
    case False
    then have "after g a \<Longrightarrow> after g' a" for a using s by (simp add: after_def)
    then show ?thesis using False step IH by (auto simp: tick)
  qed
qed simp

section \<open>Properties\<close>

text \<open>
  C22: every rule the command line accepts has a threshold between 1 and 100 and a positive age that
  fits a duration, so that no prune cutoff lies in the future and no product wraps around; and every
  such rule whose age is a whole number of seconds is printed in a form that parses back to it.
\<close>

theorem gc_rules_sound_and_printable:
  "(\<forall>s r. parseGCRule frac s = Inr r \<longrightarrow> wf_rule r) \<and>
   (\<forall>r. wf_rule r \<and> Second dvd OlderThan r \<longrightarrow> parseGCRule frac (GCRule_String r) = Inr r)"
  using parseGCRule_wf parseGCRule_String by blast

theorem gc_rules_sound_and_printable_witness:
  "GCRule_String \<lparr>ThresholdPct = 80, OlderThan = 20 * 24 * Hour\<rparr> = ''80:20d'' \<and>
   parseGCRule (\<lambda>_ _ _. 0) ''80:20d'' = Inr \<lparr>ThresholdPct = 80, OlderThan = 20 * 24 * Hour\<rparr>"
proof -
  have "GCRule_String \<lparr>ThresholdPct = 80, OlderThan = 20 * 24 * Hour\<rparr> = ''80:20d''" by code_simp
  moreover have "wf_rule \<lparr>ThresholdPct = 80, OlderThan = 20 * 24 * Hour\<rparr>" "Second dvd 20 * 24 * Hour"
    by (simp_all add: wf_rule_def Hour_def Minute_def Second_def)
  ultimately show ?thesis using gc_rules_sound_and_printable [of "\<lambda>_ _ _. 0"] by (metis GCRule.select_convs(2))
qed

text \<open>
  C20: whatever fails and whoever holds locks, pruning changes the gcroot directory only by removing
  links that one of its entries names, that carry a store hash in their name, point into the store, were
  last touched between the epoch and the cutoff, and whose lock nobody else holds; a dry run changes nothing.
\<close>

theorem prune_removes_only_stale_roots:
  assumes "\<And>name. name \<in> set es \<Longrightarrow> CHR ''/'' \<notin> set name"
    and "pruneOldGCRoots sha flt (Entries es) now gcrootDir storeDir minAge dryRun d = (res, errs, d')"
    and "gd_files d p = Some fi" and "gd_files d' p \<noteq> Some fi"
  shows "gd_files d' p = None \<and> \<not> dryRun \<and> rf_symlink fi \<and> pointsIntoStore (rf_target fi) storeDir \<and>
    gcRootEpoch \<le> rf_mtime fi \<and> rf_mtime fi \<le> now - minAge \<and>
    (\<exists>name\<in>set es. p = filepath_Join [gcrootDir, name] \<and> isGCRootName name \<and> root_lock sha name \<notin> set (gd_held d))"
proof -
  let ?pe = "prune_env_of flt now gcrootDir storeDir minAge"
  note safe = pruneOld_only_stale [OF assms(1,2)]
  then obtain name where "name \<in> set es" "p = root_path ?pe name" "stale_root ?pe d name" "root_lock sha name \<notin> set (gd_held d)"
    and none: "gd_files d' p = None"
    using assms(3,4) unfolding only_stale_def by metis
  then show ?thesis
    using assms(3,4) safe by (auto simp: stale_root_def root_path_def prune_env_of_def lstat_def split: option.splits if_splits)
qed

definition example_root :: string where
  "example_root = replicate 32 CHR ''a''"

definition example_gcdir :: gcdir where
  "example_gcdir = \<lparr>gd_files = [''/gc/'' @ example_root \<mapsto> \<lparr>rf_mtime = gcRootEpoch, rf_symlink = True, rf_target = ''/nix/store/x''\<rparr>], gd_held = []\<rparr>"

lemma example_root_valid: "isGCRootName example_root" "plain_name example_root"
  by (simp_all add: example_root_def isGCRootName_def plain_name_def Cut_char ValidHashPart_def HashPartLen_def list_all_iff decTable_valid
      alphabet_def numeral_eq_Suc)

lemma example_paths:
  "filepath_Join [''/gc'', example_root] = ''/gc/'' @ example_root" "pointsIntoStore ''/nix/store/x'' ''/nix/store''"
  by (simp_all add: filepath_Join_def path_Clean_def clean_step_def example_root_def pointsIntoStore_def HasPrefix_def Let_def numeral_eq_Suc)

lemma example_stale: "stale_root (prune_env_of no_faults (gcRootEpoch + 10) ''/gc'' ''/nix/store'' 5) example_gcdir example_root"
  by (simp add: stale_root_def example_root_valid example_paths prune_env_of_def lstat_def no_faults_def example_gcdir_def)

lemma example_prune:
  "pruneOldGCRoots sha no_faults (Entries [example_root]) (gcRootEpoch + 10) ''/gc'' ''/nix/store'' 5 False example_gcdir =
     (\<lparr>pr_pruned = 1, pr_failed = 0\<rparr>, [], example_gcdir\<lparr>gd_files := (\<lambda>_. None)\<rparr>)"
proof -
  have "root_path (prune_env_of no_faults (gcRootEpoch + 10) ''/gc'' ''/nix/store'' 5) example_root = ''/gc/'' @ example_root"
    by (simp add: root_path_def prune_env_of_def example_paths)
  then show ?thesis
    using pruneOld_exact(1) [of "[example_root]" sha example_gcdir _ "gcRootEpoch + 10" "''/gc''" "''/nix/store''" 5]
      example_stale example_root_valid(2)
    by (auto simp: plain_name_def example_gcdir_def)
qed

theorem prune_removes_only_stale_roots_witness:
  "rf_mtime (the (gd_files example_gcdir (''/gc/'' @ example_root))) \<le> (gcRootEpoch + 10) - 5 \<and>
   (\<exists>name\<in>set [example_root]. ''/gc/'' @ example_root = filepath_Join [''/gc'', name] \<and> isGCRootName name)"
  using prune_removes_only_stale_roots [OF _ example_prune [of id], of "''/gc/'' @ example_root" "the (gd_files example_gcdir (''/gc/'' @ example_root))"]
    example_root_valid(2)
  by (auto simp: plain_name_def example_gcdir_def)

text \<open>
  C21: when system calls succeed and no lock is held, one pass removes exactly the stale roots among the
  entries, reports how many, and a dry run reports the same number without touching anything.
\<close>

theorem prune_exact:
  assumes "distinct es" and "\<And>name. name \<in> set es \<Longrightarrow> CHR ''/'' \<notin> set name"
    and "\<And>name. name \<in> set es \<Longrightarrow> root_lock sha name \<notin> set (gd_held d)"
    and "pe = prune_env_of no_faults now gcrootDir storeDir minAge"
  shows "pruneOldGCRoots sha no_faults (Entries es) now gcrootDir storeDir minAge False d =
      (\<lparr>pr_pruned = length (filter (stale_root pe d) es), pr_failed = 0\<rparr>, [],
       d\<lparr>gd_files := (\<lambda>p. if p \<in> root_path pe ` {name \<in> set es. stale_root pe d name} then None else gd_files d p)\<rparr>) \<and>
    pruneOldGCRoots sha no_faults (Entries es) now gcrootDir storeDir minAge True d =
      (\<lparr>pr_pruned = length (filter (stale_root pe d) es), pr_failed = 0\<rparr>, [], d)"
  using pruneOld_exact [OF assms] by blast

theorem prune_exact_witness:
  "fst (pruneOldGCRoots id no_faults (Entries [example_root]) (gcRootEpoch + 10) ''/gc'' ''/nix/store'' 5 True example_gcdir) =
     \<lparr>pr_pruned = 1, pr_failed = 0\<rparr>"
  using prune_exact [of "[example_root]" id example_gcdir _ "gcRootEpoch + 10" "''/gc''" "''/nix/store''" 5, OF _ _ _ refl]
    example_stale example_root_valid(2)
  by (simp add: plain_name_def example_gcdir_def)

text \<open>
  C23: however the disk, the directory and the child process behave, the watcher starts a collection
  within its cooldown (at least an hour) of the previous one only if it has just pruned a root or the
  previous one freed space; an idle full disk does not hold the garbage-collector lock on every tick.
\<close>

theorem collections_are_paced:
  "successively (paced (max interval Hour))
     (collections sha ticks (new_watcher storeDir gcrootDir rules interval (Some m)) d)"
  using collections_paced_from [of "new_watcher storeDir gcrootDir rules interval (Some m)" sha ticks d]
  by (simp add: new_watcher_def collectCooldownFloor_def)

end
