(* ===== verification/NixImport.thy ===== *)
theory NixImport
  imports Narinfo GCRoot
begin

text \<open>
  Package \<^verbatim>\<open>niximport\<close> (\<^verbatim>\<open>niximport/niximport.go\<close>, \<^verbatim>\<open>niximport/serve.go\<close>): verifying a spooled NAR,
  rooting its store path, handing it to \<^verbatim>\<open>nix-store --serve\<close> and undoing the root when that fails.  The
  spool is a map from paths to files; what the open descriptor reads does not change when the name is
  given to another file.  The decoder, SHA-256 and the child process are parameters; \<open>im_sent\<close> logs what
  was written to children that acknowledged it, with the gcroot directory at that moment.
\<close>

section \<open>State and environment\<close>

record spool_file =
  sf_regular :: bool
  sf_content :: bytes
  sf_mtime :: int

record imp_state =
  im_spool :: "string \<rightharpoonup> spool_file"
  im_gc :: gcdir
  im_seq :: nat
  im_sent :: "(gcdir \<times> bytes) list"

record Importer =
  SpoolDir :: string
  GCRootDir :: string
  imp_StoreDir :: string
  NixStoreURI :: string
  UseExternal :: bool
  MaxNarSize :: uint64

datatype import_error =
    InvalidNarURL | OpenSpoolDir | OpenSpool | StatSpool | SpoolNotRegular | CtxErr | NarTooLarge | DecoderErr | ReadNar
  | NarSizeMismatch | NarHashMismatch | AcquireErr | InvalidStorePath | MkdirErr | InspectErr | SymlinkErr | GcSyncErr
  | SeekErr | StartErr | ServeHash hash_error | ServeNoSha256 | ServeDigest nixbase32_error | ServeWrite | ServeEOF
  | ServeProtocol | ServeAck | WaitErr | CloseErr | RollbackErr

text \<open>A decoder's output: its bytes, whether it then fails, and whether that error comes with the last bytes.\<close>

record reader =
  rd_data :: bytes
  rd_err :: bool
  rd_eager :: bool

text \<open>The child: what it answers on its stdout, and how many bytes its stdin takes (\<open>None\<close>: all).\<close>

record child =
  ch_answers :: bytes
  ch_room :: "nat option"
  ch_starts :: bool
  ch_waitErr :: bool
  ch_closeErr :: bool

record import_env =
  ie_sha :: "bytes \<Rightarrow> bytes"
  ie_rootOk :: bool
  ie_statOk :: bool
  ie_ctxVerify :: bool
  ie_ctxVerified :: bool
  ie_decode1 :: "bool \<Rightarrow> string \<Rightarrow> bytes \<Rightarrow> reader option"
  ie_swap :: "(string \<rightharpoonup> spool_file) \<Rightarrow> (string \<rightharpoonup> spool_file)"
  ie_acquireOk :: bool
  ie_faults1 :: os_faults
  ie_now1 :: int
  ie_pid :: nat
  ie_ctxImport :: bool
  ie_seekOk :: bool
  ie_decode2 :: "bool \<Rightarrow> string \<Rightarrow> bytes \<Rightarrow> reader option"
  ie_child :: child
  ie_ctxDone :: bool
  ie_rollbackFaults :: os_faults
  ie_faults2 :: os_faults
  ie_now2 :: int

section \<open>The spool\<close>

definition SpoolPath :: "Importer \<Rightarrow> string \<Rightarrow> import_error + string" where
  "SpoolPath imp narURL =
     (let base = path_Base (fst (Cut narURL ''?''))
      in if base = ''.'' \<or> base = ''..'' \<or> base = ''/'' then Inl InvalidNarURL
         else Inr (filepath_Join [SpoolDir imp, base]))"

definition dropSpool :: "string \<Rightarrow> spool_file option \<Rightarrow> imp_state \<Rightarrow> imp_state" where
  "dropSpool path verified s =
     (case verified of
        None \<Rightarrow> s
      | Some fi \<Rightarrow>
          (case im_spool s path of
             None \<Rightarrow> s
           | Some cur \<Rightarrow>
               if length (sf_content cur) \<noteq> length (sf_content fi) \<or> sf_mtime cur \<noteq> sf_mtime fi then s
               else s\<lparr>im_spool := (im_spool s)(path := None)\<rparr>))"

definition DefaultMaxNarSize :: uint64 where
  "DefaultMaxNarSize = push_bit 30 16"

text \<open>\<^verbatim>\<open>io.Copy\<close> from \<^verbatim>\<open>io.LimitReader\<close>: the bytes copied and whether an error surfaced.\<close>

definition limited_copy :: "nat \<Rightarrow> reader \<Rightarrow> bytes \<times> bool" where
  "limited_copy limit r =
     (take limit (rd_data r),
      rd_err r \<and> limit \<noteq> 0 \<and> (length (rd_data r) < limit \<or> (length (rd_data r) = limit \<and> rd_eager r)))"

definition verify :: "Importer \<Rightarrow> import_env \<Rightarrow> spool_file \<Rightarrow> NarInfo \<Rightarrow> spool_file option \<times> import_error option" where
  "verify imp ie f ni =
     (if \<not> ie_statOk ie then (None, Some StatSpool)
      else if \<not> sf_regular f then (None, Some SpoolNotRegular)
      else if ie_ctxVerify ie then (Some f, Some CtxErr)
      else let limit = (if MaxNarSize imp = 0 then DefaultMaxNarSize else MaxNarSize imp) in
        if limit < NarSize ni \<or> 2 ^ 63 - 1 \<le> unat (NarSize ni) then (Some f, Some NarTooLarge)
        else case ie_decode1 ie (UseExternal imp) (Compression ni) (sf_content f) of
          None \<Rightarrow> (Some f, Some DecoderErr)
        | Some dec \<Rightarrow>
            (case limited_copy (unat (NarSize ni) + 1) dec of
               (nar, err) \<Rightarrow>
                 if err then (Some f, Some ReadNar)
                 else if length nar \<noteq> unat (NarSize ni) then (Some f, Some NarSizeMismatch)
                 else if ''sha256:'' @ EncodeToString (ie_sha ie nar) \<noteq> NarHash ni then (Some f, Some NarHashMismatch)
                 else (Some f, if ie_ctxVerified ie then Some CtxErr else None)))"

section \<open>The gcroot\<close>

definition storePathHash :: "Importer \<Rightarrow> string \<Rightarrow> string" where
  "storePathHash imp storePath =
     (let storeDir = (if imp_StoreDir imp = [] then DefaultStoreDir else imp_StoreDir imp) in
      case CutPrefix storePath (TrimSuffix storeDir ''/'' @ ''/'') of
        (base, ok) \<Rightarrow>
          if \<not> ok \<or> CHR ''/'' \<in> set base then []
          else case Cut base ''-'' of (hash, _, ok2) \<Rightarrow> if \<not> ok2 \<or> \<not> ValidHashPart hash then [] else hash)"

text \<open>\<^verbatim>\<open>lockGCRoot\<close>: \<open>None\<close> when roots are disabled, else the lock file waited for.\<close>

definition lockGCRoot :: "Importer \<Rightarrow> import_env \<Rightarrow> string \<Rightarrow> import_error + string option" where
  "lockGCRoot imp ie storePath =
     (if GCRootDir imp = [] then Inr None
      else let key = storePathHash imp storePath in
        if key = [] then Inl InvalidStorePath
        else if \<not> ie_acquireOk ie then Inl AcquireErr
        else Inr (Some (lock_name (ie_sha ie) key)))"

definition tmp_root :: "string \<Rightarrow> nat \<Rightarrow> nat \<Rightarrow> string" where
  "tmp_root rootPath pid seq = rootPath @ ''.tmp.'' @ format_nat pid @ ''.'' @ format_nat seq"

definition put_link :: "string \<Rightarrow> string \<Rightarrow> int \<Rightarrow> gcdir \<Rightarrow> gcdir" where
  "put_link path target now d =
     d\<lparr>gd_files := (gd_files d)(path \<mapsto> \<lparr>rf_mtime = now, rf_symlink = True, rf_target = target\<rparr>)\<rparr>"

definition undo_link :: "os_faults \<Rightarrow> string \<Rightarrow> string \<Rightarrow> int \<Rightarrow> gcdir \<Rightarrow> gcdir" where
  "undo_link flt tmp target now d =
     (if remove_fails flt tmp
      then (if symlink_fails flt tmp \<or> gd_files d tmp \<noteq> None then d else put_link tmp target now d)
      else d\<lparr>gd_files := (gd_files d)(tmp := None)\<rparr>)"

text \<open>
  \<^verbatim>\<open>addGCRoot\<close>: the path of a root it created (empty when roots are disabled or one was there), the
  directory and the sequence number afterwards.  After a failed symlink or rename the temporary name is
  removed, when it can be.
\<close>

definition addGCRoot ::
  "Importer \<Rightarrow> os_faults \<Rightarrow> int \<Rightarrow> nat \<Rightarrow> string \<Rightarrow> imp_state \<Rightarrow> (import_error + string) \<times> imp_state" where
  "addGCRoot imp flt now pid storePath s =
     (if GCRootDir imp = [] then (Inr [], s)
      else let hashPart = storePathHash imp storePath in
        if hashPart = [] then (Inl InvalidStorePath, s)
        else let rootPath = filepath_Join [GCRootDir imp, hashPart] in
          if mkdir_fails flt then (Inl MkdirErr, s)
          else if lstat_fails flt rootPath then (Inl InspectErr, s)
          else let existed = (gd_files (im_gc s) rootPath \<noteq> None);
                   s1 = s\<lparr>im_seq := im_seq s + 1\<rparr>;
                   tmp = tmp_root rootPath pid (im_seq s1)
               in if symlink_fails flt tmp \<or> gd_files (im_gc s) tmp \<noteq> None \<or> rename_fails flt tmp
                  then (Inl SymlinkErr, s1\<lparr>im_gc := undo_link flt tmp storePath now (im_gc s)\<rparr>)
                  else let s2 = s1\<lparr>im_gc := put_link rootPath storePath now (im_gc s)\<rparr>
                       in if sync_fails flt then (Inl GcSyncErr, s2)
                          else (Inr (if existed then [] else rootPath), s2))"

section \<open>The serve protocol\<close>

definition serveMagicClient :: uint64 where "serveMagicClient = 0x390c9deb"
definition serveMagicServer :: uint64 where "serveMagicServer = 0x5452eecb"
definition serveVersion :: uint64 where "serveVersion = 0x205"
definition serveAddToStoreNar :: uint64 where "serveAddToStoreNar = 9"

definition AppendUint64 :: "bytes \<Rightarrow> uint64 \<Rightarrow> bytes" where
  "AppendUint64 dst v = dst @ map (\<lambda>i. ucast (drop_bit (8 * i) v)) [0..<8]"

definition Uint64 :: "bytes \<Rightarrow> uint64" where
  "Uint64 bs = foldr (\<lambda>b acc. push_bit 8 acc + ucast b) bs 0"

definition appendServeString :: "bytes \<Rightarrow> string \<Rightarrow> bytes" where
  "appendServeString dst val =
     AppendUint64 dst (word_of_nat (length val)) @ bytes_of val @ replicate ((8 - length val mod 8) mod 8) 0"

text \<open>The two pipes: what was written so far, what may still be written, what is still to be read.\<close>

record pipes =
  pp_sent :: bytes
  pp_room :: "nat option"
  pp_in :: bytes

definition pipe_write :: "bytes \<Rightarrow> pipes \<Rightarrow> import_error option \<times> pipes" where
  "pipe_write bs p =
     (case pp_room p of
        None \<Rightarrow> (None, p\<lparr>pp_sent := pp_sent p @ bs\<rparr>)
      | Some k \<Rightarrow>
          if length bs \<le> k then (None, p\<lparr>pp_sent := pp_sent p @ bs, pp_room := Some (k - length bs)\<rparr>)
          else (Some ServeWrite, p\<lparr>pp_sent := pp_sent p @ take k bs, pp_room := Some 0\<rparr>))"

definition readServeWord :: "pipes \<Rightarrow> (import_error + uint64) \<times> pipes" where
  "readServeWord p =
     (if length (pp_in p) < 8 then (Inl ServeEOF, p\<lparr>pp_in := []\<rparr>)
      else (Inr (Uint64 (take 8 (pp_in p))), p\<lparr>pp_in := drop 8 (pp_in p)\<rparr>))"

definition serve_hello :: bytes where
  "serve_hello = AppendUint64 (AppendUint64 [] serveMagicClient) serveVersion"

definition serveHandshake :: "pipes \<Rightarrow> import_error option \<times> pipes" where
  "serveHandshake p =
     (case pipe_write serve_hello p of
        (Some e, p1) \<Rightarrow> (Some e, p1)
      | (None, p1) \<Rightarrow>
          (case readServeWord p1 of
             (Inl e, p2) \<Rightarrow> (Some e, p2)
           | (Inr magic, p2) \<Rightarrow>
               if magic \<noteq> serveMagicServer then (Some ServeProtocol, p2)
               else case readServeWord p2 of
                 (Inl e, p3) \<Rightarrow> (Some e, p3)
               | (Inr version, p3) \<Rightarrow>
                   if drop_bit 8 version \<noteq> 2 \<or> version < serveVersion then (Some ServeProtocol, p3) else (None, p3)))"

definition serve_header :: "bytes \<Rightarrow> NarInfo \<Rightarrow> bytes" where
  "serve_header digest ni =
     (let h1 = AppendUint64 [] serveAddToStoreNar;
          h2 = appendServeString h1 (StorePath ni);
          h3 = appendServeString h2 (Deriver ni);
          h4 = appendServeString h3 (hex_EncodeToString digest);
          refs = remdups_adj (sort (References ni));
          h5 = AppendUint64 h4 (word_of_nat (length refs));
          h6 = foldl appendServeString h5 refs;
          h7 = AppendUint64 h6 0;
          h8 = AppendUint64 h7 (NarSize ni);
          h9 = AppendUint64 (AppendUint64 h8 0) 0
      in appendServeString h9 [])"

definition serveExchange :: "pipes \<Rightarrow> reader \<Rightarrow> NarInfo \<Rightarrow> import_error option \<times> pipes" where
  "serveExchange p decoded ni =
     (case CanonicalHash (NarHash ni) of
        Inl e \<Rightarrow> (Some (ServeHash e), p)
      | Inr hash \<Rightarrow>
          (case CutPrefix hash ''sha256:'' of
             (encoded, ok) \<Rightarrow>
               if \<not> ok then (Some ServeNoSha256, p)
               else case DecodeString encoded of
                 Inl e \<Rightarrow> (Some (ServeDigest e), p)
               | Inr digest \<Rightarrow>
                   if 2 ^ 63 - 1 < unat (NarSize ni) then (Some NarTooLarge, p)
                   else case serveHandshake p of
                     (Some e, p1) \<Rightarrow> (Some e, p1)
                   | (None, p1) \<Rightarrow>
                       (case pipe_write (serve_header digest ni) p1 of
                          (Some e, p2) \<Rightarrow> (Some e, p2)
                        | (None, p2) \<Rightarrow>
                            (case limited_copy (unat (NarSize ni)) decoded of
                               (nar, err) \<Rightarrow>
                                 (case pipe_write nar p2 of
                                    (Some e, p3) \<Rightarrow> (Some e, p3)
                                  | (None, p3) \<Rightarrow>
                                      if err then (Some ReadNar, p3)
                                      else if length nar \<noteq> unat (NarSize ni) then (Some ServeEOF, p3)
                                      else (case readServeWord p3 of
                                        (Inl e, p4) \<Rightarrow> (Some e, p4)
                                      | (Inr ack, p4) \<Rightarrow> if ack \<noteq> 1 then (Some ServeAck, p4) else (None, p4)))))))"

text \<open>
  \<^verbatim>\<open>importStream\<close>: running the child and judging the outcome.  A child that acknowledged is logged even
  when the import is then reported as failed.
\<close>

definition importStream :: "import_env \<Rightarrow> reader \<Rightarrow> NarInfo \<Rightarrow> imp_state \<Rightarrow> import_error option \<times> imp_state" where
  "importStream ie decoded ni s =
     (let ch = ie_child ie in
      if \<not> ch_starts ch then (Some StartErr, s)
      else case serveExchange \<lparr>pp_sent = [], pp_room = ch_room ch, pp_in = ch_answers ch\<rparr> decoded ni of
        (protocolErr, p) \<Rightarrow>
          let s1 = (if protocolErr = None then s\<lparr>im_sent := im_sent s @ [(im_gc s, pp_sent p)]\<rparr> else s) in
          if ie_ctxDone ie then (Some CtxErr, s1)
          else if ch_waitErr ch then (Some WaitErr, s1)
          else case protocolErr of
            Some e \<Rightarrow> (Some e, s1)
          | None \<Rightarrow> if ch_closeErr ch then (Some CloseErr, s1) else (None, s1))"

definition importNar :: "Importer \<Rightarrow> import_env \<Rightarrow> spool_file \<Rightarrow> NarInfo \<Rightarrow> imp_state \<Rightarrow> import_error option \<times> imp_state" where
  "importNar imp ie f ni s =
     (if ie_ctxImport ie then (Some CtxErr, s)
      else if \<not> ie_seekOk ie then (Some SeekErr, s)
      else case ie_decode2 ie (UseExternal imp) (Compression ni) (sf_content f) of
        None \<Rightarrow> (Some DecoderErr, s)
      | Some dec \<Rightarrow> importStream ie dec ni s)"

section \<open>Import\<close>

text \<open>The rollback of a root this import created; its errors are joined to the import's.\<close>

definition rollback :: "os_faults \<Rightarrow> string \<Rightarrow> imp_state \<Rightarrow> import_error list \<times> imp_state" where
  "rollback flt created s =
     (if created = [] then ([], s)
      else if remove_fails flt created \<or> gd_files (im_gc s) created = None then ([RollbackErr], s)
      else ((if sync_fails flt then [RollbackErr] else []),
            s\<lparr>im_gc := (im_gc s)\<lparr>gd_files := (gd_files (im_gc s))(created := None)\<rparr>\<rparr>))"

text \<open>The second half of \<^verbatim>\<open>Import\<close>, from taking the lock on; no errors means nil.\<close>

definition import_locked ::
  "Importer \<Rightarrow> import_env \<Rightarrow> NarInfo \<Rightarrow> spool_file \<Rightarrow> string \<Rightarrow> spool_file option \<Rightarrow> imp_state
   \<Rightarrow> import_error list \<times> imp_state" where
  "import_locked imp ie ni f spoolPath verified s =
     (case lockGCRoot imp ie (StorePath ni) of
        Inl e \<Rightarrow> ([e], dropSpool spoolPath verified s)
      | Inr _ \<Rightarrow>
          (case addGCRoot imp (ie_faults1 ie) (ie_now1 ie) (ie_pid ie) (StorePath ni) s of
             (Inl e, s1) \<Rightarrow> ([e], dropSpool spoolPath verified s1)
           | (Inr created, s1) \<Rightarrow>
               (case importNar imp ie f ni s1 of
                  (Some e, s2) \<Rightarrow>
                    (case rollback (ie_rollbackFaults ie) created s2 of
                       (errs, s3) \<Rightarrow> (e # errs, dropSpool spoolPath verified s3))
                | (None, s2) \<Rightarrow>
                    (case addGCRoot imp (ie_faults2 ie) (ie_now2 ie) (ie_pid ie) (StorePath ni) s2 of
                       (Inl e, s3) \<Rightarrow> ([e], dropSpool spoolPath verified s3)
                     | (Inr _, s3) \<Rightarrow> ([], dropSpool spoolPath verified s3)))))"

text \<open>\<^verbatim>\<open>Import\<close>.  \<open>ie_swap\<close> is what concurrent uploads did to the spool once the descriptor was open.\<close>

definition Import :: "Importer \<Rightarrow> import_env \<Rightarrow> NarInfo \<Rightarrow> imp_state \<Rightarrow> import_error list \<times> imp_state" where
  "Import imp ie ni s0 =
     (case SpoolPath imp (URL ni) of
        Inl e \<Rightarrow> ([e], s0)
      | Inr spoolPath \<Rightarrow>
          if \<not> ie_rootOk ie then ([OpenSpoolDir], s0)
          else case im_spool s0 spoolPath of
            None \<Rightarrow> ([OpenSpool], s0)
          | Some f \<Rightarrow>
              let s = s0\<lparr>im_spool := ie_swap ie (im_spool s0)\<rparr> in
              case verify imp ie f ni of
                (verified, Some e) \<Rightarrow> ([e], dropSpool spoolPath verified s)
              | (verified, None) \<Rightarrow> import_locked imp ie ni f spoolPath verified s)"

section \<open>What an import sends\<close>

lemma verify_ok:
  assumes "verify imp ie f ni = (v, None)"
  shows "v = Some f \<and> (\<exists>dec. ie_decode1 ie (UseExternal imp) (Compression ni) (sf_content f) = Some dec \<and>
    length (rd_data dec) = unat (NarSize ni) \<and> NarHash ni = ''sha256:'' @ EncodeToString (ie_sha ie (rd_data dec)))"
proof -
  have take: "length (take (Suc k) xs) = k \<Longrightarrow> take (Suc k) xs = xs \<and> length xs = k" for k and xs :: bytes
    by (simp add: min_def split: if_splits)
  show ?thesis
    using assms take by (auto simp: verify_def Let_def limited_copy_def split: if_splits option.splits)
qed

lemma pipe_write_ok: "pipe_write bs p = (None, p') \<Longrightarrow> pp_sent p' = pp_sent p @ bs"
  by (auto simp: pipe_write_def split: option.splits if_splits)

lemma readServeWord_sent: "pp_sent (snd (readServeWord p)) = pp_sent p"
  by (simp add: readServeWord_def)

lemma serveHandshake_ok: "serveHandshake p = (None, p') \<Longrightarrow> pp_sent p' = pp_sent p @ serve_hello"
  by (auto simp: serveHandshake_def readServeWord_def dest: pipe_write_ok split: prod.splits option.splits sum.splits if_splits)

lemma serveExchange_ok:
  assumes "serveExchange p r ni = (None, p')"
  shows "\<exists>encoded digest. CanonicalHash (NarHash ni) = Inr (''sha256:'' @ encoded) \<and> DecodeString encoded = Inr digest \<and>
    pp_sent p' = pp_sent p @ serve_hello @ serve_header digest ni @ take (unat (NarSize ni)) (rd_data r)"
  using assms
  by (auto simp: serveExchange_def limited_copy_def readServeWord_def CutPrefix_True_iff
      dest!: pipe_write_ok serveHandshake_ok split: sum.splits prod.splits option.splits if_splits)


lemma importStream_log:
  assumes "importStream ie r ni s = (e, s')"
  shows "im_gc s' = im_gc s \<and> im_seq s' = im_seq s \<and> im_spool s' = im_spool s \<and>
    (im_sent s' = im_sent s \<and> e \<noteq> None \<or>
     (\<exists>encoded digest. CanonicalHash (NarHash ni) = Inr (''sha256:'' @ encoded) \<and> DecodeString encoded = Inr digest \<and>
       im_sent s' = im_sent s @ [(im_gc s, serve_hello @ serve_header digest ni @ take (unat (NarSize ni)) (rd_data r))]))"
proof (cases "ch_starts (ie_child ie)")
  case True
  let ?p = "\<lparr>pp_sent = [], pp_room = ch_room (ie_child ie), pp_in = ch_answers (ie_child ie)\<rparr>"
  obtain pe p where ex: "serveExchange ?p r ni = (pe, p)" by fastforce
  show ?thesis
    using assms True ex serveExchange_ok [of ?p r ni p]
    by (cases pe) (auto simp: importStream_def Let_def split: if_splits)
qed (use assms in \<open>auto simp: importStream_def Let_def\<close>)

lemma importNar_log:
  assumes "importNar imp ie f ni s = (e, s')"
  shows "im_gc s' = im_gc s \<and> im_seq s' = im_seq s \<and> im_spool s' = im_spool s \<and>
    (im_sent s' = im_sent s \<and> e \<noteq> None \<or>
     (\<exists>r encoded digest. ie_decode2 ie (UseExternal imp) (Compression ni) (sf_content f) = Some r \<and>
       CanonicalHash (NarHash ni) = Inr (''sha256:'' @ encoded) \<and> DecodeString encoded = Inr digest \<and>
       im_sent s' = im_sent s @ [(im_gc s, serve_hello @ serve_header digest ni @ take (unat (NarSize ni)) (rd_data r))]))"
  using assms by (auto simp: importNar_def dest!: importStream_log split: if_splits option.splits)

section \<open>Roots\<close>

definition import_root :: "Importer \<Rightarrow> NarInfo \<Rightarrow> string" where
  "import_root imp ni = filepath_Join [GCRootDir imp, storePathHash imp (StorePath ni)]"

definition rooted :: "Importer \<Rightarrow> NarInfo \<Rightarrow> int \<Rightarrow> gcdir \<Rightarrow> bool" where
  "rooted imp ni now d \<longleftrightarrow> GCRootDir imp = [] \<or>
     gd_files d (import_root imp ni) = Some \<lparr>rf_mtime = now, rf_symlink = True, rf_target = StorePath ni\<rparr>"

lemma addGCRoot_ok:
  assumes "addGCRoot imp flt now pid (StorePath ni) s = (Inr created, s')"
  shows "rooted imp ni now (im_gc s') \<and> im_sent s' = im_sent s \<and> im_spool s' = im_spool s \<and>
    (\<forall>p. p \<noteq> import_root imp ni \<longrightarrow> gd_files (im_gc s') p = gd_files (im_gc s) p) \<and>
    created = (if GCRootDir imp = [] \<or> gd_files (im_gc s) (import_root imp ni) \<noteq> None then [] else import_root imp ni) \<and>
    (GCRootDir imp = [] \<longrightarrow> im_gc s' = im_gc s) \<and> (GCRootDir imp \<noteq> [] \<longrightarrow> storePathHash imp (StorePath ni) \<noteq> [])"
  using assms by (auto simp: addGCRoot_def Let_def rooted_def import_root_def put_link_def split: if_splits)

lemma addGCRoot_sent: "im_sent (snd (addGCRoot imp flt now pid sp s)) = im_sent s"
  by (auto simp: addGCRoot_def Let_def)

lemma dropSpool_simps [simp]: "im_gc (dropSpool p v s) = im_gc s" "im_sent (dropSpool p v s) = im_sent s"
  by (auto simp: dropSpool_def split: option.splits)

lemma rollback_simps [simp]: "im_sent (snd (rollback flt c s)) = im_sent s"
  by (auto simp: rollback_def)

lemma digest_of_canonical:
  assumes "length raw = 32" "CanonicalHash (''sha256:'' @ EncodeToString raw) = Inr (''sha256:'' @ encoded)" "DecodeString encoded = Inr digest"
  shows "digest = raw"
proof -
  have size: "hashSizes ''sha256'' = Some (length raw)" using assms(1) by (simp add: hashSizes_def)
  have "CanonicalHash (''sha256'' @ '':'' @ EncodeToString raw) = Inr (''sha256'' @ '':'' @ EncodeToString raw)"
    using CanonicalHash_colon [OF size] decodeDigest_encodings(2) [OF size] by (simp del: append.simps)
  then have "encoded = EncodeToString raw" using assms(2) by simp
  then show ?thesis using assms(3) Decode_Encode by simp
qed

definition sent_verified :: "Importer \<Rightarrow> import_env \<Rightarrow> NarInfo \<Rightarrow> gcdir \<times> bytes \<Rightarrow> bool" where
  "sent_verified imp ie ni = (\<lambda>(d, msg). rooted imp ni (ie_now1 ie) d \<and>
     (\<exists>nar. length nar = unat (NarSize ni) \<and> NarHash ni = ''sha256:'' @ EncodeToString (ie_sha ie nar) \<and>
        msg = serve_hello @ serve_header (ie_sha ie nar) ni @ nar))"

lemma importNar_verified:
  assumes "verify imp ie f ni = (v, None)" "importNar imp ie f ni s = (e, s')" "rooted imp ni (ie_now1 ie) (im_gc s)"
    and "\<And>x. length (ie_sha ie x) = 32"
    and "\<And>c b r1 r2. ie_decode1 ie (UseExternal imp) c b = Some r1 \<Longrightarrow> ie_decode2 ie (UseExternal imp) c b = Some r2 \<Longrightarrow> rd_data r2 = rd_data r1"
  shows "im_sent s' = im_sent s \<and> e \<noteq> None \<or> (\<exists>x. im_sent s' = im_sent s @ [x] \<and> sent_verified imp ie ni x)"
proof -
  obtain dec where dec: "ie_decode1 ie (UseExternal imp) (Compression ni) (sf_content f) = Some dec" "length (rd_data dec) = unat (NarSize ni)"
    "NarHash ni = ''sha256:'' @ EncodeToString (ie_sha ie (rd_data dec))"
    using verify_ok [OF assms(1)] by blast
  from importNar_log [OF assms(2)] consider "im_sent s' = im_sent s" "e \<noteq> None"
    | r encoded digest where "ie_decode2 ie (UseExternal imp) (Compression ni) (sf_content f) = Some r"
        "CanonicalHash (NarHash ni) = Inr (''sha256:'' @ encoded)" "DecodeString encoded = Inr digest"
        "im_sent s' = im_sent s @ [(im_gc s, serve_hello @ serve_header digest ni @ take (unat (NarSize ni)) (rd_data r))]"
    by blast
  then show ?thesis
  proof cases
    case (2 r encoded digest)
    have "rd_data r = rd_data dec" using assms(5) [OF dec(1) 2(1)] .
    moreover have "digest = ie_sha ie (rd_data dec)" using digest_of_canonical [OF assms(4)] 2(2,3) dec(3) by simp
    ultimately have "sent_verified imp ie ni (im_gc s, serve_hello @ serve_header digest ni @ take (unat (NarSize ni)) (rd_data r))"
      using assms(3) dec(2,3) by (auto simp: sent_verified_def intro: exI [of _ "rd_data dec"])
    then show ?thesis using 2(4) by blast
  qed blast
qed

text \<open>What one run from the lock on may have done.\<close>

lemma lockGCRoot_not_sync: "lockGCRoot imp ie sp = Inl e \<Longrightarrow> e \<noteq> GcSyncErr"
  by (auto simp: lockGCRoot_def Let_def split: if_splits)

lemma import_locked_cases:
  assumes "import_locked imp ie ni f path v s = (errs, s')"
  obtains (busy) e where "errs = [e]" "e \<noteq> GcSyncErr" "s' = dropSpool path v s"
  | (root) e s1 where "addGCRoot imp (ie_faults1 ie) (ie_now1 ie) (ie_pid ie) (StorePath ni) s = (Inl e, s1)"
      "errs = [e]" "s' = dropSpool path v s1"
  | (failed) created s1 e s2 es s3 where
      "addGCRoot imp (ie_faults1 ie) (ie_now1 ie) (ie_pid ie) (StorePath ni) s = (Inr created, s1)"
      "importNar imp ie f ni s1 = (Some e, s2)" "rollback (ie_rollbackFaults ie) created s2 = (es, s3)"
      "errs = e # es" "s' = dropSpool path v s3"
  | (imported) created s1 s2 res s3 where
      "addGCRoot imp (ie_faults1 ie) (ie_now1 ie) (ie_pid ie) (StorePath ni) s = (Inr created, s1)"
      "importNar imp ie f ni s1 = (None, s2)"
      "addGCRoot imp (ie_faults2 ie) (ie_now2 ie) (ie_pid ie) (StorePath ni) s2 = (res, s3)"
      "errs = (case res of Inl e \<Rightarrow> [e] | Inr _ \<Rightarrow> [])" "s' = dropSpool path v s3"
  using assms lockGCRoot_not_sync [of imp ie "StorePath ni"] unfolding import_locked_def
  by (auto split: sum.splits prod.splits option.splits)

lemma verify_not_sync: "verify imp ie f ni = (v, Some e) \<Longrightarrow> e \<noteq> GcSyncErr"
  by (auto simp: verify_def Let_def split: if_splits option.splits prod.splits)

lemma SpoolPath_not_sync: "SpoolPath imp u = Inl e \<Longrightarrow> e \<noteq> GcSyncErr"
  by (auto simp: SpoolPath_def Let_def split: if_splits)

lemma Import_cases:
  assumes "Import imp ie ni s0 = (errs, s')"
  obtains (early) e where "errs = [e]" "e \<noteq> GcSyncErr" "im_sent s' = im_sent s0" "im_gc s' = im_gc s0"
  | (verified) f path v s where "verify imp ie f ni = (v, None)" "import_locked imp ie ni f path v s = (errs, s')"
      "im_gc s = im_gc s0" "im_sent s = im_sent s0" "im_seq s = im_seq s0"
proof (cases "SpoolPath imp (URL ni)")
  case (Inr path)
  show ?thesis
  proof (cases "im_spool s0 path")
    case (Some f)
    let ?s = "s0\<lparr>im_spool := ie_swap ie (im_spool s0)\<rparr>"
    obtain v res where v: "verify imp ie f ni = (v, res)" by fastforce
    show ?thesis
    proof (cases res)
      case None
      then show ?thesis
        using assms Inr Some v early verified [of f v path ?s] by (auto simp: Import_def split: if_splits)
    next
      case (Some e)
      then have "e \<noteq> GcSyncErr" using verify_not_sync v by blast
      with Some show ?thesis
        using assms Inr \<open>im_spool s0 path = Some f\<close> v early by (auto simp: Import_def split: if_splits)
    qed
  qed (use assms Inr early in \<open>auto simp: Import_def split: if_splits\<close>)
qed (use assms early SpoolPath_not_sync in \<open>auto simp: Import_def\<close>)

lemma import_locked_sound:
  assumes run: "import_locked imp ie ni f path v s = (errs, s')" and ver: "verify imp ie f ni = (v, None)"
    and sha: "\<And>x. length (ie_sha ie x) = 32"
    and dec: "\<And>c b r1 r2. ie_decode1 ie (UseExternal imp) c b = Some r1 \<Longrightarrow> ie_decode2 ie (UseExternal imp) c b = Some r2 \<Longrightarrow> rd_data r2 = rd_data r1"
  shows "(im_sent s' = im_sent s \<and> errs \<noteq> [] \<or> (\<exists>x. im_sent s' = im_sent s @ [x] \<and> sent_verified imp ie ni x)) \<and>
    (errs = [] \<longrightarrow> rooted imp ni (ie_now2 ie) (im_gc s'))"
  using run
proof (cases rule: import_locked_cases)
  case (root e s1)
  then show ?thesis using addGCRoot_sent [of imp "ie_faults1 ie" "ie_now1 ie" "ie_pid ie" "StorePath ni" s] by simp
next
  case (failed created s1 e s2 es s3)
  note a = addGCRoot_ok [OF failed(1)]
  have "im_sent s3 = im_sent s2" using rollback_simps [of "ie_rollbackFaults ie" created s2] failed(3) by simp
  then show ?thesis using importNar_verified [OF ver failed(2) _ sha dec] a failed(4,5) by auto
next
  case (imported created s1 s2 res s3)
  note a = addGCRoot_ok [OF imported(1)]
  have sent: "im_sent s3 = im_sent s2"
    using addGCRoot_sent [of imp "ie_faults2 ie" "ie_now2 ie" "ie_pid ie" "StorePath ni" s2] imported(3) by simp
  have "rooted imp ni (ie_now2 ie) (im_gc s3)" if "errs = []"
    using that imported(3,4) addGCRoot_ok [of imp "ie_faults2 ie" "ie_now2 ie" "ie_pid ie" ni s2 _ s3] by (cases res) auto
  then show ?thesis using importNar_verified [OF ver imported(2) _ sha dec] a sent imported(4,5) by auto
qed simp

section \<open>Undoing\<close>

lemma storePathHash_valid: "storePathHash imp p \<noteq> [] \<Longrightarrow> ValidHashPart (storePathHash imp p)"
  by (auto simp: storePathHash_def Let_def split: prod.splits if_splits)

lemma ValidHashPart_chars: "ValidHashPart h \<Longrightarrow> c \<in> set h \<Longrightarrow> c \<in> set alphabet"
  by (auto simp: ValidHashPart_def list_all_iff decTable_valid)

lemma ValidHashPart_plain:
  assumes "ValidHashPart h"
  shows "plain_name h" "CHR ''.'' \<notin> set h" "plain_name (h @ CHR ''.'' # t) \<longleftrightarrow> CHR ''/'' \<notin> set t"
  using assms ValidHashPart_chars [OF assms, of "CHR ''/''"] ValidHashPart_chars [OF assms, of "CHR ''.''"]
  by (auto simp: plain_name_def ValidHashPart_def HashPartLen_def alphabet_def dest: arg_cong [where f = length])

lemma import_root_nonempty: "storePathHash imp (StorePath ni) \<noteq> [] \<Longrightarrow> import_root imp ni \<noteq> []"
  using path_Base_Join [OF ValidHashPart_plain(1) [OF storePathHash_valid], of imp "StorePath ni" "GCRootDir imp"]
    ValidHashPart_plain(1) [OF storePathHash_valid, of imp "StorePath ni"]
  by (auto simp: import_root_def path_Base_def plain_name_def)

text \<open>The link an import puts in place.\<close>

definition root_link :: "NarInfo \<Rightarrow> int \<Rightarrow> rootfile" where
  "root_link ni now = \<lparr>rf_mtime = now, rf_symlink = True, rf_target = StorePath ni\<rparr>"

text \<open>Everything a call of \<open>addGCRoot\<close> may have changed.\<close>

lemma addGCRoot_cases:
  assumes "addGCRoot imp flt now pid (StorePath ni) s = (res, s')"
  obtains (off) "GCRootDir imp = []" "res = Inr []" "im_gc s' = im_gc s"
  | (refused) e where "res = Inl e" "e \<noteq> GcSyncErr" "im_gc s' = im_gc s"
  | (unlinked) "res = Inl SymlinkErr"
      "im_gc s' = undo_link flt (tmp_root (import_root imp ni) pid (im_seq s + 1)) (StorePath ni) now (im_gc s)"
  | (unsynced) "res = Inl GcSyncErr" "gd_files (im_gc s') = (gd_files (im_gc s))(import_root imp ni \<mapsto> root_link ni now)"
  | (linked) "res = Inr (if gd_files (im_gc s) (import_root imp ni) \<noteq> None then [] else import_root imp ni)"
      "gd_files (im_gc s') = (gd_files (im_gc s))(import_root imp ni \<mapsto> root_link ni now)" "import_root imp ni \<noteq> []"
proof (cases "GCRootDir imp = []")
  case True
  then show ?thesis using assms by (intro off) (simp_all add: addGCRoot_def)
next
  case False
  let ?tmp = "tmp_root (import_root imp ni) pid (im_seq s + 1)"
  note run = assms [unfolded addGCRoot_def, simplified False if_False Let_def, folded import_root_def]
  show ?thesis
  proof (cases "storePathHash imp (StorePath ni) = [] \<or> mkdir_fails flt \<or> lstat_fails flt (import_root imp ni)")
    case True
    then have "\<exists>e. res = Inl e \<and> e \<noteq> GcSyncErr \<and> im_gc s' = im_gc s" using run by (auto split: if_splits)
    then show ?thesis using refused by blast
  next
    case ok: False
    show ?thesis
    proof (cases "symlink_fails flt ?tmp \<or> gd_files (im_gc s) ?tmp \<noteq> None \<or> rename_fails flt ?tmp")
      case True
      then show ?thesis using run ok by (intro unlinked) auto
    next
      case linkable: False
      then show ?thesis
        using run ok import_root_nonempty [of imp ni]
        by (cases "sync_fails flt") (rule unsynced linked; auto simp: root_link_def put_link_def)+
    qed
  qed
qed

lemma importNar_not_sync: "importNar imp ie f ni s = (Some e, s') \<Longrightarrow> e \<noteq> GcSyncErr"
  by (auto simp: importNar_def importStream_def Let_def serveExchange_def serveHandshake_def readServeWord_def pipe_write_def
      split: if_splits option.splits prod.splits sum.splits)

lemma rollback_cases:
  assumes "rollback flt created s = (es, s')"
  obtains (none) "created = []" "es = []" "s' = s"
  | (stuck) "created \<noteq> []" "es = [RollbackErr]" "s' = s" "remove_fails flt created \<or> gd_files (im_gc s) created = None"
  | (removed) "created \<noteq> []" "es = [] \<or> es = [RollbackErr]" "\<not> remove_fails flt created"
      "gd_files (im_gc s') = (gd_files (im_gc s))(created := None)"
  using assms by (auto simp: rollback_def split: if_splits)

text \<open>
  The two ways in which a root that an import created outlives an import nobody acknowledged, both of
  them reported: the directory could not be synced after the rename, or the link could not be removed.
\<close>

definition root_kept :: "import_env \<Rightarrow> string \<Rightarrow> import_error list \<Rightarrow> bool" where
  "root_kept ie root errs \<longleftrightarrow>
     errs = [GcSyncErr] \<or> (\<exists>e. errs = [e, RollbackErr] \<and> remove_fails (ie_rollbackFaults ie) root)"

definition roots_after :: "import_env \<Rightarrow> NarInfo \<Rightarrow> string \<Rightarrow> string \<Rightarrow> import_error list \<Rightarrow> gcdir \<Rightarrow> gcdir \<Rightarrow> bool" where
  "roots_after ie ni root tmp errs d d' \<longleftrightarrow>
     (gd_files d root = None \<longrightarrow> gd_files d' root = (if root_kept ie root errs then Some (root_link ni (ie_now1 ie)) else None)) \<and>
     (gd_files d root \<noteq> None \<longrightarrow> gd_files d' root \<in> {gd_files d root, Some (root_link ni (ie_now1 ie))}) \<and>
     (\<forall>p. p \<noteq> root \<and> gd_files d' p \<noteq> gd_files d p \<longrightarrow> p = tmp \<and> errs = [SymlinkErr] \<and>
        (gd_files d' p = None \<or> gd_files d' p = Some (root_link ni (ie_now1 ie)) \<and> remove_fails (ie_faults1 ie) tmp))"

lemma roots_after_same: "errs = [e] \<Longrightarrow> e \<noteq> GcSyncErr \<Longrightarrow> gd_files d' = gd_files d \<Longrightarrow> roots_after ie ni root tmp errs d d'"
  by (auto simp: roots_after_def root_kept_def)

lemma roots_after_undo:
  "tmp \<noteq> root \<Longrightarrow> roots_after ie ni root tmp [SymlinkErr] d (undo_link (ie_faults1 ie) tmp (StorePath ni) (ie_now1 ie) d)"
  by (simp add: roots_after_def root_kept_def root_link_def undo_link_def put_link_def)

lemma import_locked_roots:
  assumes run: "import_locked imp ie ni f path v s = (errs, s')" and sent: "im_sent s' = im_sent s"
  shows "errs \<noteq> [] \<and> roots_after ie ni (import_root imp ni)
    (tmp_root (import_root imp ni) (ie_pid ie) (im_seq s + 1)) errs (im_gc s) (im_gc s')"
  using run
proof (cases rule: import_locked_cases)
  case (busy e)
  then show ?thesis using roots_after_same by simp
next
  case (root e s1)
  from root(1) show ?thesis
  proof (cases rule: addGCRoot_cases)
    case unlinked
    then show ?thesis using roots_after_undo [of _ _ ie ni "im_gc s"] root(2,3) by (simp add: tmp_root_def)
  qed (use root(2,3) roots_after_same in \<open>auto simp: roots_after_def root_kept_def\<close>)
next
  case (failed created s1 e s2 es s3)
  have gc: "im_gc s2 = im_gc s1" and e: "e \<noteq> GcSyncErr"
    using importNar_log [OF failed(2)] importNar_not_sync [OF failed(2)] by simp_all
  from failed(1) show ?thesis
  proof (cases rule: addGCRoot_cases)
    case off
    then show ?thesis using failed(3-5) gc e roots_after_same by (simp add: rollback_def)
  next
    case linked
    from failed(3) show ?thesis
      by (cases rule: rollback_cases) (use linked failed(4,5) gc e in \<open>auto simp: roots_after_def root_kept_def split: if_splits\<close>)
  qed simp_all
next
  case (imported created s1 s2 res s3)
  have "im_sent s2 \<noteq> im_sent s1" using importNar_log [OF imported(2)] by auto
  moreover have "im_sent s3 = im_sent s2" "im_sent s1 = im_sent s"
    using addGCRoot_sent [of imp "ie_faults2 ie" "ie_now2 ie" "ie_pid ie" "StorePath ni" s2] imported(3) addGCRoot_ok [OF imported(1)] by simp_all
  ultimately show ?thesis using sent imported(5) by simp
qed

section \<open>An example\<close>

definition import_nar :: bytes where "import_nar = bytes_of ''NAR bytes''"

definition import_sha :: "bytes \<Rightarrow> bytes" where "import_sha b = replicate 32 7"

definition import_ni :: NarInfo where
  "import_ni = zeroNarInfo\<lparr>StorePath := ''/nix/store/'' @ replicate 32 CHR ''a'' @ ''-x'', URL := ''nar/x.nar'', Compression := ''none'',
     NarHash := ''sha256:'' @ EncodeToString (replicate 32 7), NarSize := word_of_nat (length import_nar)\<rparr>"

definition import_imp :: Importer where
  "import_imp = \<lparr>SpoolDir = ''/spool'', GCRootDir = ''/gc'', imp_StoreDir = [], NixStoreURI = [], UseExternal = False, MaxNarSize = 0\<rparr>"

definition import_example :: import_env where
  "import_example = \<lparr>ie_sha = import_sha, ie_rootOk = True, ie_statOk = True, ie_ctxVerify = False, ie_ctxVerified = False,
     ie_decode1 = (\<lambda>_ _ b. Some \<lparr>rd_data = b, rd_err = False, rd_eager = False\<rparr>), ie_swap = (\<lambda>m. m), ie_acquireOk = True,
     ie_faults1 = no_faults, ie_now1 = 5, ie_pid = 1, ie_ctxImport = False, ie_seekOk = True,
     ie_decode2 = (\<lambda>_ _ b. Some \<lparr>rd_data = b, rd_err = False, rd_eager = False\<rparr>),
     ie_child = \<lparr>ch_answers = AppendUint64 (AppendUint64 (AppendUint64 [] serveMagicServer) serveVersion) 1, ch_room = None, ch_starts = True,
       ch_waitErr = False, ch_closeErr = False\<rparr>,
     ie_ctxDone = False, ie_rollbackFaults = no_faults, ie_faults2 = no_faults, ie_now2 = 6\<rparr>"

definition import_start :: imp_state where
  "import_start = \<lparr>im_spool = [''/spool/x.nar'' \<mapsto> \<lparr>sf_regular = True, sf_content = import_nar, sf_mtime = 1\<rparr>],
     im_gc = \<lparr>gd_files = (\<lambda>_. None), gd_held = []\<rparr>, im_seq = 0, im_sent = []\<rparr>"

lemma import_ni_simps:
  "storePathHash import_imp (StorePath import_ni) = replicate 32 CHR ''a''" "SpoolPath import_imp (URL import_ni) = Inr ''/spool/x.nar''"
  "CanonicalHash (NarHash import_ni) = Inr (NarHash import_ni)"
proof -
  show "storePathHash import_imp (StorePath import_ni) = replicate 32 CHR ''a''"
    by (simp add: storePathHash_def import_imp_def import_ni_def DefaultStoreDir_def TrimSuffix_def HasSuffix_def CutPrefix_def HasPrefix_def
        Cut_char ValidHashPart_def HashPartLen_def list_all_iff decTable_valid alphabet_def numeral_eq_Suc)
  show "SpoolPath import_imp (URL import_ni) = Inr ''/spool/x.nar''"
    by (simp add: SpoolPath_def import_imp_def import_ni_def Cut_char path_Base_def filepath_Join_def path_Clean_def clean_step_def)
  have size: "hashSizes ''sha256'' = Some (length (replicate 32 7 :: bytes))" by (simp add: hashSizes_def)
  show "CanonicalHash (NarHash import_ni) = Inr (NarHash import_ni)"
    using CanonicalHash_colon [OF size] decodeDigest_encodings(2) [OF size] by (simp add: import_ni_def)
qed

lemma Uint64_fold: "foldr (\<lambda>b acc. push_bit 8 acc + ucast b) bs a = Uint64 bs + push_bit (8 * length bs) (a :: uint64)"
proof (induction bs)
  case (Cons b bs)
  then show ?case by (simp add: Uint64_def push_bit_add push_bit_push_bit add.commute add.left_commute)
qed (simp add: Uint64_def)

lemma byte_of_word: "ucast (ucast w :: byte) = take_bit 8 (w :: uint64)"
  by (rule bit_word_eqI) (auto simp: bit_simps)

lemma Uint64_bytes: "Uint64 (map (\<lambda>i. ucast (drop_bit (8 * i) v)) [0..<k]) = take_bit (8 * k) v"
proof (induction k)
  case (Suc k)
  have "take_bit (8 * Suc k) v = push_bit (8 * k) (take_bit 8 (drop_bit (8 * k) v)) + take_bit (8 * k) v"
    using bits_ident [of "8 * k" "take_bit (8 * Suc k) v"] by (simp add: drop_bit_take_bit)
  then show ?case
    using Suc Uint64_fold [of "map (\<lambda>i. ucast (drop_bit (8 * i) v)) [0..<k]" "take_bit 8 (drop_bit (8 * k) v)"]
    by (simp add: Uint64_def byte_of_word)
qed (simp add: Uint64_def)


lemma Uint64_Append: "Uint64 (AppendUint64 [] v) = v"
  using Uint64_bytes [of v 8] take_bit_length_eq [of v] by (simp add: AppendUint64_def)

lemma AppendUint64_append: "AppendUint64 d v = d @ AppendUint64 [] v"
  by (simp add: AppendUint64_def)

lemma length_AppendUint64 [simp]: "length (AppendUint64 d v) = length d + 8"
  by (simp add: AppendUint64_def)

lemma readServeWord_word: "readServeWord \<lparr>pp_sent = b, pp_room = r, pp_in = AppendUint64 [] v @ rest\<rparr> =
   (Inr v, \<lparr>pp_sent = b, pp_room = r, pp_in = rest\<rparr>)"
  by (simp add: readServeWord_def Uint64_Append)

section \<open>An example of each outcome\<close>

definition import_file :: spool_file where
  "import_file = \<lparr>sf_regular = True, sf_content = import_nar, sf_mtime = 1\<rparr>"

lemma import_verify: "verify import_imp (import_example\<lparr>ie_child := ch\<rparr>) import_file import_ni = (Some import_file, None)"
  by (simp add: verify_def import_imp_def import_example_def import_ni_def limited_copy_def import_nar_def DefaultMaxNarSize_def
      import_sha_def import_file_def)

lemma import_answers:
  "ch_answers (ie_child import_example) = AppendUint64 [] serveMagicServer @ AppendUint64 [] serveVersion @ AppendUint64 [] 1 @ []"
  by (simp add: import_example_def AppendUint64_def)

lemma import_sizes: "unat (NarSize import_ni) = length import_nar" "length import_nar = 9" "Compression import_ni = ''none''"
  by (simp_all add: import_ni_def import_nar_def)

lemma import_hash: "CutPrefix (NarHash import_ni) ''sha256:'' = (EncodeToString (replicate 32 7), True)"
  unfolding CutPrefix_True_iff by (simp add: import_ni_def)

lemma import_exchange:
  "\<exists>p. serveExchange \<lparr>pp_sent = [], pp_room = None, pp_in = ch_answers (ie_child import_example)\<rparr>
     \<lparr>rd_data = import_nar, rd_err = False, rd_eager = False\<rparr> import_ni = (None, p)"
  unfolding import_answers serveExchange_def import_ni_simps(3) serveHandshake_def
  by (simp add: import_hash Decode_Encode pipe_write_def readServeWord_word readServeWord_word [where rest = "[]", simplified] limited_copy_def import_sizes serveVersion_def
      serveMagicServer_def)

lemma import_example_fields:
  "ie_rootOk import_example" "ie_acquireOk import_example" "\<not> ie_ctxImport import_example" "ie_seekOk import_example"
  "\<not> ie_ctxDone import_example" "ie_faults1 import_example = no_faults" "ie_faults2 import_example = no_faults"
  "ie_rollbackFaults import_example = no_faults" "ch_starts (ie_child import_example)" "\<not> ch_waitErr (ie_child import_example)"
  "\<not> ch_closeErr (ie_child import_example)" "ch_room (ie_child import_example) = None"
  "ie_decode2 import_example x c b = Some \<lparr>rd_data = b, rd_err = False, rd_eager = False\<rparr>"
  "sf_content import_file = import_nar" "im_spool import_start ''/spool/x.nar'' = Some import_file"
  "gd_files (im_gc import_start) = (\<lambda>_. None)"
  by (simp_all add: import_example_def import_file_def import_start_def)

lemma addGCRoot_no_faults:
  assumes "storePathHash imp (StorePath ni) \<noteq> []" "gd_files (im_gc s) (tmp_root (import_root imp ni) pid (im_seq s + 1)) = None"
  shows "\<exists>c s'. addGCRoot imp no_faults now pid (StorePath ni) s = (Inr c, s') \<and> im_seq s' = im_seq s + (if GCRootDir imp = [] then 0 else 1)"
  using assms by (simp add: addGCRoot_def Let_def no_faults_def import_root_def)

lemma tmp_root_neq: "tmp_root r pid k \<noteq> r"
  by (simp add: tmp_root_def)

lemma import_example_ok: "\<exists>s'. Import import_imp import_example import_ni import_start = ([], s')"
proof -
  have hash: "storePathHash import_imp (StorePath import_ni) \<noteq> []" unfolding import_ni_simps(1) by simp
  have v: "verify import_imp import_example import_file import_ni = (Some import_file, None)"
    using import_verify [of "ie_child import_example"] by simp
  let ?s = "import_start\<lparr>im_spool := ie_swap import_example (im_spool import_start)\<rparr>"
  obtain c s1 where s1: "addGCRoot import_imp no_faults (ie_now1 import_example) (ie_pid import_example) (StorePath import_ni) ?s = (Inr c, s1)"
    using addGCRoot_no_faults [OF hash, of ?s "ie_pid import_example"] import_example_fields(16) by fastforce
  obtain s2 where s2: "importNar import_imp import_example import_file import_ni s1 = (None, s2)"
    using import_exchange by (auto simp: importNar_def importStream_def Let_def import_example_fields)
  have "gd_files (im_gc s2) (tmp_root (import_root import_imp import_ni) (ie_pid import_example) (im_seq s2 + 1)) = None"
    using importNar_log [OF s2] addGCRoot_ok [OF s1] tmp_root_neq import_example_fields(16) by simp
  then obtain c' s3 where s3: "addGCRoot import_imp no_faults (ie_now2 import_example) (ie_pid import_example) (StorePath import_ni) s2 = (Inr c', s3)"
    using addGCRoot_no_faults [OF hash] by blast
  have "lockGCRoot import_imp import_example (StorePath import_ni) = Inr (Some (lock_name (ie_sha import_example) (storePathHash import_imp (StorePath import_ni))))"
    using hash by (simp add: lockGCRoot_def import_example_fields import_imp_def)
  then show ?thesis
    using s1 s2 s3 v by (simp add: Import_def import_ni_simps(2) import_locked_def import_example_fields Let_def)
qed

section \<open>Properties\<close>

text \<open>
  C24: whatever fails, the bytes a child of \<^verbatim>\<open>nix-store\<close> acknowledges are the handshake, the header for
  this narinfo and a NAR of the declared size and hash, and while they were sent the store path was
  rooted; a successful import sent them once and leaves the root in place with a fresh time stamp.
\<close>

theorem import_sends_only_verified:
  assumes "Import imp ie ni s = (errs, s')" and "\<And>x. length (ie_sha ie x) = 32"
    and "\<And>c b r1 r2. ie_decode1 ie (UseExternal imp) c b = Some r1 \<Longrightarrow> ie_decode2 ie (UseExternal imp) c b = Some r2 \<Longrightarrow> rd_data r2 = rd_data r1"
  shows "(im_sent s' = im_sent s \<and> errs \<noteq> [] \<or> (\<exists>x. im_sent s' = im_sent s @ [x] \<and> sent_verified imp ie ni x)) \<and>
    (errs = [] \<longrightarrow> rooted imp ni (ie_now2 ie) (im_gc s'))"
  using assms(1)
proof (cases rule: Import_cases)
  case (verified f path v s1)
  then show ?thesis using import_locked_sound [OF verified(2,1) assms(2,3)] by simp
qed simp

lemma import_example_assms: "length (ie_sha import_example y) = 32"
  "ie_decode1 import_example x c b = Some r1 \<Longrightarrow> ie_decode2 import_example x c b = Some r2 \<Longrightarrow> rd_data r2 = rd_data r1"
  by (auto simp: import_example_def import_sha_def)

theorem import_sends_only_verified_witness:
  "\<exists>s' x. Import import_imp import_example import_ni import_start = ([], s') \<and> im_sent s' = [x] \<and>
     sent_verified import_imp import_example import_ni x \<and> rooted import_imp import_ni 6 (im_gc s')"
proof -
  obtain s' where s': "Import import_imp import_example import_ni import_start = ([], s')" using import_example_ok by blast
  have "im_sent import_start = []" "ie_now2 import_example = 6" by (simp_all add: import_start_def import_example_def)
  then show ?thesis
    using import_sends_only_verified [OF s' import_example_assms] s' by auto
qed

text \<open>
  C25: an import no child acknowledged leaves no root behind unnoticed, whatever fails on the way.  It
  returns an error.  A root that was not there is there afterwards exactly if the directory could not be
  synced after the link was renamed into place (\<^verbatim>\<open>addGCRoot\<close> then keeps the root and this is the only
  error) or the rollback could not remove it (and its error is joined to the import's).  A root that was
  there is never removed, at most renewed.  No other name changes but the temporary one, and that only
  after a failed symlink or rename: it is free again, or holds the link because it could not be removed.
\<close>

theorem unacknowledged_import_roots:
  assumes "Import imp ie ni s = (errs, s')" and "im_sent s' = im_sent s"
    and "root = import_root imp ni" and "tmp = tmp_root root (ie_pid ie) (im_seq s + 1)"
    and "link = \<lparr>rf_mtime = ie_now1 ie, rf_symlink = True, rf_target = StorePath ni\<rparr>"
    and "before = gd_files (im_gc s)" and "after = gd_files (im_gc s')"
  shows "errs \<noteq> [] \<and>
    (before root = None \<longrightarrow> after root =
       (if errs = [GcSyncErr] \<or> (\<exists>e. errs = [e, RollbackErr] \<and> remove_fails (ie_rollbackFaults ie) root)
        then Some link else None)) \<and>
    (before root \<noteq> None \<longrightarrow> after root \<in> {before root, Some link}) \<and>
    (\<forall>p. p \<noteq> root \<and> after p \<noteq> before p \<longrightarrow> p = tmp \<and> errs = [SymlinkErr] \<and>
       (after p = None \<or> after p = Some link \<and> remove_fails (ie_faults1 ie) tmp))"
proof -
  have "errs \<noteq> [] \<and> roots_after ie ni root tmp errs (im_gc s) (im_gc s')"
    using assms(1)
  proof (cases rule: Import_cases)
    case (early e)
    then show ?thesis using roots_after_same [OF early(1,2)] by simp
  next
    case (verified f path v s1)
    then show ?thesis using import_locked_roots [OF verified(2)] assms(2-4) by simp
  qed
  then show ?thesis
    unfolding assms(5-7) roots_after_def root_kept_def root_link_def .
qed

definition import_refused :: import_env where
  "import_refused = import_example\<lparr>ie_seekOk := False\<rparr>"

lemma import_refused_fails: "\<exists>s'. Import import_imp import_refused import_ni import_start = ([SeekErr], s') \<and> im_sent s' = []"
proof -
  have hash: "storePathHash import_imp (StorePath import_ni) \<noteq> []" unfolding import_ni_simps(1) by simp
  have v: "verify import_imp import_refused import_file import_ni = (Some import_file, None)"
    by (simp add: verify_def import_imp_def import_refused_def import_example_def import_ni_def limited_copy_def import_nar_def
        DefaultMaxNarSize_def import_sha_def import_file_def)
  let ?s = "import_start\<lparr>im_spool := ie_swap import_example (im_spool import_start)\<rparr>"
  obtain c s1 where s1: "addGCRoot import_imp no_faults (ie_now1 import_example) (ie_pid import_example) (StorePath import_ni) ?s = (Inr c, s1)"
    using addGCRoot_no_faults [OF hash, of ?s "ie_pid import_example"] import_example_fields(16) by fastforce
  have s2: "importNar import_imp import_refused import_file import_ni s1 = (Some SeekErr, s1)"
    by (simp add: importNar_def import_refused_def import_example_fields)
  have a: "c = [] \<or> gd_files (im_gc s1) c \<noteq> None" using addGCRoot_ok [OF s1] by (auto simp: rooted_def)
  obtain es s3 where s3: "rollback no_faults c s1 = (es, s3)" by fastforce
  have "es = []" using s3 a by (auto simp: rollback_def no_faults_def split: if_splits)
  moreover have "im_sent s3 = im_sent s1" using rollback_simps [of no_faults c s1] unfolding s3 by simp
  moreover have "im_sent s1 = []" using addGCRoot_ok [OF s1] by (simp add: import_start_def)
  moreover have "lockGCRoot import_imp import_refused (StorePath import_ni) = Inr (Some (lock_name (ie_sha import_example) (storePathHash import_imp (StorePath import_ni))))"
    using hash by (simp add: lockGCRoot_def import_example_fields import_imp_def import_refused_def)
  ultimately show ?thesis
    using s1 s2 s3 v by (simp add: Import_def import_ni_simps(2) import_locked_def import_example_fields Let_def import_refused_def)
qed

text \<open>The same import where the directory cannot be synced: \<^verbatim>\<open>nix-store\<close> is not run, and the root stays.\<close>

definition import_unsynced :: import_env where
  "import_unsynced = import_example\<lparr>ie_faults1 := no_faults\<lparr>sync_fails := True\<rparr>\<rparr>"

lemma import_unsynced_fails: "\<exists>s'. Import import_imp import_unsynced import_ni import_start = ([GcSyncErr], s') \<and> im_sent s' = []"
proof -
  have hash: "storePathHash import_imp (StorePath import_ni) \<noteq> []" unfolding import_ni_simps(1) by simp
  have v: "verify import_imp import_unsynced import_file import_ni = (Some import_file, None)"
    by (simp add: verify_def import_imp_def import_unsynced_def import_example_def import_ni_def limited_copy_def import_nar_def
        DefaultMaxNarSize_def import_sha_def import_file_def)
  let ?s = "import_start\<lparr>im_spool := ie_swap import_example (im_spool import_start)\<rparr>"
  obtain s1 where s1: "addGCRoot import_imp (no_faults\<lparr>sync_fails := True\<rparr>) (ie_now1 import_example) (ie_pid import_example)
      (StorePath import_ni) ?s = (Inl GcSyncErr, s1)" "im_sent s1 = []"
    using hash by (auto simp: addGCRoot_def Let_def no_faults_def import_imp_def import_start_def)
  have "lockGCRoot import_imp import_unsynced (StorePath import_ni) =
      Inr (Some (lock_name (ie_sha import_example) (storePathHash import_imp (StorePath import_ni))))"
    using hash by (simp add: lockGCRoot_def import_example_fields import_imp_def import_unsynced_def)
  then show ?thesis
    using s1 v by (simp add: Import_def import_ni_simps(2) import_locked_def import_example_fields Let_def import_unsynced_def)
qed

theorem unacknowledged_import_roots_witness:
  "\<exists>s1 s2. Import import_imp import_refused import_ni import_start = ([SeekErr], s1) \<and>
     gd_files (im_gc s1) (import_root import_imp import_ni) = None \<and>
     Import import_imp import_unsynced import_ni import_start = ([GcSyncErr], s2) \<and>
     gd_files (im_gc s2) (import_root import_imp import_ni) \<noteq> None"
proof -
  obtain s1 s2 where s: "Import import_imp import_refused import_ni import_start = ([SeekErr], s1)" "im_sent s1 = []"
      "Import import_imp import_unsynced import_ni import_start = ([GcSyncErr], s2)" "im_sent s2 = []"
    using import_refused_fails import_unsynced_fails by blast
  have start: "im_sent import_start = []" "gd_files (im_gc import_start) r = None" for r by (simp_all add: import_start_def)
  have "gd_files (im_gc s1) (import_root import_imp import_ni) = None"
    using unacknowledged_import_roots [OF s(1) _ refl refl refl refl refl] s(2) start by simp
  moreover have "gd_files (im_gc s2) (import_root import_imp import_ni) \<noteq> None"
    using unacknowledged_import_roots [OF s(3) _ refl refl refl refl refl] s(4) start by simp
  ultimately show ?thesis using s by blast
qed

end
