(* ===== verification/Upload.thy ===== *)
theory Upload
  imports Narinfo GoTime
begin

text \<open>
  The pushing client (\<^verbatim>\<open>upload/upload.go\<close>): resolving a closure, the graph of references, the scheduler
  that uploads a path only after what it refers to, the transfer of one path and the summary.  The
  scheduler runs workers concurrently, so it is a transition system: one step starts the next ready path
  or takes the result of some worker.  Durations and rates, which are only displayed, are left out of the
  statistics, and so are the callbacks of the display.
\<close>

section \<open>Data\<close>

record pathMeta =
  pm_Path :: string
  pm_NarHash :: string
  pm_NarSize :: int
  pm_References :: "string list"
  pm_Deriver :: string

datatype upload_error =
    PathGone | DepFailed | RefCycle | CtxCancelled | PathInfoErr | NarHashErr hash_error
  | DoErr string | Stalled | ReadBodyErr string | ResponseTooLarge | IncompleteNar | ProducerErr string
  | ImportWedged | BadStatus int string | Joined "upload_error list" | Permanent upload_error
  | UploadErr upload_error

record Stats =
  s_Path :: string
  s_NarSize :: int
  s_WireBytes :: int
  s_Skipped :: bool
  s_Err :: "upload_error option"

record Summary =
  Paths :: nat
  Uploaded :: nat
  Skipped :: nat
  NarBytes :: int
  WireBytes :: int
  Failed :: "string list"

section \<open>Resolving the closure\<close>

text \<open>\<^verbatim>\<open>splitGone\<close>: \<open>present\<close> is whether \<^verbatim>\<open>os.Lstat\<close> finds a path.\<close>

fun split_loop :: "(string \<Rightarrow> bool) \<Rightarrow> string list \<Rightarrow> string list \<Rightarrow> string list \<Rightarrow> string list \<Rightarrow> string list \<times> string list" where
  "split_loop present seen live gone [] = (live, gone)"
| "split_loop present seen live gone (r # rs) =
     (if r \<in> set seen then split_loop present seen live gone rs
      else if \<not> present r then split_loop present (r # seen) live (gone @ [r]) rs
      else split_loop present (r # seen) (live @ [r]) gone rs)"

definition splitGone :: "(string \<Rightarrow> bool) \<Rightarrow> string list \<Rightarrow> string list \<times> string list" where
  "splitGone present roots = split_loop present [] [] [] roots"

text \<open>\<open>pathInfo\<close> is what \<^verbatim>\<open>nix path-info\<close> answers; the first and the retried call may differ.\<close>

definition resolveClosure ::
  "(string list \<Rightarrow> upload_error + pathMeta list) \<Rightarrow> (string list \<Rightarrow> upload_error + pathMeta list) \<Rightarrow> (string \<Rightarrow> bool) \<Rightarrow> string list
   \<Rightarrow> upload_error + pathMeta list \<times> string list" where
  "resolveClosure pathInfo1 pathInfo2 present roots =
     (case pathInfo1 roots of
        Inr metas \<Rightarrow> Inr (metas, [])
      | Inl err \<Rightarrow>
          (case splitGone present roots of
             (live, gone) \<Rightarrow>
               if gone = [] then Inl err
               else if live = [] then Inr ([], gone)
               else case pathInfo2 live of Inl e \<Rightarrow> Inl e | Inr metas \<Rightarrow> Inr (metas, gone)))"

section \<open>The graph of references\<close>

record graph =
  byPath :: "string \<rightharpoonup> pathMeta"
  indeg :: "string \<Rightarrow> int"
  dependents :: "string \<Rightarrow> string list"

definition by_path :: "pathMeta list \<Rightarrow> string \<rightharpoonup> pathMeta" where
  "by_path metas = foldl (\<lambda>m pm. m(pm_Path pm \<mapsto> pm)) (\<lambda>_. None) metas"

definition add_ref :: "pathMeta \<Rightarrow> graph \<Rightarrow> string \<Rightarrow> graph" where
  "add_ref m g ref =
     (if ref = pm_Path m then g
      else if byPath g ref = None then g
      else g\<lparr>indeg := (indeg g)(pm_Path m := indeg g (pm_Path m) + 1),
             dependents := (dependents g)(ref := dependents g ref @ [pm_Path m])\<rparr>)"

text \<open>\<open>keys\<close> is the order in which the second loop of \<^verbatim>\<open>buildGraph\<close> visits the map.\<close>

definition buildGraph :: "string list \<Rightarrow> pathMeta list \<Rightarrow> graph" where
  "buildGraph keys metas =
     (let bp = by_path metas in
      foldl (\<lambda>g p. case bp p of None \<Rightarrow> g | Some m \<Rightarrow> foldl (add_ref m) g (pm_References m))
        \<lparr>byPath = bp, indeg = (\<lambda>_. 0), dependents = (\<lambda>_. [])\<rparr> keys)"

definition ready_paths :: "string list \<Rightarrow> graph \<Rightarrow> string list" where
  "ready_paths keys g = sort (filter (\<lambda>p. indeg g p = 0) keys)"

fun advance_loop :: "string list \<Rightarrow> (string \<Rightarrow> int) \<Rightarrow> string list \<times> (string \<Rightarrow> int)" where
  "advance_loop [] d = ([], d)"
| "advance_loop (q # qs) d =
     (let d' = d(q := d q - 1) in
      case advance_loop qs d' of (next, d'') \<Rightarrow> (if d' q = 0 then (q # next, d'') else (next, d'')))"

text \<open>\<^verbatim>\<open>advance\<close> for the one completed path the scheduler passes.\<close>

definition advance :: "string \<Rightarrow> graph \<Rightarrow> string list \<times> graph" where
  "advance p g = (case advance_loop (dependents g p) (indeg g) of (next, d) \<Rightarrow> (next, g\<lparr>indeg := d\<rparr>))"

definition hasFailedDep :: "graph \<Rightarrow> pathMeta \<Rightarrow> (string \<Rightarrow> bool) \<Rightarrow> bool" where
  "hasFailedDep g m failed \<longleftrightarrow> list_ex (\<lambda>ref. ref \<noteq> pm_Path m \<and> byPath g ref \<noteq> None \<and> failed ref) (pm_References m)"

section \<open>The scheduler\<close>

record sched =
  sc_graph :: graph
  sc_ready :: "string list"
  sc_active :: "string list"
  sc_stats :: "Stats list"
  sc_failed :: "string \<Rightarrow> bool"

definition record_stat :: "Stats \<Rightarrow> sched \<Rightarrow> sched" where
  "record_stat s st = st\<lparr>sc_stats := sc_stats st @ [s], sc_failed := (sc_failed st)(s_Path s := s_Err s \<noteq> None)\<rparr>"

definition advance_sched :: "string \<Rightarrow> sched \<Rightarrow> sched" where
  "advance_sched p st = (case advance p (sc_graph st) of (next, g) \<Rightarrow> st\<lparr>sc_graph := g, sc_ready := sc_ready st @ next\<rparr>)"

definition err_stat :: "pathMeta \<Rightarrow> string \<Rightarrow> upload_error \<Rightarrow> Stats" where
  "err_stat m p e = \<lparr>s_Path = p, s_NarSize = pm_NarSize m, s_WireBytes = 0, s_Skipped = False, s_Err = Some e\<rparr>"

text \<open>The inner loop for the path at the head of the queue; \<open>ctxErr\<close> is whether the context is done.\<close>

definition dispatch :: "bool \<Rightarrow> sched \<Rightarrow> sched" where
  "dispatch ctxErr st =
     (case sc_ready st of
        [] \<Rightarrow> st
      | p # rest \<Rightarrow>
          (case byPath (sc_graph st) p of
             None \<Rightarrow> st
           | Some m \<Rightarrow>
               let st1 = st\<lparr>sc_ready := rest\<rparr>;
                   err = (if hasFailedDep (sc_graph st) m (sc_failed st) then Some DepFailed
                          else if ctxErr then Some CtxCancelled else None)
               in (case err of
                     Some e \<Rightarrow> advance_sched p (record_stat (err_stat m p e) st1)
                   | None \<Rightarrow> st1\<lparr>sc_active := sc_active st @ [p]\<rparr>)))"

definition receive :: "Stats \<Rightarrow> sched \<Rightarrow> sched" where
  "receive s st = advance_sched (s_Path s) (record_stat s (st\<lparr>sc_active := remove1 (s_Path s) (sc_active st)\<rparr>))"

text \<open>Any worker may be the next to finish, with any outcome of \<^verbatim>\<open>uploadPath\<close>: its errors are all wrapped.\<close>

inductive up_step :: "nat \<Rightarrow> sched \<Rightarrow> sched \<Rightarrow> bool" for jobs where
  up_dispatch: "sc_ready st \<noteq> [] \<Longrightarrow> length (sc_active st) < jobs \<Longrightarrow> up_step jobs st (dispatch ctxErr st)"
| up_receive: "sc_ready st = [] \<or> jobs \<le> length (sc_active st) \<Longrightarrow> s_Path s \<in> set (sc_active st) \<Longrightarrow>
    s_Err s = None \<or> (\<exists>u. s_Err s = Some (UploadErr u)) \<Longrightarrow> up_step jobs st (receive s st)"

definition sched_init :: "string list \<Rightarrow> pathMeta list \<Rightarrow> sched" where
  "sched_init keys metas =
     (let g = buildGraph keys metas in
      \<lparr>sc_graph = g, sc_ready = ready_paths keys g, sc_active = [], sc_stats = [], sc_failed = (\<lambda>_. False)\<rparr>)"

definition run_jobs :: "int \<Rightarrow> string list \<Rightarrow> nat" where
  "run_jobs u_jobs keys = min (nat (max u_jobs 1)) (length keys)"

text \<open>\<open>up_runs jobs st k st'\<close>: \<open>k\<close> steps lead from \<open>st\<close> to \<open>st'\<close>.\<close>

inductive up_runs :: "nat \<Rightarrow> sched \<Rightarrow> nat \<Rightarrow> sched \<Rightarrow> bool" for jobs where
  up_runs_nil: "up_runs jobs st 0 st"
| up_runs_step: "up_runs jobs st k st' \<Longrightarrow> up_step jobs st' st'' \<Longrightarrow> up_runs jobs st (Suc k) st''"

definition sched_final :: "sched \<Rightarrow> bool" where
  "sched_final st \<longleftrightarrow> sc_ready st = [] \<and> sc_active st = []"

text \<open>The end of \<^verbatim>\<open>run\<close>: what was never scheduled is reported; \<open>keys\<close> is the order of the last loop.\<close>

definition run_finish :: "string list \<Rightarrow> sched \<Rightarrow> Stats list" where
  "run_finish keys st = sc_stats st @
     map (\<lambda>p. err_stat (the (byPath (sc_graph st) p)) p RefCycle)
       (filter (\<lambda>p. p \<notin> s_Path ` set (sc_stats st)) keys)"

section \<open>The summary\<close>

definition gone_stat :: "string \<Rightarrow> Stats" where
  "gone_stat p = \<lparr>s_Path = p, s_NarSize = 0, s_WireBytes = 0, s_Skipped = False, s_Err = Some PathGone\<rparr>"

definition add_summary :: "Summary \<Rightarrow> Stats \<Rightarrow> Summary" where
  "add_summary sm s =
     (if s_Err s \<noteq> None then sm\<lparr>Failed := Failed sm @ [s_Path s]\<rparr>
      else if s_Skipped s then sm\<lparr>Skipped := Skipped sm + 1\<rparr>
      else sm\<lparr>Uploaded := Uploaded sm + 1, NarBytes := int64 (NarBytes sm + s_NarSize s),
               WireBytes := int64 (WireBytes sm + s_WireBytes s)\<rparr>)"

text \<open>\<^verbatim>\<open>Closure\<close> after the run: statistics, summary and whether it returns \<^verbatim>\<open>errPathsFailed\<close>.\<close>

definition closure_result :: "Stats list \<Rightarrow> string list \<Rightarrow> Stats list \<times> Summary \<times> bool" where
  "closure_result run_stats gone =
     (let stats = run_stats @ map gone_stat gone;
          sm = foldl add_summary \<lparr>Paths = length stats, Uploaded = 0, Skipped = 0, NarBytes = 0, WireBytes = 0, Failed = []\<rparr> stats
      in (stats, sm, Failed sm \<noteq> []))"

section \<open>Settings\<close>

definition orDefault :: "int \<Rightarrow> int \<Rightarrow> int" where
  "orDefault v dflt = (if v \<le> 0 then dflt else v)"

record Options =
  o_Jobs :: int
  o_Attempts :: int
  o_StallTimeout :: int

record uploader =
  u_target :: string
  u_jobs :: int
  u_attempts :: int
  u_stallTimeout :: int
  u_importTimeout :: int

definition defaultImportTimeout :: int where "defaultImportTimeout = 35 * 60 * Second"

definition narCompression :: string where "narCompression = ''zstd''"

definition narExt :: string where "narExt = ''.nar.'' @ narCompression"

definition maxErrBody :: nat where "maxErrBody = 4096"

definition newUploader :: "string \<Rightarrow> Options \<Rightarrow> uploader" where
  "newUploader targetURL opts =
     \<lparr>u_target = TrimRight targetURL {CHR ''/''}, u_jobs = orDefault (o_Jobs opts) 8, u_attempts = orDefault (o_Attempts opts) 5,
      u_stallTimeout = orDefault (o_StallTimeout opts) (60 * Second), u_importTimeout = 0\<rparr>"

definition hashPartOf :: "string \<Rightarrow> string" where
  "hashPartOf storePath =
     (let base = path_Base storePath in if HashPartLen < length base then take HashPartLen base else base)"

section \<open>The transfer of one path\<close>

text \<open>
  What the transport reports of an exchange: an error of \<^verbatim>\<open>Do\<close>, or an answer with its status, the bytes
  its body can deliver, the error that follows them (unless it ends there) and the cause for which the
  request's context was done by then, if it was.
\<close>

record answer =
  a_status :: int
  a_body :: string
  a_readErr :: "string option"
  a_cause :: "upload_error option"

type_synonym do_result = "string + answer"

text \<open>\<^verbatim>\<open>errors.Join\<close>: nothing when every error is nil.\<close>

definition join_errors :: "upload_error option list \<Rightarrow> upload_error option" where
  "join_errors es = (case List.map_filter id es of [] \<Rightarrow> None | xs \<Rightarrow> Some (Joined xs))"

definition statusError :: "int \<Rightarrow> string \<Rightarrow> upload_error option \<Rightarrow> upload_error" where
  "statusError code body readErr =
     (let err = the (join_errors [Some (BadStatus code (TrimSpace body)), readErr])
      in if code \<in> {408, 425, 429} then err
         else if 400 \<le> code \<and> code < 500 then Permanent err else err)"

definition readResponse :: "answer \<Rightarrow> upload_error option" where
  "readResponse a =
     (let body = take (maxErrBody + 1) (a_body a);
          readErr = (if length (a_body a) \<le> maxErrBody then map_option ReadBodyErr (a_readErr a) else None);
          readErr = (if a_cause a \<noteq> None then a_cause a else readErr);
          (readErr, body) = (if maxErrBody < length body then (join_errors [readErr, Some ResponseTooLarge], take maxErrBody body)
                             else (readErr, body))
      in if a_status a = 200 then readErr else Some (statusError (a_status a) body readErr))"

text \<open>
  The streams of one attempt: \<^verbatim>\<open>meterReader\<close> counts what the transport reads and notes the end of the
  stream, \<^verbatim>\<open>countWriter\<close> counts what goes into the compressor.
\<close>

definition meter_read :: "int \<Rightarrow> bool \<Rightarrow> int \<times> bool \<Rightarrow> int \<times> bool" where
  "meter_read k isEOF m = (if 0 < k then fst m + k else fst m, snd m \<or> isEOF)"

definition count_write :: "int \<Rightarrow> int \<Rightarrow> int" where
  "count_write k n = (if 0 < k then n + k else n)"

text \<open>One attempt of \<^verbatim>\<open>putNar\<close>: \<open>po_reads\<close> are the results of the transport's reads of the body,
  \<open>po_digest\<close> the SHA-256 of what the producer wrote.\<close>

record put_obs =
  po_do :: do_result
  po_stalled :: bool
  po_reads :: "(int \<times> bool) list"
  po_producerErr :: "string option"
  po_digest :: bytes

definition putNar :: "put_obs \<Rightarrow> upload_error + int \<times> string" where
  "putNar ob =
     (let (wire, complete) = foldl (\<lambda>m (k, isEOF). meter_read k isEOF m) (0, False) (po_reads ob);
          producerErr = map_option ProducerErr (po_producerErr ob)
      in case po_do ob of
           Inl e \<Rightarrow> Inl (if po_stalled ob then Stalled else DoErr e)
         | Inr a \<Rightarrow>
             let responseErr = readResponse a;
                 producerErr = (if \<not> complete then join_errors [producerErr, Some IncompleteNar] else producerErr)
             in case join_errors [responseErr, producerErr] of
                  Some e \<Rightarrow> Inl e
                | None \<Rightarrow> Inr (wire, ''sha256:'' @ EncodeToString (po_digest ob)))"

text \<open>\<open>wedged\<close> is whether the import deadline was the cause for which the context ended.\<close>

definition putNarInfo :: "do_result \<Rightarrow> bool \<Rightarrow> upload_error option" where
  "putNarInfo res wedged =
     (case res of
        Inl e \<Rightarrow> Some (if wedged then Permanent ImportWedged else DoErr e)
      | Inr a \<Rightarrow> (let err = readResponse a in if wedged then Some (Permanent ImportWedged) else err))"

definition headNarInfo :: "do_result \<Rightarrow> string + bool" where
  "headNarInfo res = (case res of Inl e \<Rightarrow> Inl e | Inr a \<Rightarrow> Inr (a_status a = 200))"

text \<open>
  The other end of the connection: what a \<^verbatim>\<open>PUT\<close> of the NAR, a \<^verbatim>\<open>PUT\<close> of a narinfo body and a \<^verbatim>\<open>HEAD\<close> give
  at a URL.
\<close>

record remote =
  rm_putNar :: "string \<Rightarrow> put_obs"
  rm_putInfo :: "string \<Rightarrow> string \<Rightarrow> do_result \<times> bool"
  rm_head :: "string \<Rightarrow> do_result"

definition upload_narinfo :: "pathMeta \<Rightarrow> string \<Rightarrow> string \<Rightarrow> int \<Rightarrow> string \<Rightarrow> NarInfo" where
  "upload_narinfo m narName narHash wire fileHash =
     \<lparr>StorePath = pm_Path m, URL = ''nar/'' @ narName, Compression = narCompression, FileHash = fileHash,
      FileSize = word_of_int wire, NarHash = narHash, NarSize = word_of_int (pm_NarSize m),
      References = pm_References m, Deriver = pm_Deriver m, Sigs = [], CA = []\<rparr>"

definition transfer :: "uploader \<Rightarrow> remote \<Rightarrow> pathMeta \<Rightarrow> string \<Rightarrow> upload_error + Stats" where
  "transfer u rm m hashPart =
     (case CanonicalHash (pm_NarHash m) of
        Inl e \<Rightarrow> Inl (NarHashErr e)
      | Inr narHash \<Rightarrow>
          let narName = hashPart @ narExt in
          case putNar (rm_putNar rm (u_target u @ ''/nar/'' @ narName)) of
            Inl e \<Rightarrow> Inl e
          | Inr (wire, fileHash) \<Rightarrow>
              let ni = upload_narinfo m narName narHash wire fileHash;
                  (res, wedged) = rm_putInfo rm (u_target u @ ''/'' @ hashPart @ ''.narinfo'') (Marshal ni)
              in case putNarInfo res wedged of
                   Some e \<Rightarrow> Inl e
                 | None \<Rightarrow> Inr \<lparr>s_Path = pm_Path m, s_NarSize = pm_NarSize m, s_WireBytes = wire, s_Skipped = False, s_Err = None\<rparr>)"

text \<open>\<open>retry tries op\<close> is \<^verbatim>\<open>backoff.Retry\<close> on \<open>op\<close>, indexed by attempt, with that many tries.\<close>

definition uploadPath ::
  "(nat \<Rightarrow> (nat \<Rightarrow> upload_error + Stats) \<Rightarrow> upload_error + Stats) \<Rightarrow> uploader \<Rightarrow> (nat \<Rightarrow> remote) \<Rightarrow> pathMeta \<Rightarrow> Stats" where
  "uploadPath retry u rm m =
     (let hashPart = hashPartOf (pm_Path m) in
      if headNarInfo (rm_head (rm 0) (u_target u @ ''/'' @ hashPart @ ''.narinfo'')) = Inr True
      then \<lparr>s_Path = pm_Path m, s_NarSize = pm_NarSize m, s_WireBytes = 0, s_Skipped = True, s_Err = None\<rparr>
      else case retry (nat (max (u_attempts u) 1)) (\<lambda>i. transfer u (rm i) m hashPart) of
             Inl e \<Rightarrow> err_stat m (pm_Path m) (UploadErr e)
           | Inr s \<Rightarrow> s)"

section \<open>The stall watchdog\<close>

text \<open>
  \<^verbatim>\<open>monitor\<close> over its ticks, each the time and the bytes read so far, until the transfer is done; \<open>rate\<close> is
  the floating-point division.  The result is the peak rate and whether it cancelled the request.
\<close>

fun monitor :: "(int \<Rightarrow> int \<Rightarrow> 'r::linorder) \<Rightarrow> int \<Rightarrow> int \<Rightarrow> int \<Rightarrow> int \<Rightarrow> 'r \<Rightarrow> (int \<times> int) list \<Rightarrow> 'r \<times> bool" where
  "monitor rate stall last_n lastSample lastMoved peak [] = (peak, False)"
| "monitor rate stall last_n lastSample lastMoved peak ((now, cur) # ticks) =
     (let bps = rate (cur - last_n) (now - lastSample);
          peak' = (if peak < bps then bps else peak)
      in if last_n < cur then monitor rate stall cur now now peak' ticks
         else if 0 < stall \<and> stall \<le> now - lastMoved then (peak', True)
         else monitor rate stall last_n now lastMoved peak' ticks)"

text \<open>A transfer that moves bytes between any two ticks is never cancelled, however slow.\<close>

lemma monitor_patient:
  "sorted_wrt (<) (last_n # map snd ticks) \<Longrightarrow> \<not> snd (monitor rate stall last_n lastSample lastMoved peak ticks)"
  by (induction rate stall last_n lastSample lastMoved peak ticks rule: monitor.induct) (simp_all add: Let_def)

end
