(* ===== verification/UploadSched.thy ===== *)
theory UploadSched
  imports Upload
begin

text \<open>
  Why the scheduler of \<^verbatim>\<open>upload/upload.go\<close> is right: what the graph counts, the invariant of all
  interleavings of the workers, and the properties of a run (order, every path reported exactly once,
  nothing left over in an acyclic closure).
\<close>

section \<open>The graph\<close>

definition deps :: "(string \<rightharpoonup> pathMeta) \<Rightarrow> string \<Rightarrow> string list" where
  "deps bp p = (case bp p of None \<Rightarrow> [] | Some m \<Rightarrow> filter (\<lambda>r. r \<noteq> p \<and> bp r \<noteq> None) (pm_References m))"

lemma by_path_Path: "by_path metas p = Some m \<Longrightarrow> pm_Path m = p \<and> m \<in> set metas"
proof -
  have "foldl (\<lambda>m pm. m(pm_Path pm \<mapsto> pm)) f metas p = Some m \<Longrightarrow> (pm_Path m = p \<and> m \<in> set metas) \<or> f p = Some m" for f
    by (induction metas arbitrary: f) (fastforce split: if_splits)+
  then show "by_path metas p = Some m \<Longrightarrow> pm_Path m = p \<and> m \<in> set metas" by (auto simp: by_path_def)
qed

lemma dom_by_path: "dom (by_path metas) = pm_Path ` set metas"
proof -
  have "dom (foldl (\<lambda>m pm. m(pm_Path pm \<mapsto> pm)) f metas) = dom f \<union> pm_Path ` set metas" for f
    by (induction metas arbitrary: f) auto
  then show ?thesis by (simp add: by_path_def)
qed

lemma byPath_add_ref [simp]: "byPath (add_ref m g r) = byPath g"
  by (simp add: add_ref_def)

lemma add_refs:
  assumes "pm_Path m = p"
  shows "byPath (foldl (add_ref m) g refs) = byPath g \<and>
    indeg (foldl (add_ref m) g refs) = (indeg g)(p := indeg g p + int (length (filter (\<lambda>r. r \<noteq> p \<and> byPath g r \<noteq> None) refs))) \<and>
    (\<forall>r q. count_list (dependents (foldl (add_ref m) g refs) r) q =
       count_list (dependents g r) q + (if q = p then count_list (filter (\<lambda>r. r \<noteq> p \<and> byPath g r \<noteq> None) refs) r else 0)) \<and>
    (\<forall>r. set (dependents (foldl (add_ref m) g refs) r) \<subseteq> insert p (set (dependents g r)))"
proof (induction refs arbitrary: g)
  case (Cons r rs)
  show ?case
  proof (cases "r \<noteq> p \<and> byPath g r \<noteq> None")
    case True
    define g1 where "g1 = g\<lparr>indeg := (indeg g)(p := indeg g p + 1), dependents := (dependents g)(r := dependents g r @ [p])\<rparr>"
    have step: "add_ref m g r = g1" "byPath g1 = byPath g" "indeg g1 = (indeg g)(p := indeg g p + 1)"
      "dependents g1 = (dependents g)(r := dependents g r @ [p])" using True assms by (auto simp: add_ref_def g1_def)
    have "set (dependents g1 x) \<subseteq> insert p (set (dependents g x))" for x by (auto simp: step(4))
    then have "\<forall>x. set (dependents (foldl (add_ref m) g1 rs) x) \<subseteq> insert p (set (dependents g x))"
      using Cons.IH [of g1] by blast
    then show ?thesis using Cons.IH [of g1] True unfolding foldl.simps(2) step(1) by (auto simp: step(2-4) fun_eq_iff)
  next
    case False
    then have "add_ref m g r = g" using assms by (auto simp: add_ref_def)
    then show ?thesis using Cons.IH [of g] False by auto
  qed
qed auto

lemma buildGraph_spec:
  assumes "distinct keys" "set keys = pm_Path ` set metas"
  defines "g \<equiv> buildGraph keys metas" and "bp \<equiv> by_path metas"
  shows "byPath g = bp" "p \<in> set keys \<Longrightarrow> indeg g p = int (length (deps bp p))"
    "q \<in> set keys \<Longrightarrow> count_list (dependents g r) q = count_list (deps bp q) r" "set (dependents g r) \<subseteq> set keys"
proof -
  let ?f = "\<lambda>g p. case bp p of None \<Rightarrow> g | Some m \<Rightarrow> foldl (add_ref m) g (pm_References m)"
  have fold: "byPath (foldl ?f g0 ks) = bp \<and>
      (\<forall>p. indeg (foldl ?f g0 ks) p = indeg g0 p + (if p \<in> set ks then int (length (deps bp p)) else 0)) \<and>
      (\<forall>r q. count_list (dependents (foldl ?f g0 ks) r) q = count_list (dependents g0 r) q + (if q \<in> set ks then count_list (deps bp q) r else 0)) \<and>
      (\<forall>r. set (dependents (foldl ?f g0 ks) r) \<subseteq> set (dependents g0 r) \<union> set ks)"
    if "distinct ks" "byPath g0 = bp" for ks g0
    using that
  proof (induction ks arbitrary: g0)
    case (Cons k ks)
    show ?case
    proof (cases "bp k")
      case None
      then show ?thesis using Cons.IH [of g0] Cons.prems by (auto simp: deps_def)
    next
      case (Some m)
      have m: "pm_Path m = k" using by_path_Path Some unfolding bp_def by blast
      note add = add_refs [OF m, of g0 "pm_References m"]
      have d: "deps bp k = filter (\<lambda>r. r \<noteq> k \<and> byPath g0 r \<noteq> None) (pm_References m)" using Some Cons.prems(2) by (simp add: deps_def)
      show ?thesis
        using Cons.IH [of "foldl (add_ref m) g0 (pm_References m)"] Cons.prems add Some unfolding d [symmetric] by fastforce
    qed
  qed simp
  let ?g0 = "\<lparr>byPath = bp, indeg = (\<lambda>_. 0), dependents = (\<lambda>_. [])\<rparr>"
  have "g = foldl ?f ?g0 keys" by (simp add: g_def bp_def buildGraph_def Let_def)
  then show "byPath g = bp" "p \<in> set keys \<Longrightarrow> indeg g p = int (length (deps bp p))"
    "q \<in> set keys \<Longrightarrow> count_list (dependents g r) q = count_list (deps bp q) r" "set (dependents g r) \<subseteq> set keys"
    using fold [OF assms(1), of ?g0] by auto
qed

lemma advance_loop_spec:
  assumes "\<And>q. q \<in> set qs \<Longrightarrow> int (count_list qs q) \<le> d q"
  shows "snd (advance_loop qs d) = (\<lambda>q. d q - int (count_list qs q)) \<and> distinct (fst (advance_loop qs d)) \<and>
    set (fst (advance_loop qs d)) = {q \<in> set qs. d q = int (count_list qs q)}"
  using assms
proof (induction qs arbitrary: d)
  case (Cons q qs)
  let ?d = "d(q := d q - 1)"
  have le: "int (count_list qs x) \<le> ?d x" if "x \<in> set qs" for x using Cons.prems [of x] that by (auto split: if_splits)
  note IH = Cons.IH [OF le]
  have zero: "?d q = 0 \<Longrightarrow> q \<notin> set qs" using le [of q] by (auto simp: count_list_0_iff)
  obtain nx d2 where r: "advance_loop qs ?d = (nx, d2)" by fastforce
  have nx: "d2 x = ?d x - int (count_list qs x)" "distinct nx" "set nx = {x \<in> set qs. ?d x = int (count_list qs x)}" for x
    using IH unfolding r by simp_all
  have step: "advance_loop (q # qs) d = (if ?d q = 0 then q # nx else nx, d2)" using r by (simp add: Let_def)
  have "d2 = (\<lambda>x. d x - int (count_list (q # qs) x))" using nx(1) by (intro ext) auto
  moreover have "distinct (if ?d q = 0 then q # nx else nx)" using nx(2,3) zero by auto
  moreover have "set (if ?d q = 0 then q # nx else nx) = {x \<in> set (q # qs). d x = int (count_list (q # qs) x)}"
    using zero by (auto simp: nx(3) count_list_0_iff split: if_splits)
  ultimately show ?case unfolding step by simp
qed simp

section \<open>The invariant of the scheduler\<close>

definition recorded :: "sched \<Rightarrow> string set" where
  "recorded st = s_Path ` set (sc_stats st)"

definition ok_stat :: "sched \<Rightarrow> string \<Rightarrow> bool" where
  "ok_stat st r \<longleftrightarrow> (\<exists>s\<in>set (sc_stats st). s_Path s = r \<and> s_Err s = None)"

text \<open>\<open>in_order bp ss\<close>: a successful entry comes after successful entries for all its dependencies.\<close>

definition in_order :: "(string \<rightharpoonup> pathMeta) \<Rightarrow> Stats list \<Rightarrow> bool" where
  "in_order bp ss \<longleftrightarrow> (\<forall>i<length ss. s_Err (ss ! i) = None \<longrightarrow>
     (\<forall>r\<in>set (deps bp (s_Path (ss ! i))). \<exists>j<i. s_Path (ss ! j) = r \<and> s_Err (ss ! j) = None))"

definition sched_inv :: "(string \<rightharpoonup> pathMeta) \<Rightarrow> string list \<Rightarrow> sched \<Rightarrow> bool" where
  "sched_inv bp keys st \<longleftrightarrow>
     byPath (sc_graph st) = bp \<and> (\<forall>r. set (dependents (sc_graph st) r) \<subseteq> set keys) \<and>
     (\<forall>q\<in>set keys. \<forall>r. count_list (dependents (sc_graph st) r) q = count_list (deps bp q) r) \<and>
     (\<forall>q\<in>set keys. indeg (sc_graph st) q = int (length (filter (\<lambda>r. r \<notin> recorded st) (deps bp q)))) \<and>
     distinct (map s_Path (sc_stats st) @ sc_active st @ sc_ready st) \<and>
     recorded st \<union> set (sc_active st) \<union> set (sc_ready st) = {q \<in> set keys. indeg (sc_graph st) q = 0} \<and>
     (\<forall>r. sc_failed st r \<longleftrightarrow> (\<exists>s\<in>set (sc_stats st). s_Path s = r \<and> s_Err s \<noteq> None)) \<and>
     (\<forall>p\<in>set (sc_active st). \<forall>r\<in>set (deps bp p). ok_stat st r) \<and> in_order bp (sc_stats st)"

lemma sched_invD:
  assumes "sched_inv bp keys st"
  shows "byPath (sc_graph st) = bp" "set (dependents (sc_graph st) r) \<subseteq> set keys"
    "q \<in> set keys \<Longrightarrow> count_list (dependents (sc_graph st) r) q = count_list (deps bp q) r"
    "q \<in> set keys \<Longrightarrow> indeg (sc_graph st) q = int (length (filter (\<lambda>r. r \<notin> recorded st) (deps bp q)))"
    "distinct (map s_Path (sc_stats st) @ sc_active st @ sc_ready st)"
    "recorded st \<union> set (sc_active st) \<union> set (sc_ready st) = {q \<in> set keys. indeg (sc_graph st) q = 0}"
    "sc_failed st r \<longleftrightarrow> (\<exists>s\<in>set (sc_stats st). s_Path s = r \<and> s_Err s \<noteq> None)"
    "p \<in> set (sc_active st) \<Longrightarrow> r \<in> set (deps bp p) \<Longrightarrow> ok_stat st r" "in_order bp (sc_stats st)"
  using assms unfolding sched_inv_def by blast+

lemma in_order_snoc:
  assumes "in_order bp ss" "s_Err s = None \<Longrightarrow> \<forall>r\<in>set (deps bp (s_Path s)). \<exists>x\<in>set ss. s_Path x = r \<and> s_Err x = None"
  shows "in_order bp (ss @ [s])"
  unfolding in_order_def
proof (intro allI impI ballI)
  fix i r assume i: "i < length (ss @ [s])" and none: "s_Err ((ss @ [s]) ! i) = None"
    and r: "r \<in> set (deps bp (s_Path ((ss @ [s]) ! i)))"
  show "\<exists>j<i. s_Path ((ss @ [s]) ! j) = r \<and> s_Err ((ss @ [s]) ! j) = None"
  proof (cases "i = length ss")
    case True
    then obtain x where "x \<in> set ss" "s_Path x = r" "s_Err x = None" using assms(2) none r by auto
    then show ?thesis using True by (metis in_set_conv_nth nth_append)
  next
    case False
    then have "i < length ss" using i by simp
    then obtain j where "j < i" "s_Path (ss ! j) = r" "s_Err (ss ! j) = None"
      using assms(1) none r unfolding in_order_def by (auto simp: nth_append)
    then show ?thesis using \<open>i < length ss\<close> by (auto simp: nth_append intro!: exI [of _ j])
  qed
qed

lemma filter_remove_count:
  "p \<notin> R \<Longrightarrow> length (filter (\<lambda>r. r \<notin> insert p R) xs) + count_list xs p = length (filter (\<lambda>r. r \<notin> R) xs)"
  by (induction xs) auto

text \<open>Recording a path and advancing its dependents, from a state in which it was taken out.\<close>

lemma record_advance:
  assumes inv: "sched_inv bp keys st\<^sub>0" and st: "st = st\<^sub>0\<lparr>sc_active := sc_active st, sc_ready := sc_ready st\<rparr>"
    and taken: "set (sc_active st\<^sub>0) \<union> set (sc_ready st\<^sub>0) = insert (s_Path s) (set (sc_active st) \<union> set (sc_ready st))"
      "s_Path s \<notin> set (sc_active st) \<union> set (sc_ready st)" "distinct (sc_active st @ sc_ready st)" "set (sc_active st) \<subseteq> set (sc_active st\<^sub>0)"
    and ok: "s_Err s = None \<Longrightarrow> s_Path s \<in> set (sc_active st\<^sub>0)"
  shows "sched_inv bp keys (advance_sched (s_Path s) (record_stat s st))"
proof -
  let ?p = "s_Path s" and ?g = "sc_graph st"
  have eqs: "sc_graph st\<^sub>0 = ?g" "sc_stats st\<^sub>0 = sc_stats st" "sc_failed st\<^sub>0 = sc_failed st" "recorded st\<^sub>0 = recorded st" "ok_stat st\<^sub>0 = ok_stat st"
    using arg_cong [OF st, of sc_graph] arg_cong [OF st, of sc_stats] arg_cong [OF st, of sc_failed] by (auto simp: recorded_def ok_stat_def)
  note i = sched_invD [OF inv, unfolded eqs]
  have fresh: "?p \<notin> recorded st" using i(5) taken(1) unfolding recorded_def by auto
  have "s_Path ` set (sc_stats st) \<inter> (set (sc_active st\<^sub>0) \<union> set (sc_ready st\<^sub>0)) = {}" using i(5) by auto
  then have apart: "s_Path x \<notin> set (sc_active st)" "s_Path x \<notin> set (sc_ready st)" if "x \<in> set (sc_stats st)" for x
    using that unfolding taken(1) by auto
  have le: "int (count_list (dependents ?g ?p) q) \<le> indeg ?g q" if "q \<in> set (dependents ?g ?p)" for q
    using that i(2) [of ?p] i(3,4) [of q] filter_remove_count [OF fresh, of "deps bp q"] by auto
  obtain nx d where adv: "advance_loop (dependents ?g ?p) (indeg ?g) = (nx, d)" by fastforce
  have d: "d q = indeg ?g q - int (count_list (dependents ?g ?p) q)" and nx: "distinct nx"
    "set nx = {q \<in> set (dependents ?g ?p). indeg ?g q = int (count_list (dependents ?g ?p) q)}" for q
    using advance_loop_spec [of "dependents ?g ?p" "indeg ?g", OF le] unfolding adv by simp_all
  have nx_keys: "set nx \<subseteq> set keys" using nx(2) i(2) by auto
  have nx_pos: "indeg ?g q \<noteq> 0" if "q \<in> set nx" for q using that nx(2) by (auto simp: count_list_0_iff)
  define st' where "st' = advance_sched ?p (record_stat s st)"
  have st': "sc_stats st' = sc_stats st @ [s]" "sc_active st' = sc_active st" "sc_ready st' = sc_ready st @ nx"
    "sc_graph st' = ?g\<lparr>indeg := d\<rparr>" "sc_failed st' = (sc_failed st)(?p := s_Err s \<noteq> None)" "recorded st' = insert ?p (recorded st)"
    using adv by (simp_all add: st'_def advance_sched_def advance_def record_stat_def recorded_def)
  have old: "recorded st \<union> insert ?p (set (sc_active st) \<union> set (sc_ready st)) = {q \<in> set keys. indeg ?g q = 0}"
    using i(6) taken(1) by (simp add: Un_assoc)
  have dk: "d q = int (length (filter (\<lambda>r. r \<notin> recorded st') (deps bp q)))" if "q \<in> set keys" for q
    proof -
    have "int (length (filter (\<lambda>r. r \<notin> insert ?p (recorded st)) (deps bp q))) = indeg ?g q - int (count_list (deps bp q) ?p)"
      using i(4) [OF that] filter_remove_count [OF fresh, of "deps bp q"] by linarith
    then show ?thesis using d [of q] i(3) [OF that, of ?p] unfolding st'(6) by linarith
  qed
  have zero: "d q = 0 \<longleftrightarrow> indeg ?g q = 0 \<or> q \<in> set nx" if "q \<in> set keys" for q
  proof (cases "q \<in> set (dependents ?g ?p)")
    case True
    then have "count_list (dependents ?g ?p) q \<noteq> 0" by (simp add: count_list_0_iff)
    then show ?thesis using d [of q] le [OF True] True unfolding nx(2) by simp
  next
    case False
    then show ?thesis using d [of q] unfolding nx(2) by (simp add: count_list_0_iff)
  qed
  have keep: "ok_stat st' r" if "ok_stat st r" for r using that by (auto simp: ok_stat_def st'(1))
  have "recorded st' \<union> set (sc_active st') \<union> set (sc_ready st') = {q \<in> set keys. d q = 0}"
    using old zero nx_keys unfolding st' by auto
  moreover have "distinct (map s_Path (sc_stats st') @ sc_active st' @ sc_ready st')"
    using i(5) taken(2,3) old nx(1) nx_pos fresh apart unfolding st' recorded_def by auto
  moreover have "in_order bp (sc_stats st')"
    unfolding st'(1) by (rule in_order_snoc [OF i(9)]) (use ok i(8) in \<open>auto simp: ok_stat_def\<close>)
  moreover have "sc_failed st' r \<longleftrightarrow> (\<exists>x\<in>set (sc_stats st'). s_Path x = r \<and> s_Err x \<noteq> None)" for r
  proof (cases "r = ?p")
    case True
    then show ?thesis using fresh unfolding st' recorded_def by (auto simp: image_iff)
  next
    case False
    then show ?thesis using i(7) [of r] unfolding st' by auto
  qed
  moreover have "\<forall>p\<in>set (sc_active st'). \<forall>r\<in>set (deps bp p). ok_stat st' r"
    using i(8) taken(4) keep unfolding st'(2) by (auto simp: ok_stat_def)
  moreover have "byPath (sc_graph st') = bp" "set (dependents (sc_graph st') r) \<subseteq> set keys"
    "q \<in> set keys \<Longrightarrow> count_list (dependents (sc_graph st') r) q = count_list (deps bp q) r" "indeg (sc_graph st') = d" for r q
    using i(1-3) unfolding st'(4) by simp_all
  ultimately show ?thesis using dk unfolding st'_def [symmetric] sched_inv_def by simp
qed

lemma dispatch_inv:
  assumes inv: "sched_inv bp keys st" and ready: "sc_ready st = p # rest" and m: "bp p = Some m" and m': "pm_Path m = p"
  shows "sched_inv bp keys (dispatch ctxErr st)"
proof -
  note i = sched_invD [OF inv]
  have pm: "byPath (sc_graph st) p = Some m" using i(1) m by simp
  let ?st1 = "st\<lparr>sc_ready := rest\<rparr>"
  have dep: "deps bp p = filter (\<lambda>r. r \<noteq> p \<and> bp r \<noteq> None) (pm_References m)" using m by (simp add: deps_def)
  show ?thesis
  proof (cases "(if hasFailedDep (sc_graph st) m (sc_failed st) then Some DepFailed else if ctxErr then Some CtxCancelled else None)")
    case (Some e)
    then have "dispatch ctxErr st = advance_sched p (record_stat (err_stat m p e) ?st1)"
      using ready pm by (simp add: dispatch_def Let_def)
    moreover have "?st1\<lparr>sc_active := sc_active st, sc_ready := sc_ready st\<rparr> = st" by simp
    ultimately show ?thesis
      using record_advance [of bp keys st ?st1 "err_stat m p e"] inv i(5) ready by (simp add: err_stat_def)
  next
    case None
    then have eq: "dispatch ctxErr st = ?st1\<lparr>sc_active := sc_active st @ [p]\<rparr>"
      using ready pm by (simp add: dispatch_def Let_def)
    have nofail: "\<not> sc_failed st r" if "r \<in> set (deps bp p)" for r
      using None that i(1) m m' unfolding dep hasFailedDep_def by (auto simp: list_ex_iff split: if_splits)
    have zero: "indeg (sc_graph st) p = 0" "p \<in> set keys" using i(6) ready by auto
    have "recorded st \<supseteq> set (deps bp p)" using i(4) [OF zero(2)] zero(1) by (auto simp: filter_empty_conv)
    then have "\<forall>r\<in>set (deps bp p). ok_stat st r" using nofail i(7) by (fastforce simp: ok_stat_def recorded_def)
    then show ?thesis using inv ready unfolding eq sched_inv_def by (auto simp: recorded_def ok_stat_def)
  qed
qed

lemma receive_inv:
  assumes inv: "sched_inv bp keys st" and act: "s_Path s \<in> set (sc_active st)"
  shows "sched_inv bp keys (receive s st)"
proof -
  note i = sched_invD(5) [OF inv]
  let ?st1 = "st\<lparr>sc_active := remove1 (s_Path s) (sc_active st)\<rparr>"
  have "?st1\<lparr>sc_active := sc_active st, sc_ready := sc_ready st\<rparr> = st" by simp
  then show ?thesis unfolding receive_def
    using record_advance [of bp keys st ?st1 s] inv i act by auto
qed

section \<open>Runs\<close>

lemma deps_in: "r \<in> set (deps bp p) \<Longrightarrow> bp r \<noteq> None \<and> r \<noteq> p \<and> bp p \<noteq> None"
  by (cases "bp p") (auto simp: deps_def)

lemma sched_init_inv:
  assumes "distinct keys" "set keys = pm_Path ` set metas"
  shows "sched_inv (by_path metas) keys (sched_init keys metas)"
proof -
  note g = buildGraph_spec [OF assms]
  have r: "recorded (sched_init keys metas) = {}" by (simp add: recorded_def sched_init_def Let_def)
  show ?thesis using g assms(1) unfolding sched_inv_def r
    by (auto simp: sched_init_def Let_def ready_paths_def in_order_def)
qed

lemma up_step_inv:
  assumes "sched_inv bp keys st" "up_step jobs st st'" "\<And>p m. bp p = Some m \<Longrightarrow> pm_Path m = p" "set keys \<subseteq> dom bp"
  shows "sched_inv bp keys st' \<and> 2 * length (sc_stats st) + length (sc_active st) < 2 * length (sc_stats st') + length (sc_active st')
    \<and> length (sc_active st') \<le> max jobs (length (sc_active st))"
  using assms(2)
proof cases
  case (up_dispatch ctxErr)
  obtain p rest where ready: "sc_ready st = p # rest" using up_dispatch by (cases "sc_ready st") auto
  then have "p \<in> set keys" using sched_invD(6) [OF assms(1)] by auto
  then obtain m where m: "bp p = Some m" using assms(4) by auto
  have pm: "byPath (sc_graph st) p = Some m" using sched_invD(1) [OF assms(1)] m by simp
  show ?thesis
    using dispatch_inv [OF assms(1) ready m assms(3) [OF m], of ctxErr] up_dispatch(1,3) ready pm
    by (auto simp: dispatch_def Let_def advance_sched_def record_stat_def err_stat_def split: prod.splits option.splits)
next
  case (up_receive s)
  have "0 < length (sc_active st)" using up_receive(3) by (cases "sc_active st") auto
  then show ?thesis
    using receive_inv [OF assms(1) up_receive(3)] up_receive
    by (auto simp: receive_def advance_sched_def record_stat_def length_remove1 split: prod.splits)
qed

lemma up_runs_inv:
  assumes "up_runs jobs (sched_init keys metas) k st" "distinct keys" "set keys = pm_Path ` set metas"
  shows "sched_inv (by_path metas) keys st \<and> k \<le> 2 * length (sc_stats st) + length (sc_active st) \<and> length (sc_active st) \<le> jobs"
  using assms(1)
proof (induction "sched_init keys metas" k st rule: up_runs.induct)
  case up_runs_nil
  then show ?case using sched_init_inv [OF assms(2,3)] by (simp add: sched_init_def Let_def)
next
  case (up_runs_step k st' st'')
  have "set keys \<subseteq> dom (by_path metas)" using dom_by_path assms(3) by simp
  then show ?case using up_step_inv [of "by_path metas" keys st' jobs st''] up_runs_step by_path_Path by fastforce
qed

lemma sched_inv_keys:
  assumes "sched_inv bp keys st"
  shows "recorded st \<union> set (sc_active st) \<union> set (sc_ready st) \<subseteq> set keys"
    "2 * length (sc_stats st) + length (sc_active st) \<le> 2 * card (set keys)"
proof -
  note i = sched_invD [OF assms]
  show sub: "recorded st \<union> set (sc_active st) \<union> set (sc_ready st) \<subseteq> set keys" using i(6) by auto
  have "card (set (map s_Path (sc_stats st) @ sc_active st @ sc_ready st)) \<le> card (set keys)"
    by (intro card_mono) (use sub in \<open>auto simp: recorded_def\<close>)
  then show "2 * length (sc_stats st) + length (sc_active st) \<le> 2 * card (set keys)"
    unfolding distinct_card [OF i(5)] by simp
qed

lemma run_finish_paths:
  assumes inv: "sched_inv bp keys st" and ks: "distinct ks" "set ks = set keys"
  shows "distinct (map s_Path (run_finish ks st)) \<and> set (map s_Path (run_finish ks st)) = set keys"
proof -
  have path: "map s_Path (run_finish ks st) = map s_Path (sc_stats st) @ filter (\<lambda>p. p \<notin> recorded st) ks"
    by (simp add: run_finish_def recorded_def comp_def err_stat_def)
  have "recorded st \<subseteq> set keys" using sched_inv_keys(1) [OF inv] by blast
  then show ?thesis unfolding path using sched_invD(5) [OF inv] ks by (auto simp: recorded_def)
qed

lemma run_finish_order:
  assumes inv: "sched_inv bp keys st" and i: "i < length (run_finish ks st)" "s_Err (run_finish ks st ! i) = None"
    and r: "r \<in> set (deps bp (s_Path (run_finish ks st ! i)))"
  shows "\<exists>j<i. s_Path (run_finish ks st ! j) = r \<and> s_Err (run_finish ks st ! j) = None"
proof -
  have lt: "i < length (sc_stats st)"
  proof (rule ccontr)
    assume "\<not> i < length (sc_stats st)"
    then show False using i by (simp add: run_finish_def nth_append err_stat_def)
  qed
  have eq: "run_finish ks st ! j = sc_stats st ! j" if "j \<le> i" for j
    using that lt by (simp add: run_finish_def nth_append)
  have "\<exists>j<i. s_Path (sc_stats st ! j) = r \<and> s_Err (sc_stats st ! j) = None"
    using sched_invD(9) [OF inv] lt i(2) r unfolding in_order_def eq [OF order_refl] by blast
  then obtain j where "j < i" "s_Path (sc_stats st ! j) = r" "s_Err (sc_stats st ! j) = None" by blast
  then show ?thesis using eq [of j] by auto
qed

text \<open>In a final state of an acyclic closure nothing is left over.\<close>

lemma acyclic_all_recorded:
  assumes inv: "sched_inv bp keys st" and final: "sched_final st" and dom: "dom bp = set keys"
    and acyc: "acyclic {(r, p). r \<in> set (deps bp p)}"
  shows "recorded st = set keys"
proof (rule ccontr)
  assume "recorded st \<noteq> set keys"
  then obtain q0 where q0: "q0 \<in> set keys - recorded st" using sched_inv_keys(1) [OF inv] by blast
  let ?R = "{(r, p). r \<in> set (deps bp p)}"
  have "?R \<subseteq> set keys \<times> set keys"
    using deps_in [of _ bp] unfolding dom [symmetric] by blast
  then have "finite ?R" by (rule finite_subset) simp
  then have "wf ?R" using acyc by (rule finite_acyclic_wf)
  then obtain q where q: "q \<in> set keys - recorded st" "\<And>r. (r, q) \<in> ?R \<Longrightarrow> r \<notin> set keys - recorded st"
    using wfE_min [OF _ q0] by metis
  have "filter (\<lambda>r. r \<notin> recorded st) (deps bp q) = []"
    using q(2) deps_in [of _ bp q] dom by (auto simp: filter_empty_conv)
  then have "indeg (sc_graph st) q = 0" using sched_invD(4) [OF inv] q(1) by simp
  then have "q \<in> recorded st" using sched_invD(6) [OF inv] final q(1) by (auto simp: sched_final_def)
  then show False using q(1) by simp
qed

lemma up_step_enabled:
  assumes "sched_inv bp keys st" "0 < jobs" "\<not> sched_final st"
  shows "\<exists>st'. up_step jobs st st'"
proof (cases "sc_ready st \<noteq> [] \<and> length (sc_active st) < jobs")
  case True
  then show ?thesis using up_dispatch by blast
next
  case False
  then have ne: "sc_active st \<noteq> []" using assms(2,3) by (auto simp: sched_final_def)
  let ?s = "gone_stat (hd (sc_active st))\<lparr>s_Err := None\<rparr>"
  have "s_Path ?s \<in> set (sc_active st)" "s_Err ?s = None" using ne by (simp_all add: gone_stat_def)
  moreover have "sc_ready st = [] \<or> jobs \<le> length (sc_active st)" using False by auto
  ultimately show ?thesis using up_receive [of st jobs ?s] by blast
qed

text \<open>Why an entry failed: cancelled, by itself, or because a dependency failed before it.\<close>

definition explained :: "(string \<rightharpoonup> pathMeta) \<Rightarrow> Stats list \<Rightarrow> bool" where
  "explained bp ss \<longleftrightarrow> (\<forall>i<length ss. \<forall>e. s_Err (ss ! i) = Some e \<longrightarrow>
     e = CtxCancelled \<or> (\<exists>u. e = UploadErr u) \<or>
     e = DepFailed \<and> (\<exists>j<i. s_Path (ss ! j) \<in> set (deps bp (s_Path (ss ! i))) \<and> s_Err (ss ! j) \<noteq> None))"

lemma explained_snoc:
  assumes "explained bp ss" and "\<And>e. s_Err s = Some e \<Longrightarrow> e = CtxCancelled \<or> (\<exists>u. e = UploadErr u) \<or>
     e = DepFailed \<and> (\<exists>x\<in>set ss. s_Path x \<in> set (deps bp (s_Path s)) \<and> s_Err x \<noteq> None)"
  shows "explained bp (ss @ [s])"
  unfolding explained_def
proof (intro allI impI)
  fix i e assume i: "i < length (ss @ [s])" and e: "s_Err ((ss @ [s]) ! i) = Some e"
  show "e = CtxCancelled \<or> (\<exists>u. e = UploadErr u) \<or>
     e = DepFailed \<and> (\<exists>j<i. s_Path ((ss @ [s]) ! j) \<in> set (deps bp (s_Path ((ss @ [s]) ! i))) \<and> s_Err ((ss @ [s]) ! j) \<noteq> None)"
  proof (cases "i = length ss")
    case True
    then have "s_Err s = Some e" using e by simp
    then show ?thesis using assms(2) True by (fastforce simp: in_set_conv_nth nth_append)
  next
    case False
    then have lt: "i < length ss" using i by simp
    then have "e = CtxCancelled \<or> (\<exists>u. e = UploadErr u) \<or>
     e = DepFailed \<and> (\<exists>j<i. s_Path (ss ! j) \<in> set (deps bp (s_Path (ss ! i))) \<and> s_Err (ss ! j) \<noteq> None)"
      using assms(1) e unfolding explained_def by (simp add: nth_append)
    then show ?thesis using lt by (auto simp: nth_append)
  qed
qed

lemma up_step_explained:
  assumes "sched_inv bp keys st" "up_step jobs st st'" "explained bp (sc_stats st)" "\<And>p m. bp p = Some m \<Longrightarrow> pm_Path m = p"
  shows "explained bp (sc_stats st')"
  using assms(2)
proof cases
  case (up_receive s)
  then show ?thesis using explained_snoc [OF assms(3), of s]
    by (auto simp: receive_def advance_sched_def record_stat_def split: prod.splits)
next
  case (up_dispatch ctxErr)
  note i = sched_invD [OF assms(1)]
  obtain p rest where ready: "sc_ready st = p # rest" using up_dispatch by (cases "sc_ready st") auto
  show ?thesis
  proof (cases "bp p")
    case None
    then show ?thesis using assms(3) ready i(1) unfolding up_dispatch(1) by (simp add: dispatch_def)
  next
    case (Some m)
    define err where "err = (if hasFailedDep (sc_graph st) m (sc_failed st) then Some DepFailed else if ctxErr then Some CtxCancelled else None)"
    have stats: "sc_stats st' = sc_stats st @ (case err of None \<Rightarrow> [] | Some e \<Rightarrow> [err_stat m p e])"
      using ready i(1) Some unfolding up_dispatch(1)
      by (auto simp: dispatch_def Let_def err_def [symmetric] advance_sched_def record_stat_def split: option.splits prod.splits)
    have "\<exists>x\<in>set (sc_stats st). s_Path x \<in> set (deps bp p) \<and> s_Err x \<noteq> None" if "err = Some DepFailed"
    proof -
      have "hasFailedDep (sc_graph st) m (sc_failed st)" using that by (auto simp: err_def split: if_splits)
      then obtain r where "r \<in> set (deps bp p)" "sc_failed st r"
        using Some i(1) assms(4) [OF Some] by (auto simp: hasFailedDep_def list_ex_iff deps_def)
      then show ?thesis using i(7) [of r] by auto
    qed
    then show ?thesis using explained_snoc [OF assms(3), of "err_stat m p (the err)"] assms(3)
      unfolding stats by (auto simp: err_stat_def err_def split: option.splits if_splits)
  qed
qed

lemma up_runs_explained:
  assumes "up_runs jobs (sched_init keys metas) k st" "distinct keys" "set keys = pm_Path ` set metas"
  shows "explained (by_path metas) (sc_stats st)"
  using assms(1)
proof (induction "sched_init keys metas" k st rule: up_runs.induct)
  case up_runs_nil
  then show ?case by (simp add: sched_init_def Let_def explained_def)
next
  case (up_runs_step k st' st'')
  then show ?case using up_step_explained up_runs_inv [OF _ assms(2,3)] by_path_Path by blast
qed

lemma explained_first:
  assumes "explained bp ss" "s \<in> set ss" "s_Err s \<noteq> None"
  shows "\<exists>x\<in>set ss. s_Err x = Some CtxCancelled \<or> (\<exists>u. s_Err x = Some (UploadErr u))"
proof -
  obtain i0 where "i0 < length ss \<and> s_Err (ss ! i0) \<noteq> None" using assms(2,3) by (auto simp: in_set_conv_nth)
  then obtain i where i: "i < length ss \<and> s_Err (ss ! i) \<noteq> None" "\<And>j. j < i \<Longrightarrow> \<not> (j < length ss \<and> s_Err (ss ! j) \<noteq> None)"
    using exists_least_iff [of "\<lambda>i. i < length ss \<and> s_Err (ss ! i) \<noteq> None"] by blast
  then obtain e where e: "s_Err (ss ! i) = Some e" by blast
  then have "e = CtxCancelled \<or> (\<exists>u. e = UploadErr u)" using assms(1) i unfolding explained_def by force
  then show ?thesis using e i(1) nth_mem by metis
qed

lemma add_summary_step:
  "Uploaded (add_summary sm s) + Skipped (add_summary sm s) + length (Failed (add_summary sm s)) =
     Suc (Uploaded sm + Skipped sm + length (Failed sm))" "Paths (add_summary sm s) = Paths sm"
  "Failed (add_summary sm s) = Failed sm @ (if s_Err s \<noteq> None then [s_Path s] else [])"
  by (simp_all add: add_summary_def)

lemma add_summary_counts:
  "Uploaded (foldl add_summary sm ss) + Skipped (foldl add_summary sm ss) + length (Failed (foldl add_summary sm ss)) =
     Uploaded sm + Skipped sm + length (Failed sm) + length ss"
  "Paths (foldl add_summary sm ss) = Paths sm"
  "Failed (foldl add_summary sm ss) = Failed sm @ map s_Path (filter (\<lambda>s. s_Err s \<noteq> None) ss)"
proof (induction ss arbitrary: sm)
  case (Cons a ss)
  { case 1 then show ?case using Cons.IH(1) [of "add_summary sm a"] add_summary_step(1) [of sm a] by simp }
  { case 2 then show ?case using Cons.IH(2) [of "add_summary sm a"] add_summary_step(2) [of sm a] by simp }
  { case 3 then show ?case using Cons.IH(3) [of "add_summary sm a"] add_summary_step(3) [of sm a] by simp }
qed simp_all

lemma closure_result_spec:
  assumes "closure_result run_stats gone = (stats, sm, failed)"
  shows "Uploaded sm + Skipped sm + length (Failed sm) = Paths sm" "Paths sm = length run_stats + length gone"
    "Failed sm = map s_Path (filter (\<lambda>s. s_Err s \<noteq> None) stats)" "failed \<longleftrightarrow> (\<exists>s\<in>set stats. s_Err s \<noteq> None)"
proof -
  let ?sm = "\<lparr>Paths = length stats, Uploaded = 0, Skipped = 0, NarBytes = 0, WireBytes = 0, Failed = []\<rparr>"
  have *: "sm = foldl add_summary ?sm stats" "failed \<longleftrightarrow> Failed sm \<noteq> []" "length stats = length run_stats + length gone"
    using assms by (auto simp: closure_result_def Let_def)
  show "Uploaded sm + Skipped sm + length (Failed sm) = Paths sm" "Paths sm = length run_stats + length gone"
    and failed: "Failed sm = map s_Path (filter (\<lambda>s. s_Err s \<noteq> None) stats)"
    using add_summary_counts [of ?sm stats] *(3) unfolding *(1) [symmetric] by simp_all
  show "failed \<longleftrightarrow> (\<exists>s\<in>set stats. s_Err s \<noteq> None)" unfolding *(2) failed by (simp add: filter_empty_conv)
qed

section \<open>A concrete closure\<close>

definition example_meta :: "string \<Rightarrow> string list \<Rightarrow> pathMeta" where
  "example_meta p refs = \<lparr>pm_Path = p, pm_NarHash = [], pm_NarSize = 120, pm_References = refs, pm_Deriver = []\<rparr>"

definition example_closure :: "pathMeta list" where
  "example_closure = [example_meta ''app'' [''app'', ''lib'', ''elsewhere''], example_meta ''lib'' []]"

definition example_done :: "string \<Rightarrow> Stats" where
  "example_done p = \<lparr>s_Path = p, s_NarSize = 120, s_WireBytes = 60, s_Skipped = False, s_Err = None\<rparr>"

abbreviation example_keys :: "string list" where "example_keys \<equiv> [''app'', ''lib'']"

definition example_run :: "nat \<Rightarrow> sched" where
  "example_run k = foldl (\<lambda>st f. f st) (sched_init example_keys example_closure)
     (take k [dispatch False, receive (example_done ''lib''), dispatch False, receive (example_done ''app'')])"

lemma example_run_states:
  "sc_ready (example_run 0) = [''lib''] \<and> sc_active (example_run 0) = []"
  "sc_ready (example_run 1) = [] \<and> sc_active (example_run 1) = [''lib'']"
  "sc_ready (example_run 2) = [''app''] \<and> sc_active (example_run 2) = []"
  "sc_ready (example_run 3) = [] \<and> sc_active (example_run 3) = [''app'']"
  "sc_ready (example_run 4) = [] \<and> sc_active (example_run 4) = [] \<and> sc_stats (example_run 4) = [example_done ''lib'', example_done ''app'']"
  by code_simp+

lemma example_runs: "up_runs 1 (sched_init example_keys example_closure) 4 (example_run 4)"
proof -
  have s: "example_run 1 = dispatch False (example_run 0)" "example_run 2 = receive (example_done ''lib'') (example_run 1)"
    "example_run 3 = dispatch False (example_run 2)" "example_run 4 = receive (example_done ''app'') (example_run 3)"
    by (simp_all add: example_run_def)
  have "up_step 1 (example_run 0) (example_run 1)"
    using up_dispatch [of "example_run 0" 1 False] example_run_states(1) unfolding s(1) by simp
  moreover have "up_step 1 (example_run 1) (example_run 2)"
    using up_receive [of "example_run 1" 1 "example_done ''lib''"] example_run_states(2) unfolding s(2) by (simp add: example_done_def)
  moreover have "up_step 1 (example_run 2) (example_run 3)"
    using up_dispatch [of "example_run 2" 1 False] example_run_states(3) unfolding s(3) by simp
  moreover have "up_step 1 (example_run 3) (example_run 4)"
    using up_receive [of "example_run 3" 1 "example_done ''app''"] example_run_states(4) unfolding s(4) by (simp add: example_done_def)
  ultimately have runs: "up_runs 1 (example_run 0) (Suc (Suc (Suc (Suc 0)))) (example_run 4)" by (meson up_runs.intros)
  have "Suc (Suc (Suc (Suc 0))) = 4" "example_run 0 = sched_init example_keys example_closure" by (simp_all add: example_run_def)
  with runs show ?thesis by (simp only:)
qed

lemma example_closure_keys: "distinct example_keys" "set example_keys = pm_Path ` set example_closure"
  by (auto simp: example_closure_def example_meta_def)

lemma example_deps: "deps (by_path example_closure) p = (if p = ''app'' then [''lib''] else [])"
  by (auto simp: deps_def by_path_def example_closure_def example_meta_def)

section \<open>Properties\<close>

text \<open>
  C27: references first.  In every interleaving of the workers, at most \<^verbatim>\<open>jobs\<close> transfers run at a time, a
  path is being transferred only when all its references in the closure have been uploaded (or were
  present), and in the report every successful path comes after a successful entry for each of them.
\<close>

theorem uploads_follow_references:
  assumes "distinct keys" and "set keys = pm_Path ` set metas" and "set ks = set keys"
    and "up_runs jobs (sched_init keys metas) k st"
  shows "length (sc_active st) \<le> jobs \<and>
    (\<forall>p\<in>set (sc_active st). \<forall>r\<in>set (deps (by_path metas) p). \<exists>s\<in>set (sc_stats st). s_Path s = r \<and> s_Err s = None) \<and>
    (\<forall>i<length (run_finish ks st). s_Err (run_finish ks st ! i) = None \<longrightarrow>
      (\<forall>r\<in>set (deps (by_path metas) (s_Path (run_finish ks st ! i))).
         \<exists>j<i. s_Path (run_finish ks st ! j) = r \<and> s_Err (run_finish ks st ! j) = None))"
proof -
  note inv = up_runs_inv [OF assms(4,1,2)]
  show ?thesis
    using inv sched_invD(8) [OF conjunct1 [OF inv]] run_finish_order [OF conjunct1 [OF inv]] unfolding ok_stat_def by blast
qed

theorem uploads_follow_references_witness:
  "\<exists>j<1. s_Path (run_finish example_keys (example_run 4) ! j) = ''lib'' \<and> s_Err (run_finish example_keys (example_run 4) ! j) = None"
proof -
  have st: "run_finish example_keys (example_run 4) = [example_done ''lib'', example_done ''app'']"
    using example_run_states(5) by (simp add: run_finish_def example_done_def)
  then show ?thesis
    using uploads_follow_references [OF example_closure_keys refl example_runs]
    by (auto simp: example_deps example_done_def less_Suc_eq_0_disj)
qed

text \<open>
  C28: a push always ends, and leaves no path unreported.  A run takes at most two steps per path; until
  it is over there is always a step to take (nothing deadlocks, whatever the number of jobs asked for);
  the report then has exactly one entry for every path of the closure, whatever failed and whatever cycles
  it has; and the summary counts every entry once and names exactly the failed ones, which is when
  \<^verbatim>\<open>Closure\<close> returns an error.
\<close>

theorem every_path_reported_once:
  assumes "distinct keys" and "set keys = pm_Path ` set metas" and "distinct ks" and "set ks = set keys"
    and "up_runs (run_jobs j keys) (sched_init keys metas) k st"
    and "closure_result (run_finish ks st) gone = (stats, sm, failed)"
  shows "k \<le> 2 * length keys \<and> (sched_final st \<or> (\<exists>st'. up_step (run_jobs j keys) st st')) \<and>
    distinct (map s_Path (run_finish ks st)) \<and> set (map s_Path (run_finish ks st)) = set keys \<and>
    Uploaded sm + Skipped sm + length (Failed sm) = Paths sm \<and> Paths sm = length keys + length gone \<and>
    Failed sm = map s_Path (filter (\<lambda>s. s_Err s \<noteq> None) stats) \<and> (failed \<longleftrightarrow> (\<exists>s\<in>set stats. s_Err s \<noteq> None))"
proof -
  note inv = up_runs_inv [OF assms(5,1,2)] and inv1 = conjunct1 [OF up_runs_inv [OF assms(5,1,2)]]
  note paths = run_finish_paths [OF inv1 assms(3,4)]
  have len: "length (run_finish ks st) = length keys"
    using paths distinct_card [of "map s_Path (run_finish ks st)"] distinct_card [OF assms(1)] by simp
  have "k \<le> 2 * length keys"
    using inv sched_inv_keys(2) [OF inv1] distinct_card [OF assms(1)] by linarith
  moreover have "sched_final st \<or> (\<exists>st'. up_step (run_jobs j keys) st st')"
  proof (cases "keys = []")
    case True
    then show ?thesis using sched_inv_keys(1) [OF inv1] by (simp add: sched_final_def)
  next
    case False
    then have "0 < run_jobs j keys" by (simp add: run_jobs_def)
    then show ?thesis using up_step_enabled [OF inv1] by blast
  qed
  ultimately show ?thesis using paths len closure_result_spec [OF assms(6)] by simp
qed

theorem every_path_reported_once_witness:
  "\<exists>stats sm failed. closure_result (run_finish example_keys (example_run 4)) [''gone''] = (stats, sm, failed) \<and>
     Uploaded sm + Skipped sm + length (Failed sm) = Paths sm \<and> Paths sm = 3"
proof -
  obtain stats sm failed where r: "closure_result (run_finish example_keys (example_run 4)) [''gone''] = (stats, sm, failed)"
    by (metis prod_cases3)
  have "run_jobs 1 example_keys = 1" by (simp add: run_jobs_def)
  then have "up_runs (run_jobs 1 example_keys) (sched_init example_keys example_closure) 4 (example_run 4)" using example_runs by simp
  from every_path_reported_once [OF example_closure_keys example_closure_keys(1) refl this r]
  have "Uploaded sm + Skipped sm + length (Failed sm) = Paths sm \<and> Paths sm = length example_keys + length [''gone'']" by blast
  then have "Uploaded sm + Skipped sm + length (Failed sm) = Paths sm" "Paths sm = 3" by (blast, simp)
  with r show ?thesis by blast
qed

text \<open>
  C29: an acyclic closure is uploaded completely unless something really failed.  When a run over a
  closure without reference cycles (other than references of a path to itself) is over, no path is left to
  be reported as part of a cycle; and if any path failed at all, then some transfer failed by itself or the
  push was cancelled: failures of dependencies never come from nowhere.
\<close>

theorem acyclic_closure_is_uploaded:
  assumes "distinct keys" and "set keys = pm_Path ` set metas" and "set ks = set keys"
    and "acyclic {(r, p). r \<in> set (deps (by_path metas) p)}"
    and "up_runs jobs (sched_init keys metas) k st" and "sched_final st"
  shows "run_finish ks st = sc_stats st \<and>
    ((\<exists>s\<in>set (run_finish ks st). s_Err s \<noteq> None) \<longrightarrow>
     (\<exists>s\<in>set (run_finish ks st). s_Err s = Some CtxCancelled \<or> (\<exists>u. s_Err s = Some (UploadErr u))))"
proof -
  have inv: "sched_inv (by_path metas) keys st" using up_runs_inv [OF assms(5,1,2)] by blast
  have "dom (by_path metas) = set keys" using dom_by_path assms(2) by simp
  then have "recorded st = set keys" using acyclic_all_recorded [OF inv assms(6) _ assms(4)] by blast
  then have "run_finish ks st = sc_stats st" using assms(3) by (simp add: run_finish_def recorded_def filter_empty_conv)
  then show ?thesis using explained_first [OF up_runs_explained [OF assms(5,1,2)]] by auto
qed

theorem acyclic_closure_is_uploaded_witness:
  "run_finish example_keys (example_run 4) = sc_stats (example_run 4)"
proof -
  have "{(r, p). r \<in> set (deps (by_path example_closure) p)} = {(''lib'', ''app'')}" by (auto simp: example_deps split: if_splits)
  then have "acyclic {(r, p). r \<in> set (deps (by_path example_closure) p)}" by (simp add: acyclic_def trancl_insert)
  then show ?thesis
    using acyclic_closure_is_uploaded [OF example_closure_keys refl _ example_runs] example_run_states(5) by (simp add: sched_final_def)
qed

end
