(* ===== verification/Watch.thy ===== *)
theory Watch
  imports Prelude "HOL-Library.Product_Lexorder"
begin

text \<open>
  The store watcher (\<^verbatim>\<open>watch/retry.go\<close>, \<^verbatim>\<open>watch/watch.go\<close>): discovery of new paths in the Nix database, the
  durable queue of what is still to be uploaded and the final drain.  The state database is the pair of
  tables of \<^verbatim>\<open>db/schema.sql\<close> and its operations are the statements of \<^verbatim>\<open>db/queries/watch.sql\<close>.  What lies
  outside (the Nix database, its file, the clock, failures of either database, the uploader) is an
  environment; every call gets its own, so it may change between any two calls.
\<close>

section \<open>The state database\<close>

record row =
  p_Path :: string
  p_SourceID :: int
  p_Source :: string
  p_Attempts :: int
  p_FirstFail :: int
  p_NextAt :: int
  p_FinalGeneration :: int
  p_Expired :: int

record checkpoint =
  cp_Cursor :: int
  cp_Anchor :: string
  cp_Source :: string
  cp_Boundary :: "int option"
  cp_Generation :: int
  cp_Expired :: int
  cp_LastExpired :: int
  cp_LastGeneration :: int
  cp_LastBoundary :: "int option"
  cp_DrainDiscovered :: int

record wstate =
  ws_cp :: "checkpoint option"
  ws_pending :: "row list"

definition upd_cp :: "(checkpoint \<Rightarrow> checkpoint) \<Rightarrow> wstate \<Rightarrow> wstate" where
  "upd_cp f st = st\<lparr>ws_cp := map_option f (ws_cp st)\<rparr>"

definition upd_row :: "string \<Rightarrow> (row \<Rightarrow> row) \<Rightarrow> wstate \<Rightarrow> wstate" where
  "upd_row path f st = st\<lparr>ws_pending := map (\<lambda>r. if p_Path r = path then f r else r) (ws_pending st)\<rparr>"

definition q_Initialize :: "int \<Rightarrow> string \<Rightarrow> string \<Rightarrow> wstate \<Rightarrow> wstate" where
  "q_Initialize cursor anchor source st =
     st\<lparr>ws_cp := Some \<lparr>cp_Cursor = cursor, cp_Anchor = anchor, cp_Source = source, cp_Boundary = None, cp_Generation = 0,
       cp_Expired = 0, cp_LastExpired = 0, cp_LastGeneration = 0, cp_LastBoundary = None, cp_DrainDiscovered = 0\<rparr>\<rparr>"

definition q_Advance :: "int \<Rightarrow> string \<Rightarrow> string \<Rightarrow> wstate \<Rightarrow> wstate" where
  "q_Advance cursor anchor source =
     upd_cp (\<lambda>cp. cp\<lparr>cp_Cursor := cursor, cp_Anchor := anchor, cp_Source := source, cp_DrainDiscovered := 0\<rparr>)"

definition rediscover :: "int \<Rightarrow> string \<Rightarrow> row \<Rightarrow> row" where
  "rediscover sid source r =
     (let r' = (if p_Expired r = 1 \<and> p_Source r = source \<and> p_SourceID r \<noteq> sid
                then r\<lparr>p_Attempts := 0, p_FirstFail := 0, p_NextAt := 0, p_FinalGeneration := 0, p_Expired := 0\<rparr> else r)
      in r'\<lparr>p_SourceID := sid, p_Source := source\<rparr>)"

definition q_Discover :: "string \<Rightarrow> int \<Rightarrow> string \<Rightarrow> wstate \<Rightarrow> wstate" where
  "q_Discover path sid source st =
     (if path \<in> p_Path ` set (ws_pending st) then upd_row path (rediscover sid source) st
      else st\<lparr>ws_pending := ws_pending st @ [\<lparr>p_Path = path, p_SourceID = sid, p_Source = source, p_Attempts = 0, p_FirstFail = 0,
             p_NextAt = 0, p_FinalGeneration = 0, p_Expired = 0\<rparr>]\<rparr>)"

definition q_Fresh :: "nat \<Rightarrow> wstate \<Rightarrow> row list" where
  "q_Fresh limit st =
     take limit (sort_key (\<lambda>r. (p_SourceID r, p_Path r)) (filter (\<lambda>r. p_Expired r = 0 \<and> p_Attempts r = 0) (ws_pending st)))"

definition q_Due :: "int \<Rightarrow> nat \<Rightarrow> wstate \<Rightarrow> row list" where
  "q_Due now limit st =
     take limit (sort_key (\<lambda>r. (p_NextAt r, p_SourceID r, p_Path r))
       (filter (\<lambda>r. p_Expired r = 0 \<and> 0 < p_Attempts r \<and> p_NextAt r \<le> now) (ws_pending st)))"

definition q_Final :: "int \<Rightarrow> nat \<Rightarrow> wstate \<Rightarrow> row list" where
  "q_Final generation limit st =
     take limit (sort_key (\<lambda>r. (p_FinalGeneration r, p_SourceID r, p_Path r))
       (filter (\<lambda>r. p_Expired r = 0 \<and> p_FinalGeneration r < generation) (ws_pending st)))"

definition q_PendingPage :: "string \<Rightarrow> nat \<Rightarrow> wstate \<Rightarrow> row list" where
  "q_PendingPage path limit st = take limit (sort_key p_Path (filter (\<lambda>r. path < p_Path r) (ws_pending st)))"

definition q_MarkFinal :: "string \<Rightarrow> int \<Rightarrow> wstate \<Rightarrow> wstate" where
  "q_MarkFinal path generation = upd_row path (\<lambda>r. r\<lparr>p_FinalGeneration := generation\<rparr>)"

definition q_BeginDrain :: "int \<Rightarrow> wstate \<Rightarrow> wstate" where
  "q_BeginDrain b = upd_cp (\<lambda>cp.
     cp\<lparr>cp_Boundary := Some (max (case cp_Boundary cp of None \<Rightarrow> 0 | Some x \<Rightarrow> x) b),
        cp_Generation := cp_Generation cp + (if cp_Boundary cp = None then 1 else 0),
        cp_DrainDiscovered := (case cp_Boundary cp of None \<Rightarrow> 0 | Some x \<Rightarrow> if x < b then 0 else cp_DrainDiscovered cp)\<rparr>)"

definition q_EndDrain :: "wstate \<Rightarrow> wstate" where
  "q_EndDrain = upd_cp (\<lambda>cp.
     cp\<lparr>cp_Boundary := None, cp_LastExpired := cp_Expired cp, cp_Expired := 0, cp_LastGeneration := cp_Generation cp,
        cp_LastBoundary := cp_Boundary cp\<rparr>)"

definition q_Retry :: "string \<Rightarrow> int \<Rightarrow> int \<Rightarrow> wstate \<Rightarrow> wstate" where
  "q_Retry path now nextAt = upd_row path (\<lambda>r.
     r\<lparr>p_Attempts := p_Attempts r + 1, p_FirstFail := (if p_FirstFail r = 0 then now else p_FirstFail r), p_NextAt := nextAt\<rparr>)"

definition q_Retire :: "string \<Rightarrow> wstate \<Rightarrow> wstate" where
  "q_Retire path st = st\<lparr>ws_pending := filter (\<lambda>r. p_Path r \<noteq> path) (ws_pending st)\<rparr>"

definition q_Expire :: "wstate \<Rightarrow> wstate" where
  "q_Expire = upd_cp (\<lambda>cp. cp\<lparr>cp_Expired := cp_Expired cp + 1\<rparr>)"

definition q_MarkExpired :: "string \<Rightarrow> wstate \<Rightarrow> wstate" where
  "q_MarkExpired path = upd_row path (\<lambda>r. r\<lparr>p_Expired := 1\<rparr>)"

definition q_CountPending :: "wstate \<Rightarrow> nat" where
  "q_CountPending st = length (filter (\<lambda>r. p_Expired r = 0) (ws_pending st))"

definition q_HasPending :: "wstate \<Rightarrow> bool" where
  "q_HasPending st = list_ex (\<lambda>r. p_Expired r = 0) (ws_pending st)"

definition q_Discovered :: "wstate \<Rightarrow> wstate" where
  "q_Discovered = upd_cp (\<lambda>cp. cp\<lparr>cp_DrainDiscovered := 1\<rparr>)"

definition q_ReconcileBoundary :: "int \<Rightarrow> wstate \<Rightarrow> wstate" where
  "q_ReconcileBoundary b = upd_cp (\<lambda>cp. if cp_Boundary cp = None then cp else cp\<lparr>cp_Boundary := Some b\<rparr>)"

datatype watch_error =
    DBUnreadable | SourceErr | StateErr | MissingCheckpoint | Incomplete "watch_error option" | IncompletePending nat
  | IncompleteExpired int | ReportErr | Abandoned

text \<open>\<^verbatim>\<open>DB.Transaction\<close>: all of the update or nothing.\<close>

definition Transaction :: "bool \<Rightarrow> (wstate \<Rightarrow> watch_error option \<times> wstate) \<Rightarrow> wstate \<Rightarrow> watch_error option \<times> wstate" where
  "Transaction fails update st =
     (if fails then (Some StateErr, st)
      else case update st of (Some e, _) \<Rightarrow> (Some e, st) | (None, st') \<Rightarrow> (None, st'))"

section \<open>The poller\<close>

record Watcher =
  RetryBackoffBase :: int
  RetryBackoffMax :: int
  RetryMaxAge :: int
  RetryQueueSize :: int
  hasReport :: bool

text \<open>
  The environment of one call: what \<^verbatim>\<open>os.Stat\<close> says of the database file (device and inode), whether it
  opens, the rows a query of \<^verbatim>\<open>ValidPaths\<close> sees, the uses of the state database that fail, the clock in
  nanoseconds (at the start and after an upload), the uploader (failed paths, and whether it returned an error), the report, and the
  backoff library: its \<open>k\<close>-th delay for an initial and a maximal interval.
\<close>

record wenv =
  we_stat :: "nat \<Rightarrow> string option"
  we_open :: bool
  we_rows :: "nat \<Rightarrow> (int \<times> string) list option"
  we_fail :: "nat \<Rightarrow> bool"
  we_now :: int
  we_later :: int
  we_copy :: "string list \<Rightarrow> string list \<times> bool"
  we_backoff :: "int \<Rightarrow> int \<Rightarrow> nat \<Rightarrow> int"
  we_reportFails :: bool

record poller =
  po_statePath :: string
  po_state :: wstate
  po_source :: string
  po_dbFailures :: nat
  po_cleanupCursor :: string
  po_more :: bool
  po_draining :: bool

definition uploadBatch :: int where "uploadBatch = 256"
definition pollLimit :: int where "pollLimit = 1000"
definition maxPollFailures :: nat where "maxPollFailures = 5"

definition orInt :: "int \<Rightarrow> int \<Rightarrow> int" where
  "orInt v fallback = (if v \<le> 0 then fallback else v)"

definition UnixMilli :: "int \<Rightarrow> int" where
  "UnixMilli t = t div 10 ^ 6"

definition newValidPaths :: "(int \<times> string) list \<Rightarrow> int \<Rightarrow> int \<Rightarrow> nat \<Rightarrow> (int \<times> string) list \<times> int" where
  "newValidPaths rows sinceID throughID limit =
     (let paths = take limit (sort_key fst (filter (\<lambda>(i, _). sinceID < i \<and> i \<le> throughID) rows))
      in (paths, foldl (\<lambda>m (i, _). max m i) sinceID paths))"

definition latest :: "(int \<times> string) list \<Rightarrow> int \<times> string" where
  "latest rows = (if rows = [] then (0, []) else last (sort_key fst rows))"

definition openSource :: "wenv \<Rightarrow> poller \<Rightarrow> watch_error option \<times> poller" where
  "openSource e p =
     (case we_stat e 1 of
        None \<Rightarrow> (Some DBUnreadable, p)
      | Some i \<Rightarrow> if \<not> we_open e then (Some DBUnreadable, p) else (None, p\<lparr>po_source := i\<rparr>))"

definition replay :: "wenv \<Rightarrow> string \<Rightarrow> checkpoint \<Rightarrow> wstate \<Rightarrow> watch_error option \<times> wstate" where
  "replay e source cp st =
     (if cp_Source cp \<noteq> source \<and> cp_Boundary cp \<noteq> None
      then (case we_rows e 1 of
              None \<Rightarrow> (Some SourceErr, st)
            | Some rows \<Rightarrow> (None, q_Advance 0 [] source (q_ReconcileBoundary (fst (latest rows)) st)))
      else (None, q_Advance 0 [] source st))"

definition anchor_path :: "wenv \<Rightarrow> checkpoint \<Rightarrow> string option" where
  "anchor_path e cp =
     (if 0 < cp_Cursor cp
      then map_option (\<lambda>rows. case map_of rows (cp_Cursor cp) of None \<Rightarrow> [] | Some x \<Rightarrow> x) (we_rows e 0)
      else Some [])"

definition validateAnchor :: "wenv \<Rightarrow> checkpoint \<Rightarrow> poller \<Rightarrow> watch_error option \<times> poller" where
  "validateAnchor e cp p =
     (case anchor_path e cp of
        None \<Rightarrow> (Some DBUnreadable, p)
      | Some path \<Rightarrow>
          if cp_Source cp = po_source p \<and> (cp_Cursor cp = 0 \<or> cp_Anchor cp = path \<and> path \<noteq> []) then (None, p)
          else (case Transaction (we_fail e 1) (replay e (po_source p) cp) (po_state p) of
                  (err, st) \<Rightarrow> (err, p\<lparr>po_state := st\<rparr>)))"

definition read_cp :: "bool \<Rightarrow> poller \<Rightarrow> watch_error + checkpoint" where
  "read_cp fails p = (if fails then Inl StateErr else case ws_cp (po_state p) of None \<Rightarrow> Inl StateErr | Some cp \<Rightarrow> Inr cp)"

definition refreshSource :: "wenv \<Rightarrow> poller \<Rightarrow> watch_error option \<times> poller" where
  "refreshSource e p =
     (case we_stat e 0 of
        None \<Rightarrow> (Some DBUnreadable, p)
      | Some i \<Rightarrow>
          (case (if i \<noteq> po_source p then openSource e p else (None, p)) of
             (Some err, p1) \<Rightarrow> (Some err, p1)
           | (None, p1) \<Rightarrow>
               (case read_cp (we_fail e 0) p1 of Inl err \<Rightarrow> (Some err, p1) | Inr cp \<Rightarrow> validateAnchor e cp p1)))"

definition initializeState :: "wenv \<Rightarrow> bool \<Rightarrow> int \<Rightarrow> string \<Rightarrow> poller \<Rightarrow> watch_error option \<times> poller" where
  "initializeState e created baseline anchor p =
     (if we_fail e 0 then (Some StateErr, p)
      else case ws_cp (po_state p) of
        None \<Rightarrow>
          if \<not> created then (Some MissingCheckpoint, p)
          else if we_fail e 1 then (Some StateErr, p)
          else (None, p\<lparr>po_state := q_Initialize baseline anchor (po_source p) (po_state p)\<rparr>)
      | Some cp \<Rightarrow> validateAnchor e cp p)"

definition discovered :: "string \<Rightarrow> checkpoint \<Rightarrow> (int \<times> string) list \<Rightarrow> int \<Rightarrow> wstate \<Rightarrow> wstate" where
  "discovered source cp paths cursor st =
     (let st1 = foldl (\<lambda>s (i, path). q_Discover path i source s) st paths;
          st2 = (if paths \<noteq> [] then q_Advance cursor (snd (last paths)) source st1 else st1)
      in if cp_Boundary cp \<noteq> None \<and> paths = [] then q_Discovered st2 else st2)"

definition discover :: "Watcher \<Rightarrow> wenv \<Rightarrow> poller \<Rightarrow> watch_error option \<times> poller" where
  "discover w e p =
     (case read_cp (we_fail e 0) p of
        Inl err \<Rightarrow> (Some err, p)
      | Inr cp \<Rightarrow>
          if cp_Boundary cp \<noteq> None \<and> cp_DrainDiscovered cp \<noteq> 0 then (None, p)
          else let upper = (case cp_Boundary cp of None \<Rightarrow> 2 ^ 63 - 1 | Some b \<Rightarrow> b) in
            (case we_rows e 0 of
               None \<Rightarrow> (Some DBUnreadable, p)
             | Some rows \<Rightarrow>
                 (case newValidPaths rows (cp_Cursor cp) upper (nat (min pollLimit (orInt (RetryQueueSize w) pollLimit))) of
                    (paths, cursor) \<Rightarrow>
                    (case Transaction (we_fail e 1) (\<lambda>st. (None, discovered (po_source p) cp paths cursor st)) (po_state p) of
                       (err, st) \<Rightarrow> (err, p\<lparr>po_more := (paths \<noteq> []), po_state := st\<rparr>)))))"

section \<open>Attempts\<close>

definition livePaths :: "(int \<times> string) list option \<Rightarrow> string list \<Rightarrow> string list" where
  "livePaths source names =
     (case source of None \<Rightarrow> names | Some rows \<Rightarrow> filter (\<lambda>name. name \<in> snd ` set rows) names)"

fun prepare_loop :: "Watcher \<Rightarrow> int \<Rightarrow> int \<Rightarrow> string list \<Rightarrow> row list \<Rightarrow> row list \<Rightarrow> wstate \<Rightarrow> row list \<times> wstate" where
  "prepare_loop w now generation live [] active st = (active, st)"
| "prepare_loop w now generation live (it # items) active st =
     (if p_Path it \<notin> set live then prepare_loop w now generation live items active (q_Retire (p_Path it) st)
      else if p_Expired it \<noteq> 0 then prepare_loop w now generation live items active st
      else if p_FirstFail it \<noteq> 0 \<and> 0 < RetryMaxAge w \<and> RetryMaxAge w \<le> now - p_FirstFail it * 10 ^ 6
      then prepare_loop w now generation live items active (q_Expire (q_MarkExpired (p_Path it) st))
      else prepare_loop w now generation live items (active @ [it])
             (if 0 < generation then q_MarkFinal (p_Path it) generation st else st))"

definition prepare :: "Watcher \<Rightarrow> wenv \<Rightarrow> row list \<Rightarrow> int \<Rightarrow> poller \<Rightarrow> (watch_error + row list) \<times> poller" where
  "prepare w e items generation p =
     (case prepare_loop w (we_now e) generation (livePaths (we_rows e 0) (map p_Path items)) items [] (po_state p) of
        (active, st) \<Rightarrow>
          if we_fail e 0 then (Inl StateErr, p) else (Inr active, p\<lparr>po_state := st\<rparr>))"

definition orDuration :: "int \<Rightarrow> int \<Rightarrow> int" where
  "orDuration v fallback = (if v \<le> 0 then fallback else v)"

definition retryDelay :: "(int \<Rightarrow> int \<Rightarrow> nat \<Rightarrow> int) \<Rightarrow> Watcher \<Rightarrow> int \<Rightarrow> int" where
  "retryDelay backoff w attempts =
     (let maxInterval = orDuration (RetryBackoffMax w) (10 * 60 * 10 ^ 9);
          initial = min (orDuration (RetryBackoffBase w) (30 * 10 ^ 9)) maxInterval;
          rounds = nat (min attempts 64);
          delay = (if rounds = 0 then 0 else backoff initial maxInterval rounds)
      in if delay < 0 then maxInterval else delay)"

definition settle :: "Watcher \<Rightarrow> wenv \<Rightarrow> string list \<Rightarrow> row list \<Rightarrow> wstate \<Rightarrow> wstate" where
  "settle w e failed active st =
     foldl (\<lambda>st it. if p_Path it \<in> set failed
                    then q_Retry (p_Path it) (UnixMilli (we_later e)) (UnixMilli (we_later e + retryDelay (we_backoff e) w (p_Attempts it + 1))) st
                    else q_Retire (p_Path it) st) st active"

definition copy_failed :: "wenv \<Rightarrow> string list \<Rightarrow> string list" where
  "copy_failed e names = (case we_copy e names of (failed, err) \<Rightarrow> if err \<and> failed = [] then names else failed)"

definition attempt :: "Watcher \<Rightarrow> wenv \<Rightarrow> row list \<Rightarrow> int \<Rightarrow> poller \<Rightarrow> watch_error option \<times> poller" where
  "attempt w e items generation p =
     (if items = [] then (None, p)
      else case prepare w e items generation p of
        (Inl err, p1) \<Rightarrow> (Some err, p1)
      | (Inr active, p1) \<Rightarrow>
          if active = [] then (None, p1)
          else (case Transaction (we_fail e 1) (\<lambda>st. (None, settle w e (copy_failed e (map p_Path active)) active st)) (po_state p1) of
                  (Some err, st) \<Rightarrow> (Some err, p1)
                | (None, st) \<Rightarrow> (if we_fail e 2 then Some StateErr else None, p1\<lparr>po_state := st\<rparr>)))"

definition batch :: "Watcher \<Rightarrow> nat" where
  "batch w = nat (min uploadBatch (orInt (RetryQueueSize w) uploadBatch))"

text \<open>One page of \<^verbatim>\<open>cleanup\<close>: an error, or the path to go on from (nothing at the end).\<close>

definition cleanup_page :: "Watcher \<Rightarrow> wenv \<Rightarrow> string \<Rightarrow> poller \<Rightarrow> (watch_error + string option) \<times> poller" where
  "cleanup_page w e cursor p =
     (if we_fail e 3 then (Inl StateErr, p)
      else case q_PendingPage cursor (batch w) (po_state p) of
        [] \<Rightarrow> (Inr None, p)
      | items \<Rightarrow>
          (case prepare w e items 0 p of
             (Inl err, p1) \<Rightarrow> (Inl err, p1)
           | (Inr _, p1) \<Rightarrow> (Inr (Some (p_Path (last items))), p1)))"

definition cleanup :: "Watcher \<Rightarrow> wenv \<Rightarrow> poller \<Rightarrow> watch_error option \<times> poller" where
  "cleanup w e p =
     (case cleanup_page w e (po_cleanupCursor p) p of
        (Inl err, p1) \<Rightarrow> (Some err, p1)
      | (Inr next, p1) \<Rightarrow>
          (if we_fail e 4 then Some StateErr else None,
           p1\<lparr>po_cleanupCursor := (case next of None \<Rightarrow> [] | Some c \<Rightarrow> c)\<rparr>))"

subsection \<open>Every page of the queue\<close>

definition paths :: "wstate \<Rightarrow> string list" where
  "paths st = map p_Path (ws_pending st)"

lemma paths_updates [simp]:
  "paths (upd_cp f st) = paths st" "(\<And>r. p_Path (g r) = p_Path r) \<Longrightarrow> paths (upd_row path g st) = paths st"
  "paths (q_Retire path st) = filter (\<lambda>x. x \<noteq> path) (paths st)"
  by (auto simp: paths_def upd_cp_def upd_row_def q_Retire_def filter_map comp_def)

lemma paths_queries [simp]:
  "paths (q_Expire st) = paths st" "paths (q_MarkExpired path st) = paths st" "paths (q_MarkFinal path g st) = paths st"
  "paths (q_Retry path n k st) = paths st" "paths (q_Advance c a s st) = paths st" "paths (q_Discovered st) = paths st"
  "paths (q_BeginDrain b st) = paths st" "paths (q_EndDrain st) = paths st" "paths (q_ReconcileBoundary b st) = paths st"
  by (simp_all add: q_Expire_def q_MarkExpired_def q_MarkFinal_def q_Retry_def q_Advance_def q_Discovered_def q_BeginDrain_def
      q_EndDrain_def q_ReconcileBoundary_def)

lemma prepare_loop_paths:
  "paths (snd (prepare_loop w now g live items active st)) =
     filter (\<lambda>x. \<not> (x \<in> p_Path ` set items \<and> x \<notin> set live)) (paths st)"
  by (induction w now g live items active st rule: prepare_loop.induct) (auto intro!: filter_cong)

lemma cleanup_page_shrinks:
  assumes "cleanup_page w e cursor p = (Inr (Some c), p1)"
  shows "cursor < c" "length (filter (\<lambda>x. c < x) (paths (po_state p1))) < length (filter (\<lambda>x. cursor < x) (paths (po_state p)))"
proof -
  obtain items where items: "items = q_PendingPage cursor (batch w) (po_state p)" "items \<noteq> []" "c = p_Path (last items)"
    and prep: "\<exists>act. prepare w e items 0 p = (Inr act, p1)"
    using assms by (auto simp: cleanup_page_def split: if_splits list.splits prod.splits sum.splits)
  have "last items \<in> set items" using items(2) by simp
  then have "last items \<in> set (sort_key p_Path (filter (\<lambda>r. cursor < p_Path r) (ws_pending (po_state p))))"
    unfolding items(1) q_PendingPage_def by (rule in_set_takeD)
  then have c: "cursor < c" "c \<in> set (paths (po_state p))" unfolding items(3) by (auto simp: paths_def)
  then show "cursor < c" by blast
  have "\<exists>P. paths (po_state p1) = filter P (paths (po_state p))"
    using prep prepare_loop_paths [of w "we_now e" 0 "livePaths (we_rows e 0) (map p_Path items)" items "[]" "po_state p"]
    by (auto simp: prepare_def split: prod.splits if_splits)
  then obtain P where P: "paths (po_state p1) = filter P (paths (po_state p))" by blast
  have "length (filter (\<lambda>x. c < x) (paths (po_state p1))) \<le> length (filter (\<lambda>x. c < x) (paths (po_state p)))"
    using length_filter_le [of P "filter (\<lambda>x. c < x) (paths (po_state p))"] by (simp add: P filter_filter conj_commute)
  also have "length (filter (\<lambda>x. c < x) ps) < length (filter (\<lambda>x. cursor < x) ps)" if "c \<in> set ps" for ps
  proof -
    have "filter (\<lambda>x. c < x) ps = filter (\<lambda>x. c < x) (filter (\<lambda>x. cursor < x) ps)"
      unfolding filter_filter by (rule filter_cong) (use c(1) in auto)
    then show ?thesis using length_filter_less [of c "filter (\<lambda>x. cursor < x) ps" "\<lambda>x. c < x"] that c(1) by simp
  qed
  finally show "length (filter (\<lambda>x. c < x) (paths (po_state p1))) < length (filter (\<lambda>x. cursor < x) (paths (po_state p)))"
    using c(2) by blast
qed

function cleanup_all :: "Watcher \<Rightarrow> (nat \<Rightarrow> wenv) \<Rightarrow> nat \<Rightarrow> string \<Rightarrow> poller \<Rightarrow> watch_error option \<times> poller" where
  "cleanup_all w ev k cursor p =
     (case cleanup_page w (ev k) cursor p of
        (Inl err, p1) \<Rightarrow> (Some err, p1)
      | (Inr None, p1) \<Rightarrow> (if we_fail (ev k) 4 then Some StateErr else None, p1\<lparr>po_cleanupCursor := []\<rparr>)
      | (Inr (Some c), p1) \<Rightarrow> cleanup_all w ev (k + 1) c p1)"
  by pat_completeness auto
termination
  by (relation "measure (\<lambda>(w, ev, k, cursor, p). length (filter (\<lambda>x. cursor < x) (paths (po_state p))))")
    (simp_all add: cleanup_page_shrinks(2) [OF sym])

declare cleanup_all.simps [simp del]

section \<open>Polling\<close>

definition sourceError :: "poller \<Rightarrow> watch_error option \<times> poller" where
  "sourceError p =
     (let n = po_dbFailures p + 1 in
      (if maxPollFailures \<le> n then Some DBUnreadable else None, p\<lparr>po_dbFailures := n\<rparr>))"

definition complete :: "wenv \<Rightarrow> poller \<Rightarrow> (bool \<times> watch_error option) \<times> poller" where
  "complete e p =
     (case read_cp (we_fail e 0) p of
        Inl err \<Rightarrow> ((False, Some err), p)
      | Inr cp \<Rightarrow>
          if cp_Boundary cp = None \<or> cp_DrainDiscovered cp = 0 then ((False, None), p)
          else if we_fail e 1 then ((False, Some StateErr), p)
          else if q_HasPending (po_state p) then ((False, None), p)
          else if we_fail e 2 then ((False, Some StateErr), p)
          else let p1 = p\<lparr>po_state := q_EndDrain (po_state p)\<rparr> in
            if 0 < cp_Expired cp then ((True, Some (IncompleteExpired (cp_Expired cp))), p1)
            else ((True, if we_fail e 3 then Some StateErr else None), p1))"

text \<open>\<^verbatim>\<open>poll\<close>; \<open>ev k\<close> is the environment of its \<open>k\<close>-th call.\<close>

definition poll :: "(nat \<Rightarrow> wenv) \<Rightarrow> Watcher \<Rightarrow> poller \<Rightarrow> watch_error option \<times> poller" where
  "poll ev w p =
     (case refreshSource (ev 0) (p\<lparr>po_more := False\<rparr>) of
        (Some err, p1) \<Rightarrow> if err = DBUnreadable then sourceError p1 else (Some err, p1)
      | (None, p1) \<Rightarrow>
     (case discover w (ev 1) p1 of
        (Some err, p2) \<Rightarrow> if err = DBUnreadable then sourceError p2 else (Some err, p2)
      | (None, p2) \<Rightarrow>
     let p3 = p2\<lparr>po_dbFailures := 0\<rparr>; fresh = q_Fresh (batch w) (po_state p3) in
     if we_fail (ev 2) 0 then (Some StateErr, p3)
     else case attempt w (ev 3) fresh 0 p3 of
        (Some err, p4) \<Rightarrow> (Some err, p4)
      | (None, p4) \<Rightarrow>
     let due = q_Due (UnixMilli (we_now (ev 4))) (batch w) (po_state p4) in
     if we_fail (ev 4) 0 then (Some StateErr, p4)
     else case attempt w (ev 5) due 0 p4 of
        (Some err, p5) \<Rightarrow> (Some err, p5)
      | (None, p5) \<Rightarrow>
     (case cleanup w (ev 6) (p5\<lparr>po_more := (po_more p5 \<or> fresh \<noteq> [] \<or> due \<noteq> [])\<rparr>) of
        (Some err, p6) \<Rightarrow> (Some err, p6)
      | (None, p6) \<Rightarrow>
     (case refreshSource (ev 7) p6 of
        (Some err, p7) \<Rightarrow> (Some err, p7)
      | (None, p7) \<Rightarrow> (case complete (ev 8) p7 of ((_, err), p8) \<Rightarrow> (err, p8))))))"

section \<open>The final drain\<close>

definition beginDrain :: "wenv \<Rightarrow> wenv \<Rightarrow> poller \<Rightarrow> watch_error option \<times> poller" where
  "beginDrain e e' p =
     (case refreshSource e p of
        (Some err, p1) \<Rightarrow> (Some err, p1)
      | (None, p1) \<Rightarrow>
          (case we_rows e' 0 of
             None \<Rightarrow> (Some SourceErr, p1)
           | Some rows \<Rightarrow>
               if we_fail e' 0 then (Some StateErr, p1)
               else (None, p1\<lparr>po_state := q_BeginDrain (fst (latest rows)) (po_state p1)\<rparr>)))"

record Progress =
  pr_StateFile :: string
  pr_Generation :: int
  pr_Boundary :: "int option"
  pr_Pending :: nat
  pr_Expired :: int
  pr_Draining :: bool

text \<open>The integer of a nullable column, zero when it is null.\<close>

definition null_int :: "int option \<Rightarrow> int" where
  "null_int b = (case b of None \<Rightarrow> 0 | Some x \<Rightarrow> x)"

definition progress_of :: "poller \<Rightarrow> checkpoint \<Rightarrow> Progress" where
  "progress_of p cp =
     (let last_drain = (cp_LastGeneration cp = cp_Generation cp \<and> cp_LastGeneration cp \<noteq> 0) in
      \<lparr>pr_StateFile = po_statePath p, pr_Generation = (if po_draining p then cp_Generation cp else 0),
       pr_Boundary = (if po_draining p \<and> cp_Boundary cp \<noteq> None then cp_Boundary cp
                      else if po_draining p \<and> last_drain then Some (null_int (cp_LastBoundary cp)) else None),
       pr_Pending = q_CountPending (po_state p),
       pr_Expired = (if po_draining p \<and> cp_Boundary cp = None \<and> last_drain then cp_LastExpired cp else cp_Expired cp),
       pr_Draining = po_draining p\<rparr>)"

definition report :: "Watcher \<Rightarrow> wenv \<Rightarrow> poller \<Rightarrow> watch_error option" where
  "report w e p =
     (if \<not> hasReport w then None
      else case read_cp (we_fail e 0) p of
        Inl err \<Rightarrow> Some err
      | Inr cp \<Rightarrow> if we_fail e 1 then Some StateErr else if we_reportFails e then Some ReportErr else None)"

definition drainReady :: "Watcher \<Rightarrow> (nat \<Rightarrow> wenv) \<Rightarrow> poller \<Rightarrow> (watch_error + bool) \<times> poller" where
  "drainReady w ev p =
     (case cleanup_all w (\<lambda>k. ev (k + 2)) 0 [] p of
        (Some err, p1) \<Rightarrow> (Inl err, p1)
      | (None, p1) \<Rightarrow>
          (case refreshSource (ev 0) p1 of
             (Some err, p2) \<Rightarrow> (Inl err, p2)
           | (None, p2) \<Rightarrow>
               (case read_cp (we_fail (ev 1) 0) p2 of
                  Inl err \<Rightarrow> (Inl err, p2)
                | Inr cp \<Rightarrow> (Inr (cp_DrainDiscovered cp \<noteq> 0), p2))))"

text \<open>One round of the loop of \<^verbatim>\<open>finish\<close>: an error, or whether the drain is over.\<close>

definition finish_round :: "Watcher \<Rightarrow> (nat \<Rightarrow> wenv) \<Rightarrow> poller \<Rightarrow> (watch_error + bool) \<times> poller" where
  "finish_round w ev p =
     (case refreshSource (ev 0) p of
        (Some err, p1) \<Rightarrow> (Inl err, p1)
      | (None, p1) \<Rightarrow>
     (case discover w (ev 1) p1 of
        (Some err, p2) \<Rightarrow> (Inl err, p2)
      | (None, p2) \<Rightarrow>
     (case read_cp (we_fail (ev 2) 0) p2 of
        Inl err \<Rightarrow> (Inl err, p2)
      | Inr cp \<Rightarrow>
     let items = q_Final (cp_Generation cp) (batch w) (po_state p2) in
     if we_fail (ev 2) 1 then (Inl StateErr, p2)
     else if items = [] \<and> cp_DrainDiscovered cp \<noteq> 0 then drainReady w (\<lambda>k. ev (k + 4)) p2
     else (case attempt w (ev 3) items (cp_Generation cp) p2 of
             (Some err, p3) \<Rightarrow> (Inl err, p3)
           | (None, p3) \<Rightarrow> (Inr False, p3)))))"

text \<open>The loop may go on for ever when its surroundings keep changing: \<open>fuel\<close> bounds the rounds.\<close>

fun finish_loop :: "nat \<Rightarrow> Watcher \<Rightarrow> (nat \<Rightarrow> nat \<Rightarrow> wenv) \<Rightarrow> poller \<Rightarrow> (watch_error option \<times> poller) option" where
  "finish_loop 0 w evs p = None"
| "finish_loop (Suc fuel) w evs p =
     (case finish_round w (evs 0) p of
        (Inl err, p1) \<Rightarrow> Some (Some err, p1)
      | (Inr True, p1) \<Rightarrow> Some (None, p1)
      | (Inr False, p1) \<Rightarrow> finish_loop fuel w (\<lambda>k. evs (k + 1)) p1)"

definition watch_finish :: "nat \<Rightarrow> Watcher \<Rightarrow> (nat \<Rightarrow> wenv) \<Rightarrow> (nat \<Rightarrow> nat \<Rightarrow> wenv) \<Rightarrow> poller \<Rightarrow> (watch_error option \<times> poller) option" where
  "watch_finish fuel w ev evs p =
     (case beginDrain (ev 0) (ev 1) p of
        (Some err, p1) \<Rightarrow> Some (Some (Incomplete (Some err)), p1)
      | (None, p1) \<Rightarrow>
     let p2 = p1\<lparr>po_draining := True\<rparr> in
     (case report w (ev 2) p2 of
        Some err \<Rightarrow> Some (Some (Incomplete (Some err)), p2)
      | None \<Rightarrow>
     (case finish_loop fuel w evs p2 of
        None \<Rightarrow> None
      | Some (Some err, p3) \<Rightarrow> Some (Some (Incomplete (Some err)), p3)
      | Some (None, p3) \<Rightarrow>
     (case complete (ev 3) p3 of
        ((_, Some err), p4) \<Rightarrow> Some (Some (Incomplete (Some err)), p4)
      | ((False, None), p4) \<Rightarrow> Some (Some (IncompletePending (q_CountPending (po_state p4))), p4)
      | ((True, None), p4) \<Rightarrow> Some (None, p4)))))"

text \<open>What another process finds out about a session that ended without a result.\<close>

definition recoverDrain :: "checkpoint \<Rightarrow> Progress \<Rightarrow> Progress \<times> watch_error option" where
  "recoverDrain cp pr =
     (if pr_Generation pr = 0 \<or> pr_StateFile pr = [] then (pr, Some Abandoned)
      else if cp_Generation cp \<noteq> pr_Generation pr \<or> cp_LastGeneration cp \<noteq> pr_Generation pr \<or> cp_Boundary cp \<noteq> None
      then (pr, Some Abandoned)
      else let pr1 = pr\<lparr>pr_Pending := 0, pr_Expired := cp_LastExpired cp, pr_Boundary := Some (null_int (cp_LastBoundary cp))\<rparr> in
        (pr1, if cp_LastExpired cp \<noteq> 0 then Some (IncompleteExpired (cp_LastExpired cp)) else None))"

end
