(* ===== verification/WatchInv.thy ===== *)
theory WatchInv
  imports Watch
begin

text \<open>
  What the watcher of \<^verbatim>\<open>watch/retry.go\<close> guarantees: no path that stays in the Nix database is passed over,
  a successful drain delivered everything, and the drain ends.
\<close>

section \<open>Updates of the state\<close>

lemma ws_cp_updates [simp]:
  "ws_cp (upd_cp f st) = map_option f (ws_cp st)" "ws_cp (upd_row path g st) = ws_cp st" "ws_cp (q_Retire path st) = ws_cp st"
  "ws_cp (q_Discover path i s st) = ws_cp st"
  by (simp_all add: upd_cp_def upd_row_def q_Retire_def q_Discover_def)

lemma rediscover_Path [simp]: "p_Path (rediscover i s r) = p_Path r"
  by (simp add: rediscover_def Let_def)

lemma paths_Discover: "set (paths (q_Discover path i s st)) = insert path (set (paths st))"
  by (auto simp: q_Discover_def) (auto simp: paths_def)

lemma paths_Discovers: "set (paths (foldl (\<lambda>s (i, path). q_Discover path i src s) st ps)) = snd ` set ps \<union> set (paths st)"
  by (induction ps arbitrary: st) (auto simp: paths_Discover)

lemma ws_cp_Discovers [simp]: "ws_cp (foldl (\<lambda>s (i, path). q_Discover path i src s) st ps) = ws_cp st"
  by (induction ps arbitrary: st) auto

text \<open>\<open>same_cp st st'\<close>: the checkpoints agree on everything discovery depends on.\<close>

definition same_cp :: "wstate \<Rightarrow> wstate \<Rightarrow> bool" where
  "same_cp st st' \<longleftrightarrow> (\<exists>f. ws_cp st' = map_option f (ws_cp st) \<and> (\<forall>cp. cp_Cursor (f cp) = cp_Cursor cp \<and> cp_Anchor (f cp) = cp_Anchor cp \<and>
     cp_Source (f cp) = cp_Source cp \<and> cp_Boundary (f cp) = cp_Boundary cp \<and> cp_DrainDiscovered (f cp) = cp_DrainDiscovered cp \<and>
     cp_Generation (f cp) = cp_Generation cp))"

lemma same_cp_refl [simp]: "ws_cp st' = ws_cp st \<Longrightarrow> same_cp st st'"
  unfolding same_cp_def by (rule exI [of _ "\<lambda>cp. cp"]) (simp add: option.map_ident)

lemma same_cp_trans [trans]: "same_cp st st1 \<Longrightarrow> same_cp st1 st2 \<Longrightarrow> same_cp st st2"
  unfolding same_cp_def by (elim exE conjE) (rule_tac x = "fa \<circ> f" in exI; simp add: option.map_comp)

lemma same_cp_Expire [simp]: "same_cp st (q_Expire st)"
  unfolding same_cp_def q_Expire_def by (rule exI [of _ "\<lambda>cp. cp\<lparr>cp_Expired := cp_Expired cp + 1\<rparr>"]) simp

lemma prepare_loop_cp: "same_cp st (snd (prepare_loop w now g live items active st))"
proof (induction w now g live items active st rule: prepare_loop.induct)
  case (2 w now g live it items active st)
  have e: "same_cp st (q_Expire (q_MarkExpired (p_Path it) st))"
    by (rule same_cp_trans [OF _ same_cp_Expire]) (simp add: q_MarkExpired_def)
  show ?case using 2 same_cp_trans [OF e] by (auto intro: same_cp_trans [rotated] simp: q_MarkFinal_def)
qed simp

lemma settle_cp [simp]: "ws_cp (settle w e failed active st) = ws_cp st"
  unfolding settle_def by (induction active arbitrary: st) (auto simp: q_Retry_def)

lemma settle_paths: "set (paths (settle w e failed active st)) = set (paths st) - (p_Path ` set active - set failed)"
  unfolding settle_def by (induction active arbitrary: st) auto

section \<open>A row that stays in the Nix database\<close>

text \<open>
  \<open>watch_inv bnd i path st\<close>: the row was not passed over, the drain is not called discovered before it was
  reached, and, if \<open>bnd\<close>, the boundary of a drain covers it.
\<close>

definition watch_inv :: "bool \<Rightarrow> int \<Rightarrow> string \<Rightarrow> wstate \<Rightarrow> bool" where
  "watch_inv bnd i path st \<longleftrightarrow> (\<forall>cp. ws_cp st = Some cp \<longrightarrow> (cp_Cursor cp < i \<or> path \<in> set (paths st)) \<and>
     (\<forall>b. cp_Boundary cp = Some b \<longrightarrow> (cp_DrainDiscovered cp \<noteq> 0 \<longrightarrow> i \<le> b \<longrightarrow> i \<le> cp_Cursor cp) \<and> (bnd \<longrightarrow> i \<le> b)))"

definition stays :: "int \<Rightarrow> string \<Rightarrow> wenv \<Rightarrow> bool" where
  "stays i path e \<longleftrightarrow> (\<forall>k rows. we_rows e k = Some rows \<longrightarrow> (i, path) \<in> set rows \<and> distinct (map fst rows))"

text \<open>The uploader was given the path and did not report it as failed.\<close>

definition uploaded :: "string \<Rightarrow> wenv \<Rightarrow> bool" where
  "uploaded path e \<longleftrightarrow> (\<exists>names. path \<in> set names \<and> path \<notin> set (copy_failed e names))"

lemma watch_inv_mono:
  assumes "watch_inv bnd i path st" "same_cp st st'" "path \<in> set (paths st) \<Longrightarrow> path \<in> set (paths st')"
  shows "watch_inv bnd i path st'"
  unfolding watch_inv_def
proof (intro allI impI)
  fix cp assume "ws_cp st' = Some cp"
  then obtain cp0 where "ws_cp st = Some cp0" "cp_Cursor cp = cp_Cursor cp0" "cp_Boundary cp = cp_Boundary cp0"
      "cp_DrainDiscovered cp = cp_DrainDiscovered cp0" using assms(2) unfolding same_cp_def by (cases "ws_cp st") auto
  then show "(cp_Cursor cp < i \<or> path \<in> set (paths st')) \<and>
     (\<forall>b. cp_Boundary cp = Some b \<longrightarrow> (cp_DrainDiscovered cp \<noteq> 0 \<longrightarrow> i \<le> b \<longrightarrow> i \<le> cp_Cursor cp) \<and> (bnd \<longrightarrow> i \<le> b))"
    using assms(1,3) unfolding watch_inv_def by auto
qed

lemma latest_ge: "(i, path) \<in> set rows \<Longrightarrow> i \<le> fst (latest rows)"
proof -
  assume r: "(i, path) \<in> set rows"
  let ?s = "sort_key fst rows"
  have "(i, path) \<in> set ?s" "sorted (map fst ?s)" using r by simp_all
  then obtain k where "k < length ?s" "?s ! k = (i, path)" by (metis in_set_conv_nth)
  moreover have "?s \<noteq> []" using r by (metis empty_iff list.set(1) set_sort)
  ultimately have "fst (?s ! k) \<le> fst (last ?s)"
    using sorted_nth_mono [OF \<open>sorted (map fst ?s)\<close>, of k "length ?s - 1"] by (simp add: last_conv_nth del: length_sort)
  then show ?thesis using r \<open>?s ! k = (i, path)\<close> by (auto simp: latest_def)
qed

lemma newValidPaths_complete:
  assumes new: "newValidPaths rows since through limit = (ps, c)" and row: "(i, path) \<in> set rows" "distinct (map fst rows)"
    and i: "since < i" "i \<le> c"
  shows "(i, path) \<in> set ps"
proof -
  let ?xs = "sort_key fst (filter (\<lambda>(i, _). since < i \<and> i \<le> through) rows)"
  have ps: "ps = take limit ?xs" and c: "c = foldl (\<lambda>m (i, _). max m i) since ps" using new by (auto simp: newValidPaths_def Let_def)
  have max: "foldl (\<lambda>m (i, _). max m i) m qs \<ge> i \<Longrightarrow> m < i \<Longrightarrow> \<exists>q\<in>set qs. i \<le> fst q" for m and qs :: "(int \<times> string) list"
    by (induction qs arbitrary: m) (fastforce simp: max_def split: if_splits prod.splits)+
  obtain q where q: "q \<in> set ps" "i \<le> fst q" using max [of since ps] i unfolding c by blast
  then have "fst q \<le> through" using set_take_subset [of limit ?xs] unfolding ps by auto
  then have x: "(i, path) \<in> set ?xs" using row(1) i(1) q(2) by auto
  show ?thesis
  proof (rule ccontr)
    assume "(i, path) \<notin> set ps"
    then have d: "(i, path) \<in> set (drop limit ?xs)" using x unfolding ps by (metis UnE append_take_drop_id set_append)
    have in_both: "fst q \<in> set (map fst (take limit ?xs))" "i \<in> set (map fst (drop limit ?xs))" using q(1) d ps by force+
    have "sorted (map fst (take limit ?xs) @ map fst (drop limit ?xs))" unfolding map_append [symmetric] append_take_drop_id by simp
    then have "fst q \<le> i" using in_both unfolding sorted_append by blast
    moreover have "distinct (map fst ?xs)" using distinct_map_filter [OF row(2)] by (simp add: distinct_map distinct_sort)
    then have "distinct (map fst (take limit ?xs) @ map fst (drop limit ?xs))" unfolding map_append [symmetric] append_take_drop_id .
    then have "fst q \<noteq> i" using in_both unfolding distinct_append by blast
    ultimately show False using q(2) by simp
  qed
qed

section \<open>Each call keeps the invariant\<close>

lemma replay_inv:
  assumes "replay e source cp st = (None, st')" "0 < i" "stays i path e" "watch_inv bnd i path st"
  shows "watch_inv bnd i path st'"
  using assms latest_ge [of i path]
  by (auto simp: replay_def watch_inv_def q_Advance_def q_ReconcileBoundary_def stays_def split: if_splits option.splits)

lemma validateAnchor_inv:
  assumes "validateAnchor e cp p = (err, p')" "0 < i" "stays i path e" "watch_inv bnd i path (po_state p)"
  shows "watch_inv bnd i path (po_state p')"
proof -
  obtain err1 st where t: "Transaction (we_fail e 1) (replay e (po_source p) cp) (po_state p) = (err1, st)" by fastforce
  then have "watch_inv bnd i path st"
    using assms(4) replay_inv [OF _ assms(2-4), of "po_source p" cp]
    by (auto simp: Transaction_def split: if_splits prod.splits option.splits)
  then show ?thesis using assms(1,4) t by (auto simp: validateAnchor_def split: option.splits if_splits)
qed

lemma openSource_state: "openSource e p = (err, p') \<Longrightarrow> po_state p' = po_state p"
  by (auto simp: openSource_def split: option.splits if_splits)

lemma refreshSource_inv:
  assumes "refreshSource e p = (err, p')" "0 < i" "stays i path e" "watch_inv bnd i path (po_state p)"
  shows "watch_inv bnd i path (po_state p')"
  using assms(1,4) validateAnchor_inv [OF _ assms(2,3)]
  by (auto simp: refreshSource_def dest!: openSource_state split: option.splits if_splits prod.splits sum.splits)

lemma batch_pos: "0 < batch w" "0 < nat (min pollLimit (orInt k pollLimit))"
  by (auto simp: batch_def orInt_def uploadBatch_def pollLimit_def)

lemma discovered_inv:
  assumes new: "newValidPaths rows (cp_Cursor cp) upper limit = (ps, c)" and row: "(i, path) \<in> set rows" "distinct (map fst rows)"
    and lim: "0 < limit" and cp: "ws_cp st = Some cp" and up: "\<And>b. cp_Boundary cp = Some b \<Longrightarrow> upper = b"
    and inv: "watch_inv bnd i path st"
  shows "watch_inv bnd i path (discovered src cp ps c st)"
proof (cases "ps = []")
  case True
  then have none: "filter (\<lambda>(j, _). cp_Cursor cp < j \<and> j \<le> upper) rows = []"
    using new lim by (auto simp: newValidPaths_def Let_def) (metis length_0_conv length_sort set_empty set_sort)
  have "i \<le> cp_Cursor cp" if "i \<le> upper" using none row(1) that by (fastforce simp: filter_empty_conv)
  then show ?thesis using True inv cp up by (auto simp: discovered_def watch_inv_def q_Discovered_def paths_def upd_cp_def)
next
  case False
  have "path \<in> snd ` set ps \<or> path \<in> set (paths st)" if "i \<le> c"
    using newValidPaths_complete [OF new row] that inv cp by (force simp: watch_inv_def not_less)
  then show ?thesis using False inv cp
    by (auto simp: discovered_def watch_inv_def q_Advance_def paths_Discovers not_less)
qed

lemma discover_inv:
  assumes "discover w e p = (err, p')" "stays i path e" "watch_inv bnd i path (po_state p)"
  shows "watch_inv bnd i path (po_state p')"
proof (cases "read_cp (we_fail e 0) p")
  case (Inr cp)
  have cp: "ws_cp (po_state p) = Some cp" using Inr by (auto simp: read_cp_def split: if_splits option.splits)
  show ?thesis
  proof (cases "we_rows e 0")
    case (Some rows)
    have row: "(i, path) \<in> set rows" "distinct (map fst rows)" using assms(2) Some by (auto simp: stays_def)
    let ?up = "case cp_Boundary cp of None \<Rightarrow> 2 ^ 63 - 1 | Some b \<Rightarrow> b"
    obtain ps c where new: "newValidPaths rows (cp_Cursor cp) ?up (nat (min pollLimit (orInt (RetryQueueSize w) pollLimit))) = (ps, c)" by fastforce
    have "watch_inv bnd i path (discovered (po_source p) cp ps c (po_state p))"
      by (rule discovered_inv [OF new row batch_pos(2) cp _ assms(3)]) simp
    then show ?thesis using assms(1,3) Inr Some new
      by (auto simp: discover_def Transaction_def Let_def split: if_splits)
  qed (use assms Inr in \<open>auto simp: discover_def split: if_splits\<close>)
qed (use assms in \<open>auto simp: discover_def\<close>)

lemma prepare_inv:
  assumes "prepare w e items g p = (res, p')" "stays i path e" "watch_inv bnd i path (po_state p)"
  shows "watch_inv bnd i path (po_state p')"
proof -
  let ?live = "livePaths (we_rows e 0) (map p_Path items)"
  have "path \<in> p_Path ` set items \<Longrightarrow> path \<in> set ?live"
    using assms(2) by (force simp: livePaths_def stays_def split: option.splits)
  then have "watch_inv bnd i path (snd (prepare_loop w (we_now e) g ?live items [] (po_state p)))"
    by (intro watch_inv_mono [OF assms(3) prepare_loop_cp]) (auto simp: prepare_loop_paths)
  then show ?thesis using assms(1,3) by (auto simp: prepare_def split: prod.splits if_splits)
qed

lemma attempt_inv:
  assumes "attempt w e items g p = (err, p')" "stays i path e" "watch_inv bnd i path (po_state p)"
  shows "watch_inv bnd i path (po_state p') \<or> uploaded path e"
proof (cases "uploaded path e")
  case False
  obtain res p1 where prep: "prepare w e items g p = (res, p1)" by fastforce
  note inv1 = prepare_inv [OF prep assms(2,3)]
  have settled: "watch_inv bnd i path (settle w e (copy_failed e (map p_Path active)) active (po_state p1))" for active
    by (rule watch_inv_mono [OF inv1]) (use False in \<open>auto simp: settle_paths uploaded_def\<close>)
  show ?thesis using assms(1,3) prep inv1 settled
    by (auto simp: attempt_def Transaction_def split: if_splits sum.splits)
qed simp

lemma cleanup_page_inv:
  assumes "cleanup_page w e cursor p = (res, p')" "stays i path e" "watch_inv bnd i path (po_state p)"
  shows "watch_inv bnd i path (po_state p')"
  using assms(1,3) prepare_inv [OF _ assms(2,3)]
  by (auto simp: cleanup_page_def split: if_splits list.splits prod.splits sum.splits)

lemma cleanup_inv:
  assumes "cleanup w e p = (err, p')" "stays i path e" "watch_inv bnd i path (po_state p)"
  shows "watch_inv bnd i path (po_state p')"
  using assms(1) cleanup_page_inv [OF _ assms(2,3)]
  by (auto simp: cleanup_def split: prod.splits sum.splits)

lemma cleanup_all_inv:
  assumes "cleanup_all w ev k cursor p = (err, p')" "\<And>k. stays i path (ev k)" "watch_inv bnd i path (po_state p)"
  shows "watch_inv bnd i path (po_state p')"
  using assms
proof (induction w ev k cursor p rule: cleanup_all.induct)
  case (1 w ev k cursor p)
  obtain res p1 where page: "cleanup_page w (ev k) cursor p = (res, p1)" by fastforce
  have inv1: "watch_inv bnd i path (po_state p1)" by (rule cleanup_page_inv [OF page 1(3) 1(4)])
  show ?case
  proof (cases res)
    case (Inr nxt)
    show ?thesis
    proof (cases nxt)
      case (Some c)
      show ?thesis using 1(1) [OF page [symmetric] Inr Some] 1(2,3) inv1 page Inr Some by (simp add: cleanup_all.simps [of w ev k])
    qed (use 1(2) inv1 page Inr in \<open>auto simp: cleanup_all.simps [of w ev k]\<close>)
  qed (use 1(2) inv1 page in \<open>auto simp: cleanup_all.simps [of w ev k]\<close>)
qed

lemma complete_inv:
  assumes "complete e p = (res, p')" "watch_inv bnd i path (po_state p)"
  shows "watch_inv bnd i path (po_state p')"
proof -
  have "watch_inv bnd i path (q_EndDrain (po_state p))"
    using assms(2) unfolding watch_inv_def by (auto simp: q_EndDrain_def paths_def upd_cp_def)
  then show ?thesis using assms by (auto simp: complete_def Let_def split: sum.splits if_splits)
qed

lemma poll_inv:
  assumes "\<And>k. stays i path (ev k)" "0 < i" "watch_inv bnd i path (po_state p)"
  shows "watch_inv bnd i path (po_state (snd (poll ev w p))) \<or> (\<exists>k. uploaded path (ev k))"
proof (rule disjCI)
  assume "\<not> (\<exists>k. uploaded path (ev k))"
  then have no: "\<not> uploaded path (ev k)" for k by blast
  obtain e1 p1 where r1: "refreshSource (ev 0) (p\<lparr>po_more := False\<rparr>) = (e1, p1)" by fastforce
  have i1: "watch_inv bnd i path (po_state p1)" by (rule refreshSource_inv [OF r1 assms(2,1)]) (simp add: assms(3))
  obtain e2 p2 where r2: "discover w (ev 1) p1 = (e2, p2)" by fastforce
  have i2: "watch_inv bnd i path (po_state p2)" by (rule discover_inv [OF r2 assms(1) i1])
  obtain e4 p4 where r4: "attempt w (ev 3) (q_Fresh (batch w) (po_state (p2\<lparr>po_dbFailures := 0\<rparr>))) 0 (p2\<lparr>po_dbFailures := 0\<rparr>) = (e4, p4)" by fastforce
  have i4: "watch_inv bnd i path (po_state p4)" using attempt_inv [OF r4 assms(1)] i2 no by simp
  obtain e5 p5 where r5: "attempt w (ev 5) (q_Due (UnixMilli (we_now (ev 4))) (batch w) (po_state p4)) 0 p4 = (e5, p5)" by fastforce
  have i5: "watch_inv bnd i path (po_state p5)" using attempt_inv [OF r5 assms(1) i4] no by simp
  define more where "more = (po_more p5 \<or> q_Fresh (batch w) (po_state (p2\<lparr>po_dbFailures := 0\<rparr>)) \<noteq> [] \<or>
      q_Due (UnixMilli (we_now (ev 4))) (batch w) (po_state p4) \<noteq> [])"
  obtain e6 p6 where r6: "cleanup w (ev 6) (p5\<lparr>po_more := more\<rparr>) = (e6, p6)" by fastforce
  have i6: "watch_inv bnd i path (po_state p6)" by (rule cleanup_inv [OF r6 assms(1)]) (simp add: i5)
  obtain e7 p7 where r7: "refreshSource (ev 7) p6 = (e7, p7)" by fastforce
  have i7: "watch_inv bnd i path (po_state p7)" by (rule refreshSource_inv [OF r7 assms(2,1) i6])
  obtain e8 p8 where r8: "complete (ev 8) p7 = (e8, p8)" by fastforce
  have i8: "watch_inv bnd i path (po_state p8)" by (rule complete_inv [OF r8 i7])
  have "po_state (snd (poll ev w p)) \<in> po_state ` {p1, p2, p4, p5, p6, p7, p8}"
    unfolding poll_def r1 r2 Let_def r4 prod.case r5 more_def [symmetric] r6 r7 r8
    by (auto simp: sourceError_def Let_def split: option.splits prod.splits)
  then show "watch_inv bnd i path (po_state (snd (poll ev w p)))" using i1 i2 i4 i5 i6 i7 i8 by auto
qed

lemma drainReady_inv:
  assumes "drainReady w ev p = (res, p')" "\<And>k. stays i path (ev k)" "0 < i" "watch_inv bnd i path (po_state p)"
  shows "watch_inv bnd i path (po_state p')"
proof -
  obtain e1 p1 where r1: "cleanup_all w (\<lambda>k. ev (k + 2)) 0 [] p = (e1, p1)" by fastforce
  have i1: "watch_inv bnd i path (po_state p1)" by (rule cleanup_all_inv [OF r1 _ assms(4)]) (rule assms(2))
  obtain e2 p2 where r2: "refreshSource (ev 0) p1 = (e2, p2)" by fastforce
  have "watch_inv bnd i path (po_state p2)" by (rule refreshSource_inv [OF r2 assms(3,2) i1])
  then show ?thesis using assms(1) r1 r2 i1 by (auto simp: drainReady_def split: option.splits sum.splits)
qed

lemma finish_round_inv:
  assumes "finish_round w ev p = (res, p')" "\<And>k. stays i path (ev k)" "0 < i" "watch_inv bnd i path (po_state p)"
  shows "watch_inv bnd i path (po_state p') \<or> (\<exists>k. uploaded path (ev k))"
proof (rule disjCI)
  assume "\<not> (\<exists>k. uploaded path (ev k))"
  then have no: "\<not> uploaded path (ev k)" for k by blast
  obtain e1 p1 where r1: "refreshSource (ev 0) p = (e1, p1)" by fastforce
  have i1: "watch_inv bnd i path (po_state p1)" by (rule refreshSource_inv [OF r1 assms(3,2,4)])
  obtain e2 p2 where r2: "discover w (ev 1) p1 = (e2, p2)" by fastforce
  have i2: "watch_inv bnd i path (po_state p2)" by (rule discover_inv [OF r2 assms(2) i1])
  have i3: "watch_inv bnd i path (po_state p3)" if "attempt w (ev 3) items g p2 = (e3, p3)" for items g e3 p3
    using attempt_inv [OF that assms(2) i2] no by blast
  have i4: "watch_inv bnd i path (po_state p3)" if "drainReady w (\<lambda>k. ev (k + 4)) p2 = (e3, p3)" for e3 p3
    by (rule drainReady_inv [OF that _ assms(3) i2]) (rule assms(2))
  show "watch_inv bnd i path (po_state p')"
    using assms(1) r1 r2 i1 i2 i3 i4
    by (auto simp: finish_round_def Let_def split: option.splits sum.splits if_splits prod.splits)
qed

lemma finish_loop_inv:
  assumes "finish_loop fuel w evs p = Some (err, p')" "\<And>n k. stays i path (evs n k)" "0 < i" "watch_inv bnd i path (po_state p)"
  shows "watch_inv bnd i path (po_state p') \<or> (\<exists>n k. uploaded path (evs n k))"
  using assms
proof (induction fuel arbitrary: evs p)
  case (Suc fuel)
  obtain res p1 where r: "finish_round w (evs 0) p = (res, p1)" by fastforce
  show ?case
  proof (cases "\<exists>k. uploaded path (evs 0 k)")
    case False
    then have inv1: "watch_inv bnd i path (po_state p1)" using finish_round_inv [OF r Suc.prems(2-4)] by blast
    show ?thesis
    proof (cases "res = Inr False")
      case True
      then have "finish_loop fuel w (\<lambda>k. evs (k + 1)) p1 = Some (err, p')" using Suc.prems(1) r by simp
      from Suc.IH [OF this Suc.prems(2,3) inv1] show ?thesis by blast
    qed (use Suc.prems(1) r inv1 in \<open>auto split: sum.splits bool.splits\<close>)
  qed blast
qed simp

section \<open>Everything the watcher does\<close>

text \<open>
  The steps of a watcher whose surroundings are drawn from \<open>E\<close>: polls, the parts of a drain, and a restart,
  which keeps only the state database.
\<close>

inductive watch_step :: "Watcher \<Rightarrow> wenv set \<Rightarrow> poller \<Rightarrow> poller \<Rightarrow> bool" for w E where
  step_poll: "range ev \<subseteq> E \<Longrightarrow> watch_step w E p (snd (poll ev w p))"
| step_begin: "e \<in> E \<Longrightarrow> e' \<in> E \<Longrightarrow> watch_step w E p (snd (beginDrain e e' p))"
| step_round: "range ev \<subseteq> E \<Longrightarrow> watch_step w E p (snd (finish_round w ev p))"
| step_complete: "e \<in> E \<Longrightarrow> watch_step w E p (snd (complete e p))"
| step_restart: "e \<in> E \<Longrightarrow> watch_step w E p (snd (initializeState e False baseline anchor
    (p\<lparr>po_source := source, po_dbFailures := 0, po_cleanupCursor := [], po_more := False, po_draining := False\<rparr>)))"

lemma q_BeginDrain_inv:
  assumes "watch_inv bnd i path st" "i \<le> b"
  shows "watch_inv True i path (q_BeginDrain b st)"
proof (cases "ws_cp st")
  case (Some cp)
  have cur: "cp_Cursor cp < i \<or> path \<in> set (paths (q_BeginDrain b st))" using assms(1) Some by (simp add: watch_inv_def)
  show ?thesis
  proof (cases "cp_Boundary cp")
    case None
    then show ?thesis using Some cur assms(2) by (simp add: watch_inv_def q_BeginDrain_def max_def)
  next
    case (Some x)
    have "cp_DrainDiscovered cp \<noteq> 0 \<Longrightarrow> i \<le> x \<Longrightarrow> i \<le> cp_Cursor cp"
      using assms(1) \<open>ws_cp st = Some cp\<close> Some by (simp add: watch_inv_def)
    then show ?thesis using \<open>ws_cp st = Some cp\<close> Some cur assms(2) by (simp add: watch_inv_def q_BeginDrain_def)
  qed
qed (simp add: watch_inv_def q_BeginDrain_def)

lemma beginDrain_inv:
  assumes "beginDrain e e' p = (err, p')" "stays i path e" "stays i path e'" "0 < i" "watch_inv bnd i path (po_state p)"
  shows "watch_inv bnd i path (po_state p') \<and> (err = None \<longrightarrow> watch_inv True i path (po_state p'))"
proof -
  obtain err1 p1 where r1: "refreshSource e p = (err1, p1)" by fastforce
  note inv1 = refreshSource_inv [OF r1 assms(4,2,5)]
  have bd: "watch_inv True i path (q_BeginDrain (fst (latest rows)) (po_state p1))" if "we_rows e' 0 = Some rows" for rows
    using q_BeginDrain_inv [OF inv1] that assms(3) latest_ge [of i path rows] by (auto simp: stays_def)
  then have "watch_inv bnd i path (q_BeginDrain (fst (latest rows)) (po_state p1))" if "we_rows e' 0 = Some rows" for rows
    using that unfolding watch_inv_def by blast
  then show ?thesis using assms(1) r1 inv1 bd by (auto simp: beginDrain_def split: option.splits if_splits)
qed

lemma initializeState_inv:
  assumes "initializeState e False b a p = (err, p')" "stays i path e" "0 < i" "watch_inv bnd i path (po_state p)"
  shows "watch_inv bnd i path (po_state p')"
  using assms(1,4) validateAnchor_inv [OF _ assms(3,2,4)]
  by (auto simp: initializeState_def split: if_splits option.splits)

lemma watch_step_inv:
  assumes "watch_step w E p p'" "\<And>e. e \<in> E \<Longrightarrow> stays i path e" "0 < i" "watch_inv False i path (po_state p)"
  shows "watch_inv False i path (po_state p') \<or> (\<exists>e\<in>E. uploaded path e)"
  using assms(1)
proof cases
  case (step_poll ev)
  then have "\<And>k. ev k \<in> E" by auto
  then show ?thesis using poll_inv [of i path ev False p w] assms(2-4) step_poll(1) by blast
next
  case (step_round ev)
  then have "\<And>k. ev k \<in> E" by auto
  then show ?thesis using finish_round_inv [where w = w and ev = ev and p = p and i = i and path = path and bnd = False, OF prod.collapse [symmetric]] assms(2-4) step_round(1) by blast
next
  case (step_begin e e')
  then show ?thesis using beginDrain_inv [where e = e and e' = e' and p = p and i = i and path = path and bnd = False, OF prod.collapse [symmetric]] assms(2-4) by blast
next
  case (step_complete e)
  then show ?thesis using complete_inv [where e = e and p = p and i = i and path = path and bnd = False, OF prod.collapse [symmetric]] assms(4) by simp
next
  case (step_restart e b a source)
  then show ?thesis using initializeState_inv [where e = e and b = b and a = a and i = i and path = path and bnd = False, OF prod.collapse [symmetric]] assms(2-4) by simp
qed

interpretation watch_run: step_invariant "watch_step w E"
    "\<lambda>p. (\<forall>e\<in>E. stays i path e) \<and> 0 < i \<longrightarrow> watch_inv False i path (po_state p) \<or> (\<exists>e\<in>E. uploaded path e)"
  for w E i path
  by unfold_locales (use watch_step_inv in blast)

lemma watch_reach_inv:
  assumes "(watch_step w E)\<^sup>*\<^sup>* p p'" "\<And>e. e \<in> E \<Longrightarrow> stays i path e" "0 < i" "watch_inv False i path (po_state p)"
  shows "watch_inv False i path (po_state p') \<or> (\<exists>e\<in>E. uploaded path e)"
  using watch_run.reach [OF assms(1)] assms(2-4) by blast

text \<open>What a drain that ends without an error has done.\<close>

lemma finish_delivers:
  assumes "\<forall>e\<in>E. stays i path e" and "0 < i" and "watch_inv False i path (po_state p)"
    and "(watch_step w E)\<^sup>*\<^sup>* p p'" and "range ev \<subseteq> E" and "\<forall>n. range (evs n) \<subseteq> E"
    and "watch_finish fuel w ev evs p' = Some (None, p'')"
  shows "((\<exists>e\<in>E. uploaded path e) \<or> (\<exists>r\<in>set (ws_pending (po_state p'')). p_Path r = path \<and> p_Expired r \<noteq> 0)) \<and>
    \<not> q_HasPending (po_state p'') \<and>
    (\<exists>cp''. ws_cp (po_state p'') = Some cp'' \<and> cp_Boundary cp'' = None \<and> cp_LastGeneration cp'' = cp_Generation cp'' \<and>
       cp_LastExpired cp'' \<le> 0)"
proof -
  have E: "\<And>k. stays i path (ev k)" "\<And>n k. stays i path (evs n k)" using assms(1,5,6) by blast+
  obtain p1 p3 where r1: "beginDrain (ev 0) (ev 1) p' = (None, p1)" and loop: "finish_loop fuel w evs (p1\<lparr>po_draining := True\<rparr>) = Some (None, p3)"
    and compl: "complete (ev 3) p3 = ((True, None), p'')"
    using assms(7) by (auto simp: watch_finish_def Let_def split: prod.splits option.splits bool.splits)
  obtain cp3 b where cp3: "ws_cp (po_state p3) = Some cp3" "cp_Boundary cp3 = Some b" "cp_DrainDiscovered cp3 \<noteq> 0" "\<not> 0 < cp_Expired cp3"
    and none: "\<not> q_HasPending (po_state p3)" and p'': "po_state p'' = q_EndDrain (po_state p3)"
    using compl by (auto simp: complete_def read_cp_def Let_def split: sum.splits if_splits option.splits)
  have same: "ws_pending (po_state p'') = ws_pending (po_state p3)" by (simp add: p'' q_EndDrain_def upd_cp_def)
  have delivered: "(\<exists>e\<in>E. uploaded path e) \<or> path \<in> set (paths (po_state p3))"
  proof (rule disjCI)
    assume "path \<notin> set (paths (po_state p3))"
    then have out: "\<not> watch_inv True i path (po_state p3)" using cp3 unfolding watch_inv_def by fastforce
    from watch_reach_inv [OF assms(4) _ assms(2,3)]
    show "\<exists>e\<in>E. uploaded path e"
    proof (rule disjE)
      assume "watch_inv False i path (po_state p')"
      then have "watch_inv True i path (po_state (p1\<lparr>po_draining := True\<rparr>))" using beginDrain_inv [OF r1 E(1,1) assms(2)] by simp
      from finish_loop_inv [OF loop E(2) assms(2) this] out have "\<exists>n k. uploaded path (evs n k)" by blast
      then show ?thesis using assms(6) by blast
    qed (use assms(1) in auto)
  qed
  then have "(\<exists>e\<in>E. uploaded path e) \<or> (\<exists>r\<in>set (ws_pending (po_state p'')). p_Path r = path \<and> p_Expired r \<noteq> 0)"
    using none unfolding same q_HasPending_def by (auto simp: paths_def list_ex_iff)
  then show ?thesis using none cp3 same by (auto simp: q_HasPending_def p'' q_EndDrain_def upd_cp_def)
qed

section \<open>A concrete watcher\<close>

definition example_watcher :: Watcher where
  "example_watcher = \<lparr>RetryBackoffBase = 0, RetryBackoffMax = 0, RetryMaxAge = 0, RetryQueueSize = 0, hasReport = True\<rparr>"

definition example_wenv :: "(string list \<Rightarrow> string list \<times> bool) \<Rightarrow> wenv" where
  "example_wenv copy =
     \<lparr>we_stat = (\<lambda>_. Some ''8:42''), we_open = True, we_rows = (\<lambda>_. Some [(1, ''old''), (5, ''new'')]), we_fail = (\<lambda>_. False),
      we_now = 10 ^ 9, we_later = 2 * 10 ^ 9, we_copy = copy, we_backoff = (\<lambda>init _ _. init), we_reportFails = False\<rparr>"

definition example_poller :: poller where
  "example_poller =
     \<lparr>po_statePath = ''/state'', po_state = q_Initialize 1 ''old'' ''8:42'' \<lparr>ws_cp = None, ws_pending = []\<rparr>, po_source = ''8:42'',
      po_dbFailures = 0, po_cleanupCursor = [], po_more = False, po_draining = False\<rparr>"

definition example_fails :: "string list \<Rightarrow> string list \<times> bool" where "example_fails names = (names, True)"

definition example_works :: "string list \<Rightarrow> string list \<times> bool" where "example_works names = ([], False)"

lemma example_stays: "stays 5 ''new'' (example_wenv copy)"
  by (simp add: stays_def example_wenv_def)

lemma example_poller_cp:
  "\<exists>cp. ws_cp (po_state example_poller) = Some cp \<and> cp_Cursor cp = 1 \<and> cp_Boundary cp = None"
  by (simp add: example_poller_def q_Initialize_def)

lemma example_drain:
  "\<exists>p'. watch_finish 10 example_watcher (\<lambda>_. example_wenv example_works) (\<lambda>_ _. example_wenv example_works) example_poller = Some (None, p')"
proof -
  have "map_option fst (watch_finish 10 example_watcher (\<lambda>_. example_wenv example_works) (\<lambda>_ _. example_wenv example_works) example_poller) = Some None"
    by code_simp
  then show ?thesis by (auto simp: map_option_eq_Some)
qed

section \<open>Properties\<close>

text \<open>
  C34: no path is passed over.  Take any run of the watcher (polls, drains and restarts, with any
  failures of either database, of the uploader and of the clock in between, and even replacements of the
  database file) that starts with the cursor before some row of the Nix database, and suppose the row stays
  there.  Then at any time the cursor has not reached the row yet, or its path is in the durable queue, or
  the uploader was given it and did not report it as failed.
\<close>

theorem no_path_passed_over:
  assumes "\<forall>e\<in>E. stays i path e" and "0 < i" and "ws_cp (po_state p) = Some cp" and "cp_Cursor cp < i" and "cp_Boundary cp = None"
    and "(watch_step w E)\<^sup>*\<^sup>* p p'" and "ws_cp (po_state p') = Some cp'"
  shows "cp_Cursor cp' < i \<or> path \<in> set (paths (po_state p')) \<or> (\<exists>e\<in>E. uploaded path e)"
proof -
  have "watch_inv False i path (po_state p)" using assms(3-5) by (simp add: watch_inv_def)
  from watch_reach_inv [OF assms(6) _ assms(2) this] show ?thesis using assms(1,7) by (auto simp: watch_inv_def)
qed

theorem no_path_passed_over_witness:
  "''new'' \<in> set (paths (po_state (snd (poll (\<lambda>_. example_wenv example_fails) example_watcher example_poller))))"
proof -
  let ?e = "example_wenv example_fails"
  let ?p = "snd (poll (\<lambda>_. ?e) example_watcher example_poller)"
  obtain cp where cp: "ws_cp (po_state example_poller) = Some cp" "cp_Cursor cp = 1" "cp_Boundary cp = None"
    using example_poller_cp by blast
  have step: "(watch_step example_watcher {?e})\<^sup>*\<^sup>* example_poller ?p"
    by (rule r_into_rtranclp, rule step_poll) simp
  have "map_option cp_Cursor (ws_cp (po_state ?p)) = Some 5" by code_simp
  then obtain cp' where cp': "ws_cp (po_state ?p) = Some cp'" "cp_Cursor cp' = 5" by (auto simp: map_option_eq_Some)
  have "\<not> uploaded ''new'' ?e" by (simp add: uploaded_def copy_failed_def example_wenv_def example_fails_def)
  then show ?thesis
    using no_path_passed_over [OF _ _ cp(1) _ cp(3) step cp'(1), of 5 "''new''"] example_stays cp(2) cp'(2) by simp
qed

text \<open>
  C35: a drain that reports success is complete.  If, after any such run, \<^verbatim>\<open>finish\<close> returns no error,
  then every row that was in the Nix database all along has been uploaded, or its path is recorded as
  expired in the queue; nothing else is pending, no path expired since the last drain, and the drain is
  recorded as ended.
\<close>

theorem finished_drain_delivered:
  assumes "\<forall>e\<in>E. stays i path e" and "0 < i" and "ws_cp (po_state p) = Some cp" and "cp_Cursor cp < i" and "cp_Boundary cp = None"
    and "(watch_step w E)\<^sup>*\<^sup>* p p'" and "range ev \<subseteq> E" and "\<forall>n. range (evs n) \<subseteq> E"
    and "watch_finish fuel w ev evs p' = Some (None, p'')"
  shows "((\<exists>e\<in>E. uploaded path e) \<or> (\<exists>r\<in>set (ws_pending (po_state p'')). p_Path r = path \<and> p_Expired r \<noteq> 0)) \<and>
    \<not> q_HasPending (po_state p'') \<and>
    (\<exists>cp''. ws_cp (po_state p'') = Some cp'' \<and> cp_Boundary cp'' = None \<and> cp_LastGeneration cp'' = cp_Generation cp'' \<and>
       cp_LastExpired cp'' \<le> 0)"
  using finish_delivers [OF assms(1,2) _ assms(6-9)] assms(3-5) by (simp add: watch_inv_def)

theorem finished_drain_delivered_witness:
  "\<exists>p''. watch_finish 10 example_watcher (\<lambda>_. example_wenv example_works) (\<lambda>_ _. example_wenv example_works) example_poller = Some (None, p'') \<and>
     \<not> q_HasPending (po_state p'')"
proof -
  obtain p'' where f: "watch_finish 10 example_watcher (\<lambda>_. example_wenv example_works) (\<lambda>_ _. example_wenv example_works) example_poller = Some (None, p'')"
    using example_drain by blast
  obtain cp where cp: "ws_cp (po_state example_poller) = Some cp" "cp_Cursor cp = 1" "cp_Boundary cp = None"
    using example_poller_cp by blast
  show ?thesis
    using finished_drain_delivered [OF _ _ cp(1) _ cp(3) rtranclp.rtrancl_refl _ _ f, of "{example_wenv example_works}" 5 "''new''"]
      example_stays cp(2) f by auto
qed

end
