(* ===== verification/WatchDrain.thy ===== *)
theory WatchDrain
  imports WatchInv
begin

text \<open>
  The final drain of \<^verbatim>\<open>watch/retry.go\<close> ends when its surroundings keep still: every round finds new rows,
  notices that there are none left, or takes up some path for the last time.
\<close>

section \<open>Steady surroundings\<close>

definition steady :: "(int \<times> string) list \<Rightarrow> string \<Rightarrow> wenv \<Rightarrow> bool" where
  "steady rows src e \<longleftrightarrow> (\<forall>k. we_stat e k = Some src \<and> we_rows e k = Some rows \<and> \<not> we_fail e k) \<and> we_open e \<and> \<not> we_reportFails e"

definition good_rows :: "(int \<times> string) list \<Rightarrow> bool" where
  "good_rows rows \<longleftrightarrow> distinct (map fst rows) \<and> (\<forall>(i, path)\<in>set rows. 0 < i \<and> path \<noteq> [])"

definition anchored :: "(int \<times> string) list \<Rightarrow> string \<Rightarrow> poller \<Rightarrow> checkpoint \<Rightarrow> bool" where
  "anchored rows src p cp \<longleftrightarrow> po_source p = src \<and> ws_cp (po_state p) = Some cp \<and> cp_Source cp = src \<and>
     (cp_Cursor cp = 0 \<or> 0 < cp_Cursor cp \<and> map_of rows (cp_Cursor cp) = Some (cp_Anchor cp) \<and> cp_Anchor cp \<noteq> [])"

lemma refreshSource_anchored:
  assumes "steady rows src e" "anchored rows src p cp"
  shows "refreshSource e p = (None, p)"
  using assms by (auto simp: steady_def anchored_def refreshSource_def read_cp_def validateAnchor_def anchor_path_def)

lemma refreshSource_steady:
  assumes "steady rows src e" "good_rows rows" "ws_cp (po_state p) = Some cp"
  shows "\<exists>p' cp'. refreshSource e p = (None, p') \<and> anchored rows src p' cp' \<and> ws_pending (po_state p') = ws_pending (po_state p) \<and>
    cp_Generation cp' = cp_Generation cp \<and> (cp_Boundary cp' = None \<longleftrightarrow> cp_Boundary cp = None)"
proof -
  obtain p1 where p1: "(if src \<noteq> po_source p then openSource e p else (None, p)) = (None, p1)" "po_source p1 = src" "po_state p1 = po_state p"
    using assms(1) by (cases "src = po_source p") (auto simp: steady_def openSource_def)
  obtain path where path: "anchor_path e cp = Some path" using assms(1) by (cases "0 < cp_Cursor cp") (auto simp: anchor_path_def steady_def)
  have fresh: "refreshSource e p = validateAnchor e cp p1"
    using assms(1,3) p1 by (simp add: refreshSource_def steady_def read_cp_def)
  show ?thesis
  proof (cases "cp_Source cp = src \<and> (cp_Cursor cp = 0 \<or> cp_Anchor cp = path \<and> path \<noteq> [])")
    case True
    then have "anchored rows src p1 cp"
      using path p1 assms(1,3) by (auto simp: anchored_def anchor_path_def steady_def split: if_splits option.splits)
    then show ?thesis using fresh True path p1 by (auto simp: validateAnchor_def)
  next
    case False
    obtain st where st: "replay e src cp (po_state p) = (None, st)"
      using assms(1) by (cases "cp_Source cp \<noteq> src \<and> cp_Boundary cp \<noteq> None") (auto simp: replay_def steady_def)
    then have "validateAnchor e cp p1 = (None, p1\<lparr>po_state := st\<rparr>)"
      using False path p1 assms(1) by (auto simp: validateAnchor_def Transaction_def steady_def)
    moreover have "\<exists>cp'. ws_cp st = Some cp' \<and> cp_Source cp' = src \<and> cp_Cursor cp' = 0 \<and> cp_Generation cp' = cp_Generation cp \<and>
        (cp_Boundary cp' = None \<longleftrightarrow> cp_Boundary cp = None) \<and> ws_pending st = ws_pending (po_state p)"
      using st assms(1,3) by (auto simp: replay_def q_Advance_def q_ReconcileBoundary_def upd_cp_def steady_def split: if_splits)
    ultimately show ?thesis using fresh p1 by (fastforce simp: anchored_def)
  qed
qed

section \<open>What a round gets done\<close>

definition unfinished :: "int \<Rightarrow> wstate \<Rightarrow> string set" where
  "unfinished g st = p_Path ` {r \<in> set (ws_pending st). p_Expired r = 0 \<and> p_FinalGeneration r < g}"

definition remaining :: "(int \<times> string) list \<Rightarrow> checkpoint \<Rightarrow> int set" where
  "remaining rows cp = {i \<in> fst ` set rows. cp_Cursor cp < i \<and> (case cp_Boundary cp of None \<Rightarrow> False | Some b \<Rightarrow> i \<le> b)}"

definition drain_left :: "(int \<times> string) list \<Rightarrow> checkpoint \<Rightarrow> wstate \<Rightarrow> nat" where
  "drain_left rows cp st =
     2 * card (remaining rows cp) + (if cp_DrainDiscovered cp = 0 then 1 else 0) + card (unfinished (cp_Generation cp) st)"

lemma finite_left [simp]: "finite (unfinished g st)" "finite (remaining rows cp)"
  by (simp_all add: unfinished_def remaining_def)

lemma unfinished_upd_cp [simp]: "unfinished g (upd_cp f st) = unfinished g st"
  by (simp add: unfinished_def upd_cp_def)

lemma unfinished_Discover: "unfinished g (q_Discover path i s st) \<subseteq> insert path (unfinished g st)"
  by (auto simp: unfinished_def q_Discover_def upd_row_def rediscover_def Let_def split: if_splits)

lemma unfinished_Discovers: "unfinished g (foldl (\<lambda>s (i, path). q_Discover path i src s) st ps) \<subseteq> snd ` set ps \<union> unfinished g st"
proof (induction ps arbitrary: st)
  case (Cons q ps)
  obtain i path where q: "q = (i, path)" by fastforce
  show ?case using Cons.IH [of "q_Discover path i src st"] unfinished_Discover [of g path i src st] unfolding q by auto
qed simp

text \<open>An update of the rows of a path that leaves none of them unfinished, or finishes none.\<close>

lemma unfinished_upd_row:
  assumes "\<And>r. p_Path (f r) = p_Path r"
  shows "(\<And>r. \<not> (p_Expired (f r) = 0 \<and> p_FinalGeneration (f r) < g)) \<Longrightarrow> unfinished g (upd_row path f st) \<subseteq> unfinished g st - {path}"
    and "(\<And>r. p_Expired (f r) = p_Expired r \<and> p_FinalGeneration (f r) = p_FinalGeneration r) \<Longrightarrow>
           unfinished g (upd_row path f st) \<subseteq> unfinished g st"
proof -
  have ex: "\<exists>r\<in>set (ws_pending st). x = p_Path r \<and>
      (p_Path r = path \<and> p_Expired (f r) = 0 \<and> p_FinalGeneration (f r) < g \<or> p_Path r \<noteq> path \<and> p_Expired r = 0 \<and> p_FinalGeneration r < g)"
    if x: "x \<in> unfinished g (upd_row path f st)" for x
  proof -
    obtain r' where r': "r' \<in> set (ws_pending (upd_row path f st))" "x = p_Path r'" "p_Expired r' = 0 \<and> p_FinalGeneration r' < g"
      using x unfolding unfinished_def by blast
    then obtain r where r: "r \<in> set (ws_pending st)" "r' = (if p_Path r = path then f r else r)" by (auto simp: upd_row_def)
    have "p_Path r' = p_Path r" unfolding r(2) using assms by simp
    then have "x = p_Path r \<and> (p_Path r = path \<and> p_Expired (f r) = 0 \<and> p_FinalGeneration (f r) < g \<or>
        p_Path r \<noteq> path \<and> p_Expired r = 0 \<and> p_FinalGeneration r < g)"
      using r'(2,3) r(2) by (cases "p_Path r = path") simp_all
    then show ?thesis using r(1) by blast
  qed
  have mem: "p_Path r \<in> unfinished g st" if "r \<in> set (ws_pending st)" "p_Expired r = 0" "p_FinalGeneration r < g" for r
    using that unfolding unfinished_def by blast
  show "unfinished g (upd_row path f st) \<subseteq> unfinished g st - {path}"
    if none: "\<And>r. \<not> (p_Expired (f r) = 0 \<and> p_FinalGeneration (f r) < g)"
  proof
    fix x assume "x \<in> unfinished g (upd_row path f st)"
    from ex [OF this] show "x \<in> unfinished g st - {path}" using none mem by blast
  qed
  show "unfinished g (upd_row path f st) \<subseteq> unfinished g st"
    if same: "\<And>r. p_Expired (f r) = p_Expired r \<and> p_FinalGeneration (f r) = p_FinalGeneration r"
  proof
    fix x assume "x \<in> unfinished g (upd_row path f st)"
    from ex [OF this] show "x \<in> unfinished g st" using same mem by auto
  qed
qed

lemma unfinished_shrink:
  "unfinished g (q_Retire path st) \<subseteq> unfinished g st - {path}"
  "unfinished g (q_Retry path t k st) \<subseteq> unfinished g st"
  "unfinished g (q_Expire (q_MarkExpired path st)) \<subseteq> unfinished g st - {path}"
  "unfinished g (q_MarkFinal path g st) \<subseteq> unfinished g st - {path}"
proof -
  show "unfinished g (q_Retire path st) \<subseteq> unfinished g st - {path}" by (auto simp: unfinished_def q_Retire_def)
  show "unfinished g (q_Retry path t k st) \<subseteq> unfinished g st" unfolding q_Retry_def by (rule unfinished_upd_row(2)) simp_all
  show "unfinished g (q_Expire (q_MarkExpired path st)) \<subseteq> unfinished g st - {path}"
    unfolding q_Expire_def q_MarkExpired_def unfinished_upd_cp by (rule unfinished_upd_row(1)) simp_all
  show "unfinished g (q_MarkFinal path g st) \<subseteq> unfinished g st - {path}" unfolding q_MarkFinal_def by (rule unfinished_upd_row(1)) simp_all
qed

lemma prepare_loop_unfinished:
  assumes "0 < g" "\<forall>it\<in>set items. p_Expired it = 0"
  shows "unfinished g (snd (prepare_loop w now g live items active st)) \<subseteq> unfinished g st - p_Path ` set items"
  using assms(2)
proof (induction items arbitrary: active st)
  case (Cons it items)
  have IH: "unfinished g (snd (prepare_loop w now g live items a s)) \<subseteq> unfinished g s - p_Path ` set items" for a s
    using Cons by simp
  have "\<exists>a s. prepare_loop w now g live (it # items) active st = prepare_loop w now g live items a s \<and> unfinished g s \<subseteq> unfinished g st - {p_Path it}"
    using unfinished_shrink(1,3,4) [of g "p_Path it" st] Cons.prems assms(1) by (cases "p_Path it \<in> set live") (auto intro!: exI)
  then obtain a s where "prepare_loop w now g live (it # items) active st = prepare_loop w now g live items a s"
    "unfinished g s \<subseteq> unfinished g st - {p_Path it}" by blast
  then show ?case using IH [of a s] by auto
qed simp

lemma settle_unfinished: "unfinished g (settle w e failed active st) \<subseteq> unfinished g st"
proof (induction active arbitrary: st)
  case (Cons it active)
  let ?s1 = "if p_Path it \<in> set failed
     then q_Retry (p_Path it) (UnixMilli (we_later e)) (UnixMilli (we_later e + retryDelay (we_backoff e) w (p_Attempts it + 1))) st else q_Retire (p_Path it) st"
  have "settle w e failed (it # active) st = settle w e failed active ?s1" by (simp add: settle_def)
  moreover have "unfinished g ?s1 \<subseteq> unfinished g st" using unfinished_shrink(1,2) [of g "p_Path it"] by (auto split: if_splits)
  ultimately show ?case using Cons.IH [of ?s1] by simp
qed (simp add: settle_def)

lemma newValidPaths_steady:
  assumes good: "good_rows rows" and new: "newValidPaths rows c b limit = (ps, c')" and ne: "ps \<noteq> []"
  shows "c' = fst (last ps) \<and> map_of rows c' = Some (snd (last ps)) \<and> snd (last ps) \<noteq> [] \<and> c < c' \<and> 0 < c'"
    and "fst ` set ps \<subseteq> {i \<in> fst ` set rows. c < i \<and> i \<le> b \<and> i \<le> c'}" and "card (fst ` set ps) = length ps"
proof -
  let ?xs = "sort_key fst (filter (\<lambda>(i, _). c < i \<and> i \<le> b) rows)"
  have ps: "ps = take limit ?xs" and c': "c' = foldl (\<lambda>m (i, _). max m i) c ps" using new by (auto simp: newValidPaths_def Let_def)
  have sub: "set ps \<subseteq> {(i, q) \<in> set rows. c < i \<and> i \<le> b}" unfolding ps using set_take_subset [of limit ?xs] by auto
  have sorted: "sorted (map fst ps)" unfolding ps take_map [symmetric] by (rule sorted_wrt_take) simp
  have max: "sorted (map fst qs) \<Longrightarrow> \<forall>q\<in>set qs. m \<le> fst q \<Longrightarrow> qs \<noteq> [] \<Longrightarrow> foldl (\<lambda>m (i, _). max m i) m qs = fst (last qs)"
    for m and qs :: "(int \<times> string) list"
    by (induction qs arbitrary: m) (auto simp: max_def split: if_splits prod.splits)
  have last: "last ps \<in> set ps" using ne by simp
  have c'_last: "c' = fst (last ps)" unfolding c' by (rule max [OF sorted _ ne]) (use sub in auto)
  have le: "fst q \<le> c'" if q: "q \<in> set ps" for q
  proof -
    obtain k where "k < length ps" "ps ! k = q" using q by (metis in_set_conv_nth)
    then show ?thesis using sorted_nth_mono [OF sorted, of k "length ps - 1"] ne by (simp add: c'_last last_conv_nth)
  qed
  have "map_of rows (fst (last ps)) = Some (snd (last ps))"
    using good last sub by (auto simp: good_rows_def)
  then show "c' = fst (last ps) \<and> map_of rows c' = Some (snd (last ps)) \<and> snd (last ps) \<noteq> [] \<and> c < c' \<and> 0 < c'"
    using good last sub by (auto simp: good_rows_def c'_last)
  show "fst ` set ps \<subseteq> {i \<in> fst ` set rows. c < i \<and> i \<le> b \<and> i \<le> c'}" using sub le by force
  have "distinct (map fst ps)"
  proof -
    have "distinct (map fst (filter (\<lambda>(i, _). c < i \<and> i \<le> b) rows))" using good by (simp add: good_rows_def distinct_map_filter)
    then have "distinct (map fst ?xs)" by (simp add: distinct_map)
    then show ?thesis unfolding ps take_map [symmetric] by (rule distinct_take)
  qed
  then show "card (fst ` set ps) = length ps" by (metis distinct_card length_map set_map)
qed

text \<open>Discovery in a drain: nothing to do, the end of the rows, or some rows fewer.\<close>

lemma discover_steady:
  assumes steady: "steady rows src e" and good: "good_rows rows" and anc: "anchored rows src p cp" and b: "cp_Boundary cp = Some b"
  shows "\<exists>p' cp'. discover w e p = (None, p') \<and> anchored rows src p' cp' \<and> cp_Boundary cp' = Some b \<and> cp_Generation cp' = cp_Generation cp \<and>
    (cp_DrainDiscovered cp \<noteq> 0 \<and> p' = p \<and> cp' = cp \<or> drain_left rows cp' (po_state p') < drain_left rows cp (po_state p))"
proof (cases "cp_DrainDiscovered cp = 0")
  case False
  then show ?thesis using steady anc b by (auto simp: discover_def read_cp_def anchored_def steady_def)
next
  case True
  obtain ps c where new: "newValidPaths rows (cp_Cursor cp) b (nat (min pollLimit (orInt (RetryQueueSize w) pollLimit))) = (ps, c)" by fastforce
  let ?st = "discovered (po_source p) cp ps c (po_state p)" and ?g = "cp_Generation cp"
  have cp: "ws_cp (po_state p) = Some cp" and src: "po_source p = src" using anc by (simp_all add: anchored_def)
  have disc: "discover w e p = (None, p\<lparr>po_more := (ps \<noteq> []), po_state := ?st\<rparr>)"
    using True steady b new cp by (simp add: discover_def read_cp_def steady_def Transaction_def)
  show ?thesis
  proof (cases "ps = []")
    case True
    define cp' where "cp' = cp\<lparr>cp_DrainDiscovered := 1\<rparr>"
    have st: "ws_cp ?st = Some cp'" "unfinished g ?st = unfinished g (po_state p)" for g
      using True b cp by (simp_all add: discovered_def q_Discovered_def cp'_def)
    have "anchored rows src (p\<lparr>po_more := (ps \<noteq> []), po_state := ?st\<rparr>) cp'" using anc st by (simp add: anchored_def cp'_def)
    moreover have "drain_left rows cp' ?st < drain_left rows cp (po_state p)"
      using \<open>cp_DrainDiscovered cp = 0\<close> unfolding drain_left_def remaining_def st by (simp add: cp'_def)
    ultimately show ?thesis using disc b by (auto simp: cp'_def)
  next
    case False
    note nv = newValidPaths_steady [OF good new False]
    define cp' where "cp' = cp\<lparr>cp_Cursor := c, cp_Anchor := snd (last ps), cp_Source := src, cp_DrainDiscovered := 0\<rparr>"
    have st: "ws_cp ?st = Some cp'" using False b cp src by (simp add: discovered_def q_Advance_def cp'_def)
    have anc': "anchored rows src (p\<lparr>po_more := (ps \<noteq> []), po_state := ?st\<rparr>) cp'"
      using conjunct2 [OF nv(1)] st src by (simp add: anchored_def cp'_def)
    have "unfinished ?g ?st \<subseteq> snd ` set ps \<union> unfinished ?g (po_state p)"
      using False unfinished_Discovers [of ?g src "po_state p" ps] by (simp add: discovered_def q_Advance_def src)
    then have "card (unfinished ?g ?st) \<le> card (snd ` set ps \<union> unfinished ?g (po_state p))" by (intro card_mono) simp_all
    also have "\<dots> \<le> card (snd ` set ps) + card (unfinished ?g (po_state p))" by (rule card_Un_le)
    also have "card (snd ` set ps) \<le> length ps" using card_image_le [of "set ps" snd] card_length [of ps] by simp
    finally have F: "card (unfinished ?g ?st) \<le> length ps + card (unfinished ?g (po_state p))" by simp
    have "remaining rows cp' \<subseteq> remaining rows cp - fst ` set ps"
      using nv(1,2) b by (fastforce simp: remaining_def cp'_def)
    then have "card (remaining rows cp') \<le> card (remaining rows cp - fst ` set ps)" by (intro card_mono) simp_all
    also have "\<dots> = card (remaining rows cp) - length ps"
      using nv(2) b by (subst card_Diff_subset) (auto simp: nv(3) remaining_def)
    finally have R: "card (remaining rows cp') \<le> card (remaining rows cp) - length ps" .
    have "length ps \<le> card (remaining rows cp)"
      unfolding nv(3) [symmetric] using nv(2) b by (intro card_mono) (auto simp: remaining_def)
    then have "drain_left rows cp' ?st < drain_left rows cp (po_state p)"
      using F R False \<open>cp_DrainDiscovered cp = 0\<close> unfolding drain_left_def by (cases ps) (auto simp: cp'_def)
    then show ?thesis using disc anc' b by (auto simp: cp'_def)
  qed
qed

lemma anchored_same:
  assumes "anchored rows src p cp" "same_cp (po_state p) (po_state p')" "po_source p' = po_source p"
  shows "\<exists>cp'. anchored rows src p' cp' \<and> cp_Boundary cp' = cp_Boundary cp \<and> cp_Generation cp' = cp_Generation cp \<and>
    cp_DrainDiscovered cp' = cp_DrainDiscovered cp \<and> remaining rows cp' = remaining rows cp"
proof -
  have cp: "ws_cp (po_state p) = Some cp" using assms(1) by (simp add: anchored_def)
  obtain cp' where "ws_cp (po_state p') = Some cp'" "cp_Cursor cp' = cp_Cursor cp" "cp_Anchor cp' = cp_Anchor cp" "cp_Source cp' = cp_Source cp"
    "cp_Boundary cp' = cp_Boundary cp" "cp_DrainDiscovered cp' = cp_DrainDiscovered cp" "cp_Generation cp' = cp_Generation cp"
    using assms(2) cp unfolding same_cp_def by auto
  then show ?thesis using assms(1,3) by (auto simp: anchored_def remaining_def)
qed

lemma q_Final_items:
  "it \<in> set (q_Final g limit st) \<Longrightarrow> p_Expired it = 0 \<and> p_FinalGeneration it < g \<and> it \<in> set (ws_pending st)"
  unfolding q_Final_def by (auto dest: in_set_takeD)

text \<open>A batch of the drain takes up every path of it for the last time, whatever the uploader makes of it.\<close>

lemma attempt_steady:
  assumes steady: "steady rows src e" and anc: "anchored rows src p cp" and g: "0 < cp_Generation cp"
    and items: "items = q_Final (cp_Generation cp) limit (po_state p)"
  shows "\<exists>p' cp'. attempt w e items (cp_Generation cp) p = (None, p') \<and> anchored rows src p' cp' \<and> cp_Boundary cp' = cp_Boundary cp \<and>
    cp_Generation cp' = cp_Generation cp \<and> (items = [] \<and> p' = p \<and> cp' = cp \<or> drain_left rows cp' (po_state p') < drain_left rows cp (po_state p))"
proof (cases "items = []")
  case False
  let ?g = "cp_Generation cp"
  obtain active st where loop: "prepare_loop w (we_now e) ?g (livePaths (we_rows e 0) (map p_Path items)) items [] (po_state p) = (active, st)" by fastforce
  have un: "unfinished ?g st \<subseteq> unfinished ?g (po_state p) - p_Path ` set items"
    using prepare_loop_unfinished [OF g, of items w "we_now e" _ "[]" "po_state p"] loop q_Final_items unfolding items by (metis snd_conv)
  have same: "same_cp (po_state p) st" using prepare_loop_cp [of "po_state p" w "we_now e" ?g _ items "[]"] loop by (metis snd_conv)
  define st' where "st' = (if active = [] then st else settle w e (copy_failed e (map p_Path active)) active st)"
  have att: "attempt w e items ?g p = (None, p\<lparr>po_state := st'\<rparr>)"
    using False steady loop by (simp add: attempt_def prepare_def steady_def Transaction_def st'_def)
  have "unfinished ?g st' \<subseteq> unfinished ?g (po_state p) - p_Path ` set items"
    using un settle_unfinished [of ?g w e _ active st] unfolding st'_def by (auto split: if_splits)
  moreover have "hd items \<in> set items" using False by simp
  then have "p_Path (hd items) \<in> unfinished ?g (po_state p)"
    using q_Final_items unfolding items unfinished_def by blast
  ultimately have "unfinished ?g st' \<subset> unfinished ?g (po_state p)" using \<open>hd items \<in> set items\<close> by blast
  then have less: "card (unfinished ?g st') < card (unfinished ?g (po_state p))" by (intro psubset_card_mono) simp_all
  have "same_cp (po_state p) (po_state (p\<lparr>po_state := st'\<rparr>))"
    using same_cp_trans [OF same, of st'] same by (simp add: st'_def)
  from anchored_same [OF anc this] show ?thesis using att less unfolding drain_left_def by fastforce
qed (use assms in \<open>auto simp: attempt_def\<close>)

lemma cleanup_page_steady:
  assumes "steady rows src e"
  shows "\<exists>c p'. cleanup_page w e cursor p = (Inr c, p') \<and> same_cp (po_state p) (po_state p') \<and> po_source p' = po_source p"
proof (cases "q_PendingPage cursor (batch w) (po_state p)")
  case (Cons it items)
  obtain active st where loop: "prepare_loop w (we_now e) 0 (livePaths (we_rows e 0) (map p_Path (it # items))) (it # items) [] (po_state p) = (active, st)" by fastforce
  then have "same_cp (po_state p) st" using prepare_loop_cp [of "po_state p" w "we_now e" 0 _ "it # items" "[]"] by (metis snd_conv)
  then show ?thesis using assms Cons loop by (auto simp: cleanup_page_def prepare_def steady_def)
qed (use assms in \<open>auto simp: cleanup_page_def steady_def\<close>)

lemma cleanup_all_steady:
  assumes "\<And>k. steady rows src (ev k)"
  shows "\<exists>p'. cleanup_all w ev k cursor p = (None, p') \<and> same_cp (po_state p) (po_state p') \<and> po_source p' = po_source p"
  using assms
proof (induction w ev k cursor p rule: cleanup_all.induct)
  case (1 w ev k cursor p)
  obtain c p1 where page: "cleanup_page w (ev k) cursor p = (Inr c, p1)" "same_cp (po_state p) (po_state p1)" "po_source p1 = po_source p"
    using cleanup_page_steady [OF 1(2)] by blast
  show ?case
  proof (cases c)
    case None
    then show ?thesis using page 1(2) [of k] by (simp add: cleanup_all.simps [of w ev k] steady_def)
  next
    case (Some a)
    from 1(1) [OF page(1) [symmetric] refl Some 1(2)]
    obtain p' where "cleanup_all w ev (k + 1) a p1 = (None, p')" "same_cp (po_state p1) (po_state p')" "po_source p' = po_source p1" by blast
    then show ?thesis using page Some same_cp_trans [OF page(2)] by (simp add: cleanup_all.simps [of w ev k])
  qed
qed

lemma finish_round_steady:
  assumes steady: "\<And>k. steady rows src (ev k)" and good: "good_rows rows" and anc: "anchored rows src p cp" and b: "cp_Boundary cp = Some b"
    and g: "0 < cp_Generation cp"
  shows "\<exists>ready p' cp'. finish_round w ev p = (Inr ready, p') \<and> anchored rows src p' cp' \<and> cp_Boundary cp' = Some b \<and> 0 < cp_Generation cp' \<and>
    (ready \<or> drain_left rows cp' (po_state p') < drain_left rows cp (po_state p))"
proof -
  obtain p2 cp2 where d: "discover w (ev 1) p = (None, p2)" "anchored rows src p2 cp2" "cp_Boundary cp2 = Some b" "cp_Generation cp2 = cp_Generation cp"
    "cp_DrainDiscovered cp \<noteq> 0 \<and> p2 = p \<and> cp2 = cp \<or> drain_left rows cp2 (po_state p2) < drain_left rows cp (po_state p)"
    using discover_steady [OF steady good anc b] by blast
  have cp2: "ws_cp (po_state p2) = Some cp2" using d(2) by (simp add: anchored_def)
  let ?items = "q_Final (cp_Generation cp2) (batch w) (po_state p2)"
  have round: "finish_round w ev p =
      (if ?items = [] \<and> cp_DrainDiscovered cp2 \<noteq> 0 then drainReady w (\<lambda>k. ev (k + 4)) p2
       else case attempt w (ev 3) ?items (cp_Generation cp2) p2 of (Some err, p3) \<Rightarrow> (Inl err, p3) | (None, p3) \<Rightarrow> (Inr False, p3))"
    using steady [of 2] refreshSource_anchored [OF steady anc] d(1) cp2 by (simp add: finish_round_def read_cp_def steady_def Let_def)
  show ?thesis
  proof (cases "?items = [] \<and> cp_DrainDiscovered cp2 \<noteq> 0")
    case True
    obtain p3 where c: "cleanup_all w (\<lambda>k. ev (k + 2 + 4)) 0 [] p2 = (None, p3)" "same_cp (po_state p2) (po_state p3)" "po_source p3 = po_source p2"
      using cleanup_all_steady [of rows src "\<lambda>k. ev (k + 2 + 4)"] steady by blast
    obtain cp3 where cp3: "anchored rows src p3 cp3" "cp_Boundary cp3 = cp_Boundary cp2" "cp_Generation cp3 = cp_Generation cp2"
      "cp_DrainDiscovered cp3 = cp_DrainDiscovered cp2" using anchored_same [OF d(2) c(2,3)] by blast
    have "\<not> we_fail (ev (1 + 4)) 0" using steady [of "1 + 4"] unfolding steady_def by blast
    then have read: "read_cp (we_fail (ev (1 + 4)) 0) p3 = Inr cp3" using cp3(1) unfolding anchored_def read_cp_def by simp
    have "drainReady w (\<lambda>k. ev (k + 4)) p2 = (Inr (cp_DrainDiscovered cp3 \<noteq> 0), p3)"
      unfolding drainReady_def c(1) prod.case option.case refreshSource_anchored [OF steady cp3(1)] read sum.case ..
    then have "finish_round w ev p = (Inr True, p3)" using round True cp3(4) by simp
    moreover have "0 < cp_Generation cp3" "cp_Boundary cp3 = Some b" using cp3(2,3) d(3,4) g by simp_all
    ultimately show ?thesis using cp3(1) by blast
  next
    case False
    obtain p3 cp3 where a: "attempt w (ev 3) ?items (cp_Generation cp2) p2 = (None, p3)" "anchored rows src p3 cp3" "cp_Boundary cp3 = cp_Boundary cp2"
      "cp_Generation cp3 = cp_Generation cp2" "?items = [] \<and> p3 = p2 \<and> cp3 = cp2 \<or> drain_left rows cp3 (po_state p3) < drain_left rows cp2 (po_state p2)"
      using attempt_steady [OF steady d(2) _ refl] g d(4) by metis
    have "finish_round w ev p = (Inr False, p3)" using round False a(1) by simp
    moreover have "drain_left rows cp3 (po_state p3) < drain_left rows cp (po_state p)"
      using a(5) d(5) False by (elim disjE conjE) simp_all
    moreover have "0 < cp_Generation cp3" "cp_Boundary cp3 = Some b" using a(3,4) d(3,4) g by simp_all
    ultimately show ?thesis using a(2) by blast
  qed
qed

lemma finish_loop_steady:
  assumes "\<And>n k. steady rows src (evs n k)" "good_rows rows" "anchored rows src p cp" "cp_Boundary cp = Some b" "0 < cp_Generation cp"
    "drain_left rows cp (po_state p) < fuel"
  shows "\<exists>p' cp'. finish_loop fuel w evs p = Some (None, p') \<and> anchored rows src p' cp'"
  using assms
proof (induction fuel arbitrary: evs p cp)
  case (Suc fuel)
  obtain ready p1 cp1 where r: "finish_round w (evs 0) p = (Inr ready, p1)" "anchored rows src p1 cp1" "cp_Boundary cp1 = Some b" "0 < cp_Generation cp1"
    "ready \<or> drain_left rows cp1 (po_state p1) < drain_left rows cp (po_state p)"
    using finish_round_steady [of rows src "evs 0", OF Suc.prems(1-5)] by blast
  show ?case
  proof (cases ready)
    case False
    then have "drain_left rows cp1 (po_state p1) < fuel" using r(5) Suc.prems(6) by simp
    from Suc.IH [OF Suc.prems(1,2) r(2-4) this] show ?thesis using r(1) False by simp
  qed (use r in auto)
qed simp

lemma drain_left_bound: "drain_left rows cp st \<le> 2 * length rows + 1 + length (ws_pending st)"
proof -
  have "card (remaining rows cp) \<le> card (fst ` set rows)" by (intro card_mono) (auto simp: remaining_def)
  also have "\<dots> \<le> length rows" using card_image_le [of "set rows" fst] card_length [of rows] by simp
  finally have r: "card (remaining rows cp) \<le> length rows" .
  have "card (unfinished g st) \<le> card (set (ws_pending st))" for g
    unfolding unfinished_def by (rule le_trans [OF card_image_le card_mono]) auto
  then have u: "card (unfinished g st) \<le> length (ws_pending st)" for g using card_length [of "ws_pending st"] le_trans by blast
  show ?thesis using r u [of "cp_Generation cp"] unfolding drain_left_def by (auto split: if_splits)
qed

lemma beginDrain_steady:
  assumes "steady rows src e" "steady rows src e'" "good_rows rows" "ws_cp (po_state p) = Some cp" "0 < cp_Generation cp \<or> cp_Generation cp = 0 \<and> cp_Boundary cp = None"
  shows "\<exists>p' cp' b. beginDrain e e' p = (None, p') \<and> anchored rows src p' cp' \<and> cp_Boundary cp' = Some b \<and> 0 < cp_Generation cp' \<and>
    ws_pending (po_state p') = ws_pending (po_state p)"
proof -
  obtain p1 cp1 where r: "refreshSource e p = (None, p1)" "anchored rows src p1 cp1" "ws_pending (po_state p1) = ws_pending (po_state p)"
    "cp_Generation cp1 = cp_Generation cp" "cp_Boundary cp1 = None \<longleftrightarrow> cp_Boundary cp = None"
    using refreshSource_steady [OF assms(1,3,4)] by metis
  let ?p = "p1\<lparr>po_state := q_BeginDrain (fst (latest rows)) (po_state p1)\<rparr>"
  have "we_rows e' 0 = Some rows" "\<not> we_fail e' 0" using assms(2) unfolding steady_def by blast+
  then have begun: "beginDrain e e' p = (None, ?p)" using r(1) by (simp add: beginDrain_def)
  define cp' where "cp' = cp1\<lparr>cp_Boundary := Some (max (case cp_Boundary cp1 of None \<Rightarrow> 0 | Some x \<Rightarrow> x) (fst (latest rows))),
    cp_Generation := cp_Generation cp1 + (if cp_Boundary cp1 = None then 1 else 0),
    cp_DrainDiscovered := (case cp_Boundary cp1 of None \<Rightarrow> 0 | Some x \<Rightarrow> if x < fst (latest rows) then 0 else cp_DrainDiscovered cp1)\<rparr>"
  have cp1: "ws_cp (po_state p1) = Some cp1" using r(2) by (simp add: anchored_def)
  then have "ws_cp (po_state ?p) = Some cp'" by (simp add: q_BeginDrain_def cp'_def)
  then have "anchored rows src ?p cp'" using r(2) unfolding anchored_def by (simp add: cp'_def)
  moreover have "0 < cp_Generation cp'" using assms(5) r(4,5) by (auto simp: cp'_def)
  moreover have "ws_pending (po_state ?p) = ws_pending (po_state p)" using r(3) by (simp add: q_BeginDrain_def upd_cp_def)
  moreover have "\<exists>b. cp_Boundary cp' = Some b" by (simp add: cp'_def)
  ultimately show ?thesis using begun by blast
qed

lemma complete_steady:
  assumes "steady rows src e" "anchored rows src p cp" "complete e p = ((ok, err), p')"
  shows "err = None \<or> (\<exists>n. err = Some (IncompleteExpired n))"
proof -
  have nofail: "\<not> we_fail e k" for k using assms(1) unfolding steady_def by blast
  have "read_cp (we_fail e 0) p = Inr cp" using nofail assms(2) by (simp add: read_cp_def anchored_def)
  then show ?thesis using assms(3) nofail by (auto simp: complete_def Let_def split: if_splits)
qed

section \<open>Property\<close>

text \<open>
  C36: the final drain ends.  While the Nix database and the disk keep still, and whatever the uploader
  does, \<^verbatim>\<open>finish\<close> returns within two rounds per row of the database and one per queued path (and two more),
  also for a drain that an earlier process began; and it succeeds or says that paths are pending or expired.
\<close>

theorem drain_ends:
  assumes "\<forall>k. steady rows src (ev k)" and "\<forall>n k. steady rows src (evs n k)" and "good_rows rows"
    and "ws_cp (po_state p) = Some cp" and "0 < cp_Generation cp \<or> cp_Generation cp = 0 \<and> cp_Boundary cp = None"
    and "2 * length rows + length (ws_pending (po_state p)) + 1 < fuel"
  shows "\<exists>res p'. watch_finish fuel w ev evs p = Some (res, p') \<and>
    (res = None \<or> (\<exists>k. res = Some (IncompletePending k)) \<or> (\<exists>k. res = Some (Incomplete (Some (IncompleteExpired k)))))"
proof -
  note ev = assms(1) [rule_format] and evs = assms(2) [rule_format]
  obtain p1 cp1 b where r: "beginDrain (ev 0) (ev 1) p = (None, p1)" "anchored rows src p1 cp1" "cp_Boundary cp1 = Some b" "0 < cp_Generation cp1"
    "ws_pending (po_state p1) = ws_pending (po_state p)" using beginDrain_steady [OF ev ev assms(3-5)] by blast
  let ?p = "p1\<lparr>po_draining := True\<rparr>"
  have anc: "anchored rows src ?p cp1" using r(2) by (simp add: anchored_def)
  have "\<not> we_fail (ev 2) 0" "\<not> we_fail (ev 2) 1" "\<not> we_reportFails (ev 2)" using ev [of 2] unfolding steady_def by blast+
  then have rep: "report w (ev 2) ?p = None" using anc by (simp add: report_def read_cp_def anchored_def)
  have "drain_left rows cp1 (po_state ?p) < fuel" using drain_left_bound [of rows cp1 "po_state ?p"] assms(6) r(5) by simp
  then obtain p3 cp3 where loop: "finish_loop fuel w evs ?p = Some (None, p3)" "anchored rows src p3 cp3"
    using finish_loop_steady [where evs = evs, OF evs assms(3) anc r(3,4)] by blast
  obtain ok err p4 where c: "complete (ev 3) p3 = ((ok, err), p4)" by (metis prod.collapse)
  note complete_steady [OF ev loop(2) c]
  then show ?thesis
    unfolding watch_finish_def r(1) prod.case option.case Let_def rep loop(1) c by (cases err; cases ok) auto
qed

theorem drain_ends_witness:
  "\<exists>res p'. watch_finish 10 example_watcher (\<lambda>_. example_wenv example_fails) (\<lambda>_ _. example_wenv example_fails) example_poller = Some (res, p')"
proof -
  let ?rows = "[(1, ''old''), (5, ''new'')]"
  obtain cp where cp: "ws_cp (po_state example_poller) = Some cp" "cp_Generation cp = 0" "cp_Boundary cp = None" "ws_pending (po_state example_poller) = []"
    by (auto simp: example_poller_def q_Initialize_def)
  have "steady ?rows ''8:42'' (example_wenv example_fails)" by (simp add: steady_def example_wenv_def)
  moreover have "good_rows ?rows" by (simp add: good_rows_def)
  ultimately show ?thesis
    using drain_ends [of ?rows "''8:42''" "\<lambda>_. example_wenv example_fails" "\<lambda>_ _. example_wenv example_fails" example_poller cp 10 example_watcher] cp
    by auto
qed

end
