(* ===== verification/WatchRun.thy ===== *)
theory WatchRun
  imports WatchInv GoText
begin

text \<open>
  A whole run of the watcher: its options (\<^verbatim>\<open>cli/watch.go\<close>), the opening of its state database (\<^verbatim>\<open>db/db.go\<close>),
  \<^verbatim>\<open>newPoller\<close> (\<^verbatim>\<open>watch/retry.go\<close>) and the event loop of \<^verbatim>\<open>Watch\<close> (\<^verbatim>\<open>watch/watch.go\<close>).
\<close>

section \<open>Options\<close>

datatype watch_option_error = BadAttempts | BadStallTimeout | BadPollInterval | BadRetryConfig

record watch_options =
  wo_Attempts :: int
  wo_StallTimeout :: int
  wo_PollInterval :: int
  wo_IdleExit :: int
  wo_DrainTimeout :: int
  wo_Retry :: Watcher

definition validateWatchOptions :: "watch_options \<Rightarrow> string list \<Rightarrow> watch_option_error option" where
  "validateWatchOptions wo args =
     (if wo_Attempts wo < 1 then Some BadAttempts
      else if wo_StallTimeout wo \<le> 0 then Some BadStallTimeout
      else if wo_PollInterval wo \<le> 0 then Some BadPollInterval
      else if wo_IdleExit wo < 0 \<or> wo_DrainTimeout wo < 0 \<or> RetryBackoffBase (wo_Retry wo) \<le> 0 \<or>
        RetryBackoffMax (wo_Retry wo) < RetryBackoffBase (wo_Retry wo) \<or> RetryMaxAge (wo_Retry wo) < 0 \<or>
        RetryQueueSize (wo_Retry wo) < 0 \<or> args \<noteq> [] then Some BadRetryConfig
      else None)"

section \<open>The state database file\<close>

datatype db_error =
    DBAbs | DBMkdir | DBStatDir | PrivateDirectory | DBOpenLock | DBBusy | DBAcquire | DBCreate | EmptyState | DBSecure
  | DBConfigure | DBOpenState | DBInspect | DBApplySchema

datatype open_outcome = OpenedFile | FileExists | OpenFailed

datatype flock_outcome = FlockTaken | FlockWouldBlock | FlockFailed

text \<open>
  What the system calls say: the absolute path, the directory and its permissions, the lock file and its lock,
  the exclusive creation and the second open, the size, securing the file, the configuration, opening SQLite, the tables found, applying
  the schema, and the contents of an existing database.
\<close>

record db_env =
  de_abs :: "string \<Rightarrow> string option"
  de_mkdir :: bool
  de_dirPerm :: "nat option"
  de_lockFile :: bool
  de_flock :: flock_outcome
  de_create :: open_outcome
  de_reopen :: bool
  de_size :: "nat option"
  de_secure :: bool
  de_config :: bool
  de_sqlOpen :: bool
  de_tables :: "nat option"
  de_schema :: bool
  de_content :: wstate

definition preparePath :: "db_env \<Rightarrow> string \<Rightarrow> db_error + string" where
  "preparePath d path =
     (case de_abs d path of
        None \<Rightarrow> Inl DBAbs
      | Some path' \<Rightarrow>
          if \<not> de_mkdir d then Inl DBMkdir
          else case de_dirPerm d of
            None \<Rightarrow> Inl DBStatDir
          | Some perm \<Rightarrow> if perm AND 63 \<noteq> 0 then Inl PrivateDirectory else Inr path')"

definition createState :: "db_env \<Rightarrow> db_error + bool" where
  "createState d =
     (let created = (de_create d = OpenedFile) in
      if \<not> created \<and> \<not> (de_create d = FileExists \<and> de_reopen d) then Inl DBCreate
      else case de_size d of
        None \<Rightarrow> Inl EmptyState
      | Some k \<Rightarrow> if \<not> created \<and> k = 0 then Inl EmptyState else if \<not> de_secure d then Inl DBSecure else Inr created)"

text \<open>\<^verbatim>\<open>db.Open\<close>: the contents and \<^verbatim>\<open>Created\<close>.\<close>

definition db_Open :: "db_env \<Rightarrow> string \<Rightarrow> db_error + (wstate \<times> bool)" where
  "db_Open d path =
     (case preparePath d path of
        Inl e \<Rightarrow> Inl e
      | Inr _ \<Rightarrow>
          if \<not> de_lockFile d then Inl DBOpenLock
          else if de_flock d = FlockWouldBlock then Inl DBBusy
          else if de_flock d = FlockFailed then Inl DBAcquire
          else case createState d of
            Inl e \<Rightarrow> Inl e
          | Inr created \<Rightarrow>
              if \<not> de_config d then Inl DBConfigure
              else if \<not> de_sqlOpen d then Inl DBOpenState
              else (case (if created then Some 1 else de_tables d) of
                 None \<Rightarrow> Inl DBInspect
               | Some tables \<Rightarrow>
                   if tables = 0 then Inl EmptyState
                   else if \<not> de_schema d then Inl DBApplySchema
                   else Inr (if created then \<lparr>ws_cp = None, ws_pending = []\<rparr> else de_content d, created)))"

section \<open>Opening\<close>

datatype run_error = PathErr | OpenErr db_error | RunErr watch_error | ReadyErr | CloseErr

record watch_paths =
  wp_StateDir :: string
  wp_DBPath :: string
  wp_StoreDir :: string
  wp_TargetURL :: string

text \<open>\<^verbatim>\<open>filepath.Abs\<close>, the operating system and its directories, and SHA-256.\<close>

record new_env =
  ne_abs :: "string \<Rightarrow> string option"
  ne_goos :: string
  ne_userConfigDir :: "string option"
  ne_xdgStateHome :: string
  ne_home :: "string option"
  ne_sha256 :: "string \<Rightarrow> bytes"

definition defaultStateDir :: "new_env \<Rightarrow> string option" where
  "defaultStateDir e =
     (if ne_goos e = ''darwin'' then map_option (\<lambda>b. filepath_Join [b, ''tsnixcache'']) (ne_userConfigDir e)
      else if ne_xdgStateHome e \<noteq> [] then Some (filepath_Join [ne_xdgStateHome e, ''tsnixcache''])
      else map_option (\<lambda>h. filepath_Join [h, ''.local'', ''state'', ''tsnixcache'']) (ne_home e))"

definition state_key :: "(string \<Rightarrow> bytes) \<Rightarrow> string \<Rightarrow> string \<Rightarrow> string \<Rightarrow> string" where
  "state_key sha path storePath url =
     ''watch-v1-'' @ hex_EncodeToString (sha (path @ [CHR 0x00] @ storePath @ [CHR 0x00] @ url)) @ ''.sqlite''"

definition newPoller :: "watch_paths \<Rightarrow> new_env \<Rightarrow> db_env \<Rightarrow> wenv \<Rightarrow> wenv \<Rightarrow> run_error + poller" where
  "newPoller wp ne d e e' =
     (case ne_abs ne (wp_DBPath wp) of
        None \<Rightarrow> Inl PathErr
      | Some path \<Rightarrow>
     (case ne_abs ne (wp_StoreDir wp) of
        None \<Rightarrow> Inl PathErr
      | Some storePath \<Rightarrow>
     (case (if wp_StateDir wp = [] then defaultStateDir ne else Some (wp_StateDir wp)) of
        None \<Rightarrow> Inl PathErr
      | Some stateDir \<Rightarrow>
     (case openSource e \<lparr>po_statePath = [], po_state = \<lparr>ws_cp = None, ws_pending = []\<rparr>, po_source = [], po_dbFailures = 0,
             po_cleanupCursor = [], po_more = False, po_draining = False\<rparr> of
        (Some err, _) \<Rightarrow> Inl (RunErr err)
      | (None, p) \<Rightarrow>
     (case map_option latest (we_rows e 0) of
        None \<Rightarrow> Inl (RunErr SourceErr)
      | Some (baseline, anchor) \<Rightarrow>
     (case ne_abs ne (filepath_Join [stateDir, state_key (ne_sha256 ne) path storePath (wp_TargetURL wp)]) of
        None \<Rightarrow> Inl PathErr
      | Some sp \<Rightarrow>
     (case db_Open d sp of
        Inl err \<Rightarrow> Inl (OpenErr err)
      | Inr (st, created) \<Rightarrow>
     (case initializeState e' created baseline anchor (p\<lparr>po_statePath := sp, po_state := st\<rparr>) of
        (Some err, _) \<Rightarrow> Inl (RunErr err)
      | (None, p1) \<Rightarrow> Inr p1))))))))"

section \<open>The event loop\<close>

datatype watch_event = CtxDone | IdleFired | FileEvent | FileErrors | RetryNotify | WorkReady | DebounceFired | Tick

text \<open>How a drain would go that begins now: its fuel and environments.\<close>

record drain_env =
  dr_fuel :: nat
  dr_begin :: "nat \<Rightarrow> wenv"
  dr_rounds :: "nat \<Rightarrow> nat \<Rightarrow> wenv"

text \<open>
  The loop over the events its \<^verbatim>\<open>select\<close> takes, each with whether the context is cancelled by the time the poll
  ends and with the environments of that poll.  \<open>work\<close> is the token in the channel of that name.  The result is
  nothing while the loop still runs.
\<close>

fun watch_loop ::
  "Watcher \<Rightarrow> drain_env \<Rightarrow> (watch_event \<times> bool \<times> (nat \<Rightarrow> wenv)) list \<Rightarrow> bool \<Rightarrow> poller \<Rightarrow> (watch_error option \<times> poller) option" where
  "watch_loop w dr [] work p = None"
| "watch_loop w dr ((event, cancelled, ev) # events) work p =
     (if event = CtxDone \<or> event = IdleFired then watch_finish (dr_fuel dr) w (dr_begin dr) (dr_rounds dr) p
      else if event = FileEvent \<or> event = FileErrors \<or> event = RetryNotify then watch_loop w dr events work p
      else if event = WorkReady \<and> \<not> work then watch_loop w dr events work p
      else case poll ev w p of
        (Some err, p1) \<Rightarrow>
          if cancelled then watch_finish (dr_fuel dr) w (dr_begin dr) (dr_rounds dr) p1 else Some (Some err, p1)
      | (None, p1) \<Rightarrow> watch_loop w dr events (work \<and> event \<noteq> WorkReady \<or> po_more p1) p1)"

definition errors_Join :: "'e option list \<Rightarrow> 'e list" where
  "errors_Join es = List.map_filter (\<lambda>x. x) es"

record run_env =
  re_new :: new_env
  re_db :: db_env
  re_open :: wenv
  re_init :: wenv
  re_cpFails :: bool
  re_readyFails :: bool
  re_events :: "(watch_event \<times> bool \<times> (nat \<Rightarrow> wenv)) list"
  re_drain :: drain_env
  re_report :: wenv
  re_closeFails :: bool

text \<open>\<^verbatim>\<open>Watch\<close>: the joined errors, none of them for a nil error, and the poller it ends with.\<close>

definition Watch_run :: "Watcher \<Rightarrow> watch_paths \<Rightarrow> run_env \<Rightarrow> (run_error list \<times> poller option) option" where
  "Watch_run w wp re =
     (case newPoller wp (re_new re) (re_db re) (re_open re) (re_init re) of
        Inl err \<Rightarrow> Some ([err], None)
      | Inr p \<Rightarrow>
          (case (case read_cp (re_cpFails re) p of
                   Inl err \<Rightarrow> Some (Some (RunErr err), p)
                 | Inr _ \<Rightarrow>
                     if re_readyFails re then Some (Some ReadyErr, p)
                     else map_option (apfst (map_option RunErr)) (watch_loop w (re_drain re) (re_events re) True p)) of
             None \<Rightarrow> None
           | Some (err, p1) \<Rightarrow>
               Some (errors_Join [err, map_option RunErr (report w (re_report re) p1), if re_closeFails re then Some CloseErr else None], Some p1)))"

section \<open>What opening leaves of an existing state\<close>

lemma validateAnchor_keeps:
  assumes "validateAnchor e cp p = (None, p')" "ws_cp (po_state p) = Some cp"
  shows "ws_pending (po_state p') = ws_pending (po_state p) \<and>
    (\<exists>cp'. ws_cp (po_state p') = Some cp' \<and> cp_Cursor cp' \<in> {0, cp_Cursor cp} \<and> cp_Generation cp' = cp_Generation cp \<and>
       cp_Expired cp' = cp_Expired cp \<and> (cp_Boundary cp' = None \<longleftrightarrow> cp_Boundary cp = None))"
  using assms
  by (auto simp: validateAnchor_def Transaction_def replay_def q_Advance_def q_ReconcileBoundary_def upd_cp_def
      split: option.splits if_splits prod.splits)

lemma db_Open_Inr:
  assumes "db_Open d path = Inr (st, created)"
  shows "created = (de_create d = OpenedFile) \<and> st = (if created then \<lparr>ws_cp = None, ws_pending = []\<rparr> else de_content d) \<and>
    (\<exists>perm. de_dirPerm d = Some perm \<and> perm AND 63 = 0) \<and> de_flock d = FlockTaken"
  using assms
  by (cases "de_flock d")
    (auto simp: db_Open_def preparePath_def createState_def Let_def split: sum.splits option.splits if_splits)

lemma newPoller_Inr:
  assumes "newPoller wp ne d e e' = Inr p"
  obtains sp st created rows p0 where "db_Open d sp = Inr (st, created)" "we_rows e 0 = Some rows"
    "po_state p0 = st" "initializeState e' created (fst (latest rows)) (snd (latest rows)) p0 = (None, p)"
proof -
  obtain p1 rows sp st created where *: "we_rows e 0 = Some rows" "db_Open d sp = Inr (st, created)"
    "initializeState e' created (fst (latest rows)) (snd (latest rows)) (p1\<lparr>po_statePath := sp, po_state := st\<rparr>) = (None, p)"
    using assms unfolding newPoller_def
    by (auto simp del: split_paired_All split: option.splits if_splits prod.splits sum.splits)
  show ?thesis by (rule that [OF *(2,1) _ *(3)]) simp
qed

section \<open>A run is made of steps\<close>

definition run_envs :: "run_env \<Rightarrow> wenv set" where
  "run_envs re = (\<Union>(_, _, ev)\<in>set (re_events re). range ev) \<union> range (dr_begin (re_drain re)) \<union> (\<Union>k. range (dr_rounds (re_drain re) k))"

lemma watch_loop_steps:
  assumes "watch_loop w dr events work p = Some (None, p')" "\<forall>(_, _, ev)\<in>set events. range ev \<subseteq> E"
  shows "\<exists>p1. (watch_step w E)\<^sup>*\<^sup>* p p1 \<and> watch_finish (dr_fuel dr) w (dr_begin dr) (dr_rounds dr) p1 = Some (None, p')"
  using assms
proof (induction w dr events work p rule: watch_loop.induct)
  case (2 w dr event cancelled ev events work p)
  have step: "watch_step w E p (snd (poll ev w p))" using 2(5) by (auto intro: step_poll)
  consider (drain) "event = CtxDone \<or> event = IdleFired"
    | (skip) "event = FileEvent \<or> event = FileErrors \<or> event = RetryNotify \<or> event = WorkReady \<and> \<not> work" "\<not> (event = CtxDone \<or> event = IdleFired)"
    | (poll) "\<not> (event = CtxDone \<or> event = IdleFired)" "\<not> (event = FileEvent \<or> event = FileErrors \<or> event = RetryNotify)"
        "\<not> (event = WorkReady \<and> \<not> work)" by blast
  then show ?case
  proof cases
    case drain
    then show ?thesis using 2(4) by auto
  next
    case skip
    then show ?thesis using 2(1,2,4,5) by auto
  next
    case poll
    obtain err p1 where r: "poll ev w p = (err, p1)" by fastforce
    show ?thesis
    proof (cases err)
      case None
      then have "\<exists>p2. (watch_step w E)\<^sup>*\<^sup>* p1 p2 \<and> watch_finish (dr_fuel dr) w (dr_begin dr) (dr_rounds dr) p2 = Some (None, p')"
        using 2(3) [OF poll r [symmetric] None] 2(4,5) poll r by simp
      then show ?thesis using step r by (auto intro: converse_rtranclp_into_rtranclp)
    next
      case (Some e)
      then have "watch_finish (dr_fuel dr) w (dr_begin dr) (dr_rounds dr) p1 = Some (None, p')"
        using 2(4) poll r by (auto split: if_splits)
      then show ?thesis using step r by auto
    qed
  qed
qed simp

lemma errors_Join_Nil: "errors_Join es = [] \<longleftrightarrow> (\<forall>e\<in>set es. e = None)"
  by (induction es) (auto simp: errors_Join_def List.map_filter_def)

lemma Watch_run_success:
  assumes "Watch_run w wp re = Some ([], Some p')"
  obtains p where "newPoller wp (re_new re) (re_db re) (re_open re) (re_init re) = Inr p"
    "watch_loop w (re_drain re) (re_events re) True p = Some (None, p')" "report w (re_report re) p' = None" "\<not> re_closeFails re"
  using assms
  by (auto simp: Watch_run_def errors_Join_Nil split: sum.splits option.splits if_splits)

lemma Watch_run_delivers:
  assumes "Watch_run w wp re = Some ([], Some p')"
    and "newPoller wp (re_new re) (re_db re) (re_open re) (re_init re) = Inr p" and "ws_cp (po_state p) = Some cp"
    and "cp_Cursor cp < i" and "cp_Boundary cp = None \<or> cp_DrainDiscovered cp = 0" and "0 < i"
    and "\<forall>e\<in>run_envs re. stays i path e"
  shows "((\<exists>e\<in>run_envs re. uploaded path e) \<or> (\<exists>r\<in>set (ws_pending (po_state p')). p_Path r = path \<and> p_Expired r \<noteq> 0)) \<and>
    \<not> q_HasPending (po_state p')"
proof -
  have loop: "watch_loop w (re_drain re) (re_events re) True p = Some (None, p')"
    using Watch_run_success [OF assms(1)] assms(2) by auto
  have E: "\<forall>(_, _, ev)\<in>set (re_events re). range ev \<subseteq> run_envs re" "range (dr_begin (re_drain re)) \<subseteq> run_envs re"
    "\<forall>k. range (dr_rounds (re_drain re) k) \<subseteq> run_envs re" by (auto simp: run_envs_def)
  obtain p1 where "(watch_step w (run_envs re))\<^sup>*\<^sup>* p p1"
    "watch_finish (dr_fuel (re_drain re)) w (dr_begin (re_drain re)) (dr_rounds (re_drain re)) p1 = Some (None, p')"
    using watch_loop_steps [OF loop E(1)] by blast
  moreover have "watch_inv False i path (po_state p)" using assms(3-5) by (auto simp: watch_inv_def)
  ultimately show ?thesis using finish_delivers [OF assms(7,6)] E(2,3) by blast
qed

section \<open>A concrete run\<close>

definition example_new_env :: new_env where
  "example_new_env =
     \<lparr>ne_abs = Some, ne_goos = ''linux'', ne_userConfigDir = None, ne_xdgStateHome = [], ne_home = Some ''/home/u'', ne_sha256 = (\<lambda>_. [])\<rparr>"

definition example_db_env :: db_env where
  "example_db_env =
     \<lparr>de_abs = Some, de_mkdir = True, de_dirPerm = Some 448, de_lockFile = True, de_flock = FlockTaken, de_create = FileExists,
      de_reopen = True, de_size = Some 4096, de_secure = True, de_config = True, de_sqlOpen = True, de_tables = Some 1,
      de_schema = True, de_content = po_state example_poller\<rparr>"

definition example_paths :: watch_paths where
  "example_paths = \<lparr>wp_StateDir = [], wp_DBPath = ''/db'', wp_StoreDir = ''/s'', wp_TargetURL = ''http://c''\<rparr>"

definition example_watch_run :: run_env where
  "example_watch_run =
     (let e = example_wenv example_works in
      \<lparr>re_new = example_new_env, re_db = example_db_env, re_open = e, re_init = e, re_cpFails = False, re_readyFails = False,
       re_events = [(FileEvent, False, \<lambda>_. e), (CtxDone, True, \<lambda>_. e)],
       re_drain = \<lparr>dr_fuel = 10, dr_begin = (\<lambda>_. e), dr_rounds = (\<lambda>_ _. e)\<rparr>, re_report = e, re_closeFails = False\<rparr>)"

lemma example_run_succeeds: "\<exists>p'. Watch_run example_watcher example_paths example_watch_run = Some ([], Some p')"
proof -
  have "(case Watch_run example_watcher example_paths example_watch_run of Some (es, Some _) \<Rightarrow> es = [] | _ \<Rightarrow> False)" by code_simp
  then show ?thesis by (auto split: option.splits)
qed

lemma example_new:
  "\<exists>p cp. newPoller example_paths example_new_env example_db_env (example_wenv example_works) (example_wenv example_works) = Inr p \<and>
     ws_cp (po_state p) = Some cp \<and> cp_Cursor cp = 1 \<and> cp_Boundary cp = None"
proof -
  have "(case newPoller example_paths example_new_env example_db_env (example_wenv example_works) (example_wenv example_works) of
     Inr p \<Rightarrow> (case ws_cp (po_state p) of Some cp \<Rightarrow> cp_Cursor cp = 1 \<and> cp_Boundary cp = None | None \<Rightarrow> False) | Inl _ \<Rightarrow> False)"
    by code_simp
  then show ?thesis by (auto split: option.splits sum.splits)
qed

section \<open>Properties\<close>

text \<open>
  C37: when \<^verbatim>\<open>Watch\<close> returns no error, everything has been delivered.  Take a run that ends without one, whatever
  events its loop saw, and a row of the Nix database that the cursor had not reached when the poller was
  opened (and whose discovery no interrupted drain had declared finished) and that stays there.  Then the uploader
  was given its path without reporting it as failed, or its path is recorded as expired; and nothing else is pending.
\<close>

theorem watch_success_delivers:
  assumes "Watch_run w wp re = Some ([], Some p')"
    and "newPoller wp (re_new re) (re_db re) (re_open re) (re_init re) = Inr p" and "ws_cp (po_state p) = Some cp"
    and "cp_Cursor cp < i" and "cp_Boundary cp = None \<or> cp_DrainDiscovered cp = 0" and "0 < i"
    and "\<forall>e\<in>run_envs re. stays i path e"
  shows "((\<exists>e\<in>run_envs re. uploaded path e) \<or> (\<exists>r\<in>set (ws_pending (po_state p')). p_Path r = path \<and> p_Expired r \<noteq> 0)) \<and>
    \<not> q_HasPending (po_state p')"
  using Watch_run_delivers [OF assms] .

theorem watch_success_delivers_witness:
  "\<exists>p'. Watch_run example_watcher example_paths example_watch_run = Some ([], Some p') \<and> \<not> q_HasPending (po_state p')"
proof -
  obtain p' where run: "Watch_run example_watcher example_paths example_watch_run = Some ([], Some p')" using example_run_succeeds by blast
  obtain p cp where p: "newPoller example_paths (re_new example_watch_run) (re_db example_watch_run) (re_open example_watch_run) (re_init example_watch_run) = Inr p"
    "ws_cp (po_state p) = Some cp" "cp_Cursor cp = 1" "cp_Boundary cp = None" using example_new by (auto simp: example_watch_run_def Let_def)
  have "\<forall>e\<in>run_envs example_watch_run. stays 5 ''new'' e" by (auto simp: run_envs_def example_watch_run_def Let_def example_stays)
  then show ?thesis using watch_success_delivers [OF run p(1,2), of 5 "''new''"] p(3,4) run by simp
qed

text \<open>
  C38: existing state never becomes a fresh baseline.  If the state file was there before, the poller comes up
  only with the checkpoint it held: its queue is unchanged, its cursor is the old one or zero (a replay of everything),
  and a drain under way stays under way.  Only a file created by this very call starts at the newest row.  In either
  case the directory is private and the lock is held.
\<close>

theorem existing_state_kept:
  assumes "newPoller wp ne d e e' = Inr p"
  shows "(\<exists>cp'. ws_cp (po_state p) = Some cp' \<and>
      (if de_create d = OpenedFile then ws_pending (po_state p) = [] \<and> (\<exists>rows. we_rows e 0 = Some rows \<and> cp_Cursor cp' = fst (latest rows))
       else \<exists>cp. ws_cp (de_content d) = Some cp \<and> cp_Cursor cp' \<in> {0, cp_Cursor cp} \<and> cp_Generation cp' = cp_Generation cp \<and>
         (cp_Boundary cp' = None \<longleftrightarrow> cp_Boundary cp = None) \<and> ws_pending (po_state p) = ws_pending (de_content d))) \<and>
    (\<exists>perm. de_dirPerm d = Some perm \<and> perm AND 63 = 0) \<and> de_flock d = FlockTaken"
proof -
  obtain sp st created rows p0 where o: "db_Open d sp = Inr (st, created)" "we_rows e 0 = Some rows" "po_state p0 = st"
    and init: "initializeState e' created (fst (latest rows)) (snd (latest rows)) p0 = (None, p)"
    by (rule newPoller_Inr [OF assms]) (rule that; assumption)
  note db = db_Open_Inr [OF o(1)]
  show ?thesis
  proof (cases created)
    case True
    then show ?thesis using db o(2,3) init by (auto simp: initializeState_def q_Initialize_def split: if_splits)
  next
    case False
    then obtain cp where cp: "ws_cp (po_state p0) = Some cp" and va: "validateAnchor e' cp p0 = (None, p)"
      using init by (auto simp: initializeState_def split: if_splits option.splits)
    show ?thesis using validateAnchor_keeps [OF va cp] cp db o(3) False by auto
  qed
qed

theorem existing_state_kept_witness:
  "\<exists>p cp. newPoller example_paths example_new_env example_db_env (example_wenv example_works) (example_wenv example_works) = Inr p \<and>
     ws_cp (po_state p) = Some cp \<and> cp_Cursor cp \<in> {0, 1}"
proof -
  obtain p where p: "newPoller example_paths example_new_env example_db_env (example_wenv example_works) (example_wenv example_works) = Inr p"
    using example_new by blast
  have "ws_cp (de_content example_db_env) = Some cp \<Longrightarrow> cp_Cursor cp = 1" for cp
    by (auto simp: example_db_env_def example_poller_def q_Initialize_def)
  then show ?thesis using existing_state_kept [OF p] p by (auto simp: example_db_env_def)
qed

text \<open>
  The tolerance for an unreadable source covers the beginning of a poll, not its end: one failed look at the
  database file after the uploads makes \<^verbatim>\<open>poll\<close> fail at once.
\<close>

lemma late_source_error_fails_poll:
  "fst (poll (\<lambda>k. if k = 7 then (example_wenv example_works)\<lparr>we_stat := (\<lambda>_. None)\<rparr> else example_wenv example_works)
     example_watcher example_poller) = Some DBUnreadable"
  by code_simp

end
