(* ===== verification/Session.thy ===== *)
theory Session
  imports WatchRun
begin

text \<open>
  Sessions of the watcher (\<^verbatim>\<open>watch/session.go\<close>, \<^verbatim>\<open>watch/progress.go\<close>) and the command that waits for one
  (\<^verbatim>\<open>cli/waitfor.go\<close>): the status file, the control requests, closing, and the recovery of a session whose owner died.
  The encoding of a status as JSON is that of the standard library and is a parameter: \<open>js_enc\<close> writes it, and \<open>js_dec\<close> says
  what the bounded decoder fills in and whether it was one complete record of known fields.
\<close>

section \<open>Status\<close>

definition SessionStarting :: string where "SessionStarting = ''starting''"
definition SessionReady :: string where "SessionReady = ''ready''"
definition SessionDraining :: string where "SessionDraining = ''draining''"
definition SessionCompleted :: string where "SessionCompleted = ''completed''"
definition SessionFailed :: string where "SessionFailed = ''failed''"

lemmas session_states = SessionStarting_def SessionReady_def SessionDraining_def SessionCompleted_def SessionFailed_def

datatype session_error =
    SessionBusy | SessionAbandoned | SessionReplaced | FailedSession string | SessionNotReady | SessionStatusErr | SessionPrivate
  | NotExist | SessionIO | DrainErr watch_error | WatchErrs "run_error list" | CtxErr | StartupDeadline | WaitForConfig

record Status =
  st_Version :: int
  st_Session :: string
  st_PID :: int
  st_State :: string
  st_Socket :: string
  st_Progress :: Progress
  st_Error :: string

record json =
  js_enc :: "Status \<Rightarrow> string"
  js_dec :: "string \<Rightarrow> Status \<times> bool"

definition no_progress :: Progress where
  "no_progress = \<lparr>pr_StateFile = [], pr_Generation = 0, pr_Boundary = None, pr_Pending = 0, pr_Expired = 0, pr_Draining = False\<rparr>"

definition no_status :: Status where
  "no_status =
     \<lparr>st_Version = 0, st_Session = [], st_PID = 0, st_State = [], st_Socket = [], st_Progress = no_progress, st_Error = []\<rparr>"

text \<open>What writing the status file came to: done, the old contents kept, or replaced without being synced.\<close>

datatype write_outcome = Written | NotWritten | NotSynced

definition write_status :: "json \<Rightarrow> write_outcome \<Rightarrow> Status \<Rightarrow> string option \<Rightarrow> session_error option \<times> string option" where
  "write_status J wo status disk =
     (case wo of
        Written \<Rightarrow> (None, Some (js_enc J status))
      | NotWritten \<Rightarrow> (Some SessionIO, disk)
      | NotSynced \<Rightarrow> (Some SessionIO, Some (js_enc J status)))"

definition valid_status :: "Status \<Rightarrow> bool" where
  "valid_status st \<longleftrightarrow> st_Version st = 1 \<and> 0 < st_PID st \<and> length (st_Session st) = 64 \<and>
     (case hex_DecodeString (st_Session st) of Inl _ \<Rightarrow> False | Inr _ \<Rightarrow> True) \<and>
     st_State st \<in> {SessionStarting, SessionReady, SessionDraining, SessionCompleted, SessionFailed}"

definition ReadStatus :: "json \<Rightarrow> string option \<Rightarrow> Status \<times> session_error option" where
  "ReadStatus J disk =
     (case disk of
        None \<Rightarrow> (no_status, Some NotExist)
      | Some file \<Rightarrow>
          (case js_dec J file of (st, whole) \<Rightarrow> (st, if whole \<and> valid_status st then None else Some SessionStatusErr)))"

section \<open>The owner\<close>

text \<open>\<open>ss_closed\<close> is the result of the one \<^verbatim>\<open>Close\<close>, \<open>ss_serving\<close> is whether the control server runs, \<open>ss_stopped\<close> whether a stop request has been taken.\<close>

record Session =
  ss_status :: Status
  ss_serving :: bool
  ss_stopped :: bool
  ss_cancelled :: bool
  ss_writeErr :: "session_error option"
  ss_closed :: "session_error list option"

type_synonym 'a written = "'a \<times> Session \<times> string option"

definition put_status :: "json \<Rightarrow> write_outcome \<Rightarrow> Status \<Rightarrow> Session \<Rightarrow> string option \<Rightarrow> session_error option written" where
  "put_status J wo status s disk =
     (case write_status J wo status disk of (err, disk') \<Rightarrow> (err, s\<lparr>ss_status := status\<rparr>, disk'))"

definition Ready :: "json \<Rightarrow> write_outcome \<Rightarrow> Session \<Rightarrow> string option \<Rightarrow> session_error option written" where
  "Ready J wo s disk =
     (let st = ss_status s in
      put_status J wo (if st_State st = SessionStarting then st\<lparr>st_State := SessionReady\<rparr> else st) s disk)"

definition Report :: "json \<Rightarrow> write_outcome \<Rightarrow> Progress \<Rightarrow> Session \<Rightarrow> string option \<Rightarrow> session_error option written" where
  "Report J wo pr s disk =
     (let st = (ss_status s)\<lparr>st_Progress := pr\<rparr> in
      put_status J wo (if pr_Draining pr then st\<lparr>st_State := SessionDraining\<rparr> else st) s disk)"

datatype control_response = Conflict | ControlNotFound | ControlOK Status

definition controlStop :: string where "controlStop = ''/stop''"
definition controlStatus :: string where "controlStatus = ''/status''"

record control_request =
  cr_auth :: string
  cr_method :: string
  cr_path :: string

definition handle :: "json \<Rightarrow> write_outcome \<Rightarrow> control_request \<Rightarrow> Session \<Rightarrow> string option \<Rightarrow> control_response written" where
  "handle J wo r s disk =
     (if cr_auth r \<noteq> ''Bearer '' @ st_Session (ss_status s) then (Conflict, s, disk)
      else if (cr_path r \<noteq> controlStatus \<or> cr_method r \<noteq> ''GET'') \<and> (cr_path r \<noteq> controlStop \<or> cr_method r \<noteq> ''POST'')
      then (ControlNotFound, s, disk)
      else if cr_path r = controlStop \<and> st_State (ss_status s) \<noteq> SessionCompleted \<and> st_State (ss_status s) \<noteq> SessionFailed \<and>
        \<not> ss_stopped s
      then (case put_status J wo ((ss_status s)\<lparr>st_State := SessionDraining\<rparr>) s disk of
              (err, s', disk') \<Rightarrow>
                (ControlOK (ss_status s'), s'\<lparr>ss_stopped := True, ss_writeErr := err, ss_cancelled := True\<rparr>, disk'))
      else (ControlOK (ss_status s), s, disk))"

text \<open>A control server that stops by itself.\<close>

definition server_failed :: "Session \<Rightarrow> Session" where
  "server_failed s = (if ss_stopped s then s else s\<lparr>ss_stopped := True, ss_cancelled := True\<rparr>)"

text \<open>
  \<^verbatim>\<open>close\<close>: \<open>result\<close> is what the watcher returned, \<open>shut\<close> the errors of stopping the control server, \<open>clean\<close> those of
  removing its directory, \<open>after\<close> those of removing the PID file and giving up the lock; \<open>text\<close> is the message of the joined error.
\<close>

definition close_session ::
  "json \<Rightarrow> write_outcome \<Rightarrow> (session_error list \<Rightarrow> string) \<Rightarrow> session_error list \<Rightarrow> session_error list \<Rightarrow> session_error list \<Rightarrow>
   session_error list \<Rightarrow> Session \<Rightarrow> string option \<Rightarrow> session_error list written" where
  "close_session J wo text shut clean after result s disk =
     (let res = result @ (if ss_serving s then shut else []) @ errors_Join [ss_writeErr s] @ clean;
          st = (ss_status s)\<lparr>st_State := (if res = [] then SessionCompleted else SessionFailed),
                 st_Error := (if res = [] then [] else take 8000 (text res))\<rparr>
      in case put_status J wo st s disk of
           (err, s', disk') \<Rightarrow> (res @ errors_Join [err] @ after, s'\<lparr>ss_serving := False\<rparr>, disk'))"

definition Close ::
  "json \<Rightarrow> write_outcome \<Rightarrow> (session_error list \<Rightarrow> string) \<Rightarrow> session_error list \<Rightarrow> session_error list \<Rightarrow> session_error list \<Rightarrow>
   session_error list \<Rightarrow> Session \<Rightarrow> string option \<Rightarrow> session_error list written" where
  "Close J wo text shut clean after result s disk =
     (case ss_closed s of
        Some errs \<Rightarrow> (errs, s, disk)
      | None \<Rightarrow>
          (case close_session J wo text shut clean after result s disk of
             (errs, s', disk') \<Rightarrow> (errs, s'\<lparr>ss_closed := Some errs\<rparr>, disk')))"

text \<open>
  \<^verbatim>\<open>NewSession\<close>: what the directory is (whether a directory, and its permissions), the lock, the random token, the process, the
  socket directory, the first write, the PID file, the socket, and the write and message of a failure.
\<close>

record session_env =
  nse_dir :: "(bool \<times> nat) option"
  nse_lock :: "session_error option"
  nse_rand :: "bytes option"
  nse_pid :: int
  nse_mkdtemp :: "string option"
  nse_write :: write_outcome
  nse_pidFile :: bool
  nse_listen :: bool
  nse_closeWrite :: write_outcome
  nse_text :: "session_error list \<Rightarrow> string"

definition NewSession :: "json \<Rightarrow> session_env \<Rightarrow> string option \<Rightarrow> (session_error list + Session) \<times> string option" where
  "NewSession J e disk =
     (case nse_dir e of
        None \<Rightarrow> (Inl [SessionIO], disk)
      | Some (isDir, perm) \<Rightarrow>
     if \<not> isDir \<or> perm AND 63 \<noteq> 0 then (Inl [SessionPrivate], disk)
     else (case nse_lock e of
        Some err \<Rightarrow> (Inl [err], disk)
      | None \<Rightarrow>
     (case nse_rand e of
        None \<Rightarrow> (Inl [SessionIO], disk)
      | Some token \<Rightarrow>
     let s0 = \<lparr>ss_status = \<lparr>st_Version = 1, st_Session = hex_EncodeToString token, st_PID = nse_pid e, st_State = SessionStarting,
                 st_Socket = [], st_Progress = no_progress, st_Error = []\<rparr>,
               ss_serving = False, ss_stopped = False, ss_cancelled = False, ss_writeErr = None, ss_closed = None\<rparr>;
         fail = (\<lambda>s d. case Close J (nse_closeWrite e) (nse_text e) [] [] [] [SessionIO] s d of (errs, _, d') \<Rightarrow> (Inl errs, d'))
     in (case nse_mkdtemp e of
        None \<Rightarrow> fail s0 disk
      | Some dir \<Rightarrow>
          (case put_status J (nse_write e) ((ss_status s0)\<lparr>st_Socket := filepath_Join [dir, ''control'']\<rparr>) s0 disk of
             (Some _, s1, d1) \<Rightarrow> fail s1 d1
           | (None, s1, d1) \<Rightarrow> if \<not> nse_pidFile e \<or> \<not> nse_listen e then fail s1 d1 else (Inr (s1\<lparr>ss_serving := True\<rparr>), d1))))))"

section \<open>Waiting\<close>

record WaitOptions =
  opt_Ready :: bool
  opt_Stop :: bool
  opt_Session :: string

definition sessionResult :: "Status \<Rightarrow> bool \<Rightarrow> session_error option" where
  "sessionResult st ready =
     (if st_State st = SessionFailed then Some (FailedSession (st_Error st)) else if ready then Some SessionNotReady else None)"

text \<open>
  What one poll meets: the status file, the answer on the control socket, whether the context is done, the session's lock, the file under
  the lock, the checkpoint of the drain's state database (nothing when it
  cannot be read) and whether closing that fails, the write of a recovered result and its message.
\<close>

record poll_env =
  pe_disk :: "string option"
  pe_control :: "session_error + Status"
  pe_ctxErr :: bool
  pe_lock :: "session_error option"
  pe_disk2 :: "string option"
  pe_state :: "checkpoint option"
  pe_closeFails :: bool
  pe_write :: write_outcome
  pe_text :: "session_error list \<Rightarrow> string"

definition recovered_progress :: "poll_env \<Rightarrow> Progress \<Rightarrow> Progress \<times> session_error option" where
  "recovered_progress pe pr =
     (if pr_Generation pr = 0 \<or> pr_StateFile pr = [] then (pr, Some (DrainErr Abandoned))
      else case pe_state pe of
        None \<Rightarrow> (pr, Some SessionIO)
      | Some cp \<Rightarrow>
          (case recoverDrain cp pr of
             (pr', Some err) \<Rightarrow> (pr', Some (DrainErr err))
           | (pr', None) \<Rightarrow> (pr', if pe_closeFails pe then Some SessionIO else None)))"

definition terminal :: "Status \<Rightarrow> bool" where
  "terminal st \<longleftrightarrow> st_State st = SessionCompleted \<or> st_State st = SessionFailed"

text \<open>The result a recovery is about to publish, or the error that keeps it from one.\<close>

definition recovered :: "poll_env \<Rightarrow> Status \<Rightarrow> Status \<times> session_error option" where
  "recovered pe current =
     (case recovered_progress pe (st_Progress current) of
        (pr, err) \<Rightarrow>
          let c = current\<lparr>st_Progress := pr\<rparr> in
          (case err of
             None \<Rightarrow> (c\<lparr>st_State := SessionCompleted\<rparr>, None)
           | Some e \<Rightarrow>
               (case e of
                  DrainErr _ \<Rightarrow> (c\<lparr>st_State := SessionFailed, st_Error := pe_text pe [SessionAbandoned, e]\<rparr>, None)
                | _ \<Rightarrow> (c, Some e))))"

definition recoverSession :: "json \<Rightarrow> poll_env \<Rightarrow> Status \<Rightarrow> (Status \<times> session_error option) \<times> string option" where
  "recoverSession J pe status =
     (if pe_ctxErr pe then ((status, Some CtxErr), pe_disk2 pe)
      else case pe_lock pe of
        Some err \<Rightarrow> ((status, Some err), pe_disk2 pe)
      | None \<Rightarrow>
     (case ReadStatus J (pe_disk2 pe) of
        (_, Some err) \<Rightarrow> ((status, Some err), pe_disk2 pe)
      | (current, None) \<Rightarrow>
          if st_Session current \<noteq> st_Session status then ((current, Some SessionReplaced), pe_disk2 pe)
          else if terminal current then ((current, None), pe_disk2 pe)
          else (case recovered pe current of
             (c, Some e) \<Rightarrow> ((c, Some e), pe_disk2 pe)
           | (c, None) \<Rightarrow> (case write_status J (pe_write pe) c (pe_disk2 pe) of (e, disk) \<Rightarrow> ((c, e), disk)))))"

text \<open>\<^verbatim>\<open>pollSession\<close>: the status, whether the wait is over, the error, and the file it leaves.\<close>

definition pollSession :: "json \<Rightarrow> poll_env \<Rightarrow> WaitOptions \<Rightarrow> (Status \<times> bool \<times> session_error option) \<times> string option" where
  "pollSession J pe opts =
     (case ReadStatus J (pe_disk pe) of
        (status, Some err) \<Rightarrow> ((status, False, Some err), pe_disk2 pe)
      | (status, None) \<Rightarrow>
          if opt_Session opts \<noteq> [] \<and> st_Session status \<noteq> opt_Session opts then ((status, False, Some SessionReplaced), pe_disk2 pe)
          else if terminal status then ((status, True, sessionResult status (opt_Ready opts)), pe_disk2 pe)
          else (case pe_control pe of
             Inl err \<Rightarrow>
               if err = SessionReplaced then ((status, False, Some err), pe_disk2 pe)
               else (case recoverSession J pe status of
                  ((found, Some e), disk) \<Rightarrow> ((status, False, if e = SessionBusy then None else Some e), disk)
                | ((found, None), disk) \<Rightarrow> ((found, True, sessionResult found (opt_Ready opts)), disk))
           | Inr remote \<Rightarrow>
               if st_Session remote \<noteq> st_Session status then ((remote, False, Some SessionReplaced), pe_disk2 pe)
               else if opt_Ready opts \<and> st_State remote = SessionDraining then ((remote, False, Some SessionNotReady), pe_disk2 pe)
               else ((remote, opt_Ready opts \<and> st_State remote = SessionReady, None), pe_disk2 pe)))"

text \<open>\<^verbatim>\<open>WaitSession\<close> over its polls, each with what ended the pause after it.\<close>

datatype pause = PauseTick | PauseCtxDone | PauseStartup

fun wait_loop :: "json \<Rightarrow> WaitOptions \<Rightarrow> bool \<Rightarrow> Status \<Rightarrow> (poll_env \<times> pause) list \<Rightarrow> (Status \<times> session_error option) option" where
  "wait_loop J opts startup status [] = None"
| "wait_loop J opts startup status ((pe, pause) # rest) =
     (case pollSession J pe opts of
        ((current, over, err), _) \<Rightarrow>
          if err \<noteq> None \<and> (err \<noteq> Some NotExist \<or> st_Session current \<noteq> []) then Some (current, err)
          else if over then Some (current, None)
          else let status' = (if err = None then current else status);
                   opts' = (if err = None then opts\<lparr>opt_Session := st_Session current\<rparr> else opts);
                   startup' = (startup \<and> (err = None \<longrightarrow> st_State current = SessionStarting))
            in if pause = PauseCtxDone then Some (status', Some CtxErr)
               else if pause = PauseStartup \<and> startup' then Some (status', Some StartupDeadline)
               else wait_loop J opts' startup' status' rest)"

definition WaitSession :: "json \<Rightarrow> WaitOptions \<Rightarrow> (poll_env \<times> pause) list \<Rightarrow> (Status \<times> session_error option) option" where
  "WaitSession J opts polls = wait_loop J opts True no_status polls"

definition waitFor_Exec ::
  "json \<Rightarrow> string \<Rightarrow> bool \<Rightarrow> bool \<Rightarrow> string \<Rightarrow> int \<Rightarrow> int \<Rightarrow> string list \<Rightarrow> (poll_env \<times> pause) list \<Rightarrow> (string \<times> session_error option) option" where
  "waitFor_Exec J path ready stop token timeout startup args polls =
     (if path = [] \<or> ready \<and> stop \<or> timeout < 0 \<or> startup \<le> 0 \<or> args \<noteq> [] then Some ([], Some WaitForConfig)
      else case WaitSession J \<lparr>opt_Ready = ready, opt_Stop = stop, opt_Session = token\<rparr> polls of
        None \<Rightarrow> None
      | Some (status, Some err) \<Rightarrow> Some ([], Some err)
      | Some (status, None) \<Rightarrow> Some (if ready then st_Session status else [], None))"

section \<open>A session and those who wait for it\<close>

record sys =
  sy_disk :: "string option"
  sy_session :: Session
  sy_alive :: bool

text \<open>
  The owner (readiness, reports, control requests, closing once, death at any time) and the recoveries by others,
  which need the lock.  \<open>W\<close> is what the owner may close with, \<open>G\<close> the generations it may report and \<open>CP\<close> the
  checkpoints a recovery may find.
\<close>

inductive session_step :: "json \<Rightarrow> session_error list set \<Rightarrow> int set \<Rightarrow> checkpoint set \<Rightarrow> sys \<Rightarrow> sys \<Rightarrow> bool" for J W G CP where
  step_ready: "sy_alive s \<Longrightarrow> ss_closed (sy_session s) = None \<Longrightarrow> Ready J wo (sy_session s) (sy_disk s) = (err, sess, disk) \<Longrightarrow>
    session_step J W G CP s (s\<lparr>sy_session := sess, sy_disk := disk\<rparr>)"
| step_report: "sy_alive s \<Longrightarrow> ss_closed (sy_session s) = None \<Longrightarrow> pr_Generation pr = 0 \<or> pr_Generation pr \<in> G \<Longrightarrow>
    Report J wo pr (sy_session s) (sy_disk s) = (err, sess, disk) \<Longrightarrow> session_step J W G CP s (s\<lparr>sy_session := sess, sy_disk := disk\<rparr>)"
| step_handle: "sy_alive s \<Longrightarrow> ss_serving (sy_session s) \<Longrightarrow> handle J wo r (sy_session s) (sy_disk s) = (resp, sess, disk) \<Longrightarrow>
    session_step J W G CP s (s\<lparr>sy_session := sess, sy_disk := disk\<rparr>)"
| step_server: "sy_alive s \<Longrightarrow> session_step J W G CP s (s\<lparr>sy_session := server_failed (sy_session s)\<rparr>)"
| step_close: "sy_alive s \<Longrightarrow> result \<in> W \<Longrightarrow> Close J wo text shut clean after result (sy_session s) (sy_disk s) = (errs, sess, disk) \<Longrightarrow>
    session_step J W G CP s (s\<lparr>sy_session := sess, sy_disk := disk\<rparr>)"
| step_die: "session_step J W G CP s (s\<lparr>sy_alive := False\<rparr>)"
| step_recover: "\<not> sy_alive s \<Longrightarrow> pe_disk2 pe = sy_disk s \<Longrightarrow> (\<forall>cp. pe_state pe = Some cp \<longrightarrow> cp \<in> CP) \<Longrightarrow>
    recoverSession J pe status = (r, disk) \<Longrightarrow> session_step J W G CP s (s\<lparr>sy_disk := disk\<rparr>)"

definition session_start :: "json \<Rightarrow> Session \<Rightarrow> sys" where
  "session_start J sess = \<lparr>sy_disk = Some (js_enc J (ss_status sess)), sy_session = sess, sy_alive = True\<rparr>"

text \<open>What is relied on of JSON: a status that reads back completely has the state, session and generation that were written.\<close>

definition json_ok :: "json \<Rightarrow> bool" where
  "json_ok J \<longleftrightarrow> (\<forall>st st'. js_dec J (js_enc J st) = (st', True) \<longrightarrow>
     st_State st' = st_State st \<and> st_Session st' = st_Session st \<and>
     pr_Generation (st_Progress st') = pr_Generation (st_Progress st))"

text \<open>A checkpoint that shows a reported drain to have ended with nothing expired.\<close>

definition drained :: "int set \<Rightarrow> checkpoint \<Rightarrow> bool" where
  "drained G cp \<longleftrightarrow> cp_LastGeneration cp \<in> G \<and> cp_LastGeneration cp \<noteq> 0 \<and> cp_Boundary cp = None \<and> cp_LastExpired cp = 0"

definition sound_status :: "session_error list set \<Rightarrow> int set \<Rightarrow> checkpoint set \<Rightarrow> Status \<Rightarrow> bool" where
  "sound_status W G CP st \<longleftrightarrow> (pr_Generation (st_Progress st) = 0 \<or> pr_Generation (st_Progress st) \<in> G) \<and>
     (st_State st = SessionCompleted \<longrightarrow> [] \<in> W \<or> (\<exists>cp\<in>CP. drained G cp))"

definition sound_disk :: "json \<Rightarrow> session_error list set \<Rightarrow> int set \<Rightarrow> checkpoint set \<Rightarrow> string \<Rightarrow> string option \<Rightarrow> bool" where
  "sound_disk J W G CP token disk \<longleftrightarrow>
     (\<forall>st. ReadStatus J disk = (st, None) \<longrightarrow> st_Session st = token \<longrightarrow> sound_status W G CP st)"

definition session_inv :: "json \<Rightarrow> session_error list set \<Rightarrow> int set \<Rightarrow> checkpoint set \<Rightarrow> string \<Rightarrow> sys \<Rightarrow> bool" where
  "session_inv J W G CP token s \<longleftrightarrow> st_Session (ss_status (sy_session s)) = token \<and>
     sound_status W G CP (ss_status (sy_session s)) \<and> sound_disk J W G CP token (sy_disk s)"

lemma write_sound:
  assumes "json_ok J" "write_status J wo st disk = (err, disk')" "sound_disk J W G CP token disk"
    and "st_Session st = token \<Longrightarrow> sound_status W G CP st"
  shows "sound_disk J W G CP token disk'"
proof -
  have "sound_disk J W G CP token (Some (js_enc J st))"
    using assms(1,4) by (auto simp: sound_disk_def ReadStatus_def json_ok_def sound_status_def split: prod.splits if_splits)
  then show ?thesis using assms(2,3) by (auto simp: write_status_def split: write_outcome.splits)
qed

lemma put_sound:
  assumes "json_ok J" "put_status J wo st s disk = (err, s', disk')" "sound_disk J W G CP token disk" "sound_status W G CP st"
  shows "sound_disk J W G CP token disk' \<and> ss_status s' = st \<and> s' = s\<lparr>ss_status := st\<rparr>"
  using write_sound [OF assms(1) _ assms(3)] assms(2,4) by (auto simp: put_status_def split: prod.splits)

lemma recovered_progress_sound:
  assumes "recovered_progress pe pr = (pr', err)" "pr_Generation pr = 0 \<or> pr_Generation pr \<in> G" "\<forall>cp. pe_state pe = Some cp \<longrightarrow> cp \<in> CP"
  shows "(pr_Generation pr' = 0 \<or> pr_Generation pr' \<in> G) \<and> (err = None \<longrightarrow> (\<exists>cp\<in>CP. drained G cp))"
proof (cases "pe_state pe")
  case (Some cp)
  then have "cp \<in> CP" using assms(3) by blast
  then show ?thesis
    using assms(1,2) Some by (auto simp: recovered_progress_def recoverDrain_def drained_def Let_def intro!: bexI [of _ cp] split: if_splits)
qed (use assms(1,2) in \<open>auto simp: recovered_progress_def split: if_splits\<close>)

lemma recovered_sound:
  assumes "recovered pe st = (c, None)" "sound_status W G CP st" "\<forall>cp. pe_state pe = Some cp \<longrightarrow> cp \<in> CP"
  shows "sound_status W G CP c \<and> terminal c \<and> st_Session c = st_Session st"
proof -
  obtain pr err where r: "recovered_progress pe (st_Progress st) = (pr, err)" by fastforce
  have g: "pr_Generation (st_Progress st) = 0 \<or> pr_Generation (st_Progress st) \<in> G" using assms(2) by (simp add: sound_status_def)
  note p = recovered_progress_sound [OF r g assms(3)]
  show ?thesis
  proof (cases err)
    case None
    then show ?thesis using assms(1) r p by (auto simp: recovered_def sound_status_def terminal_def)
  next
    case (Some e)
    then show ?thesis using assms(1) r p
      by (cases e) (auto simp: recovered_def sound_status_def terminal_def session_states)
  qed
qed

lemma recovered_Session: "recovered pe st = (c, err) \<Longrightarrow> st_Session c = st_Session st"
  by (auto simp: recovered_def Let_def split: prod.splits option.splits session_error.splits)

lemma recoverSession_sound:
  assumes "json_ok J" "recoverSession J pe status = ((r, err), disk')" "sound_disk J W G CP token (pe_disk2 pe)"
    and "\<forall>cp. pe_state pe = Some cp \<longrightarrow> cp \<in> CP"
  shows "sound_disk J W G CP token disk' \<and>
    (err = None \<longrightarrow> st_Session r = st_Session status \<and> terminal r \<and> (st_Session r = token \<longrightarrow> sound_status W G CP r))"
proof -
  have locked: "disk' = pe_disk2 pe \<and> err \<noteq> None" if "pe_lock pe = Some e" for e
    using assms(2) by (auto simp: recoverSession_def that split: if_splits)
  consider (kept) "disk' = pe_disk2 pe" "err \<noteq> None"
    | (final) "disk' = pe_disk2 pe" "ReadStatus J (pe_disk2 pe) = (r, None)" "st_Session r = st_Session status" "terminal r"
    | (made) current where "ReadStatus J (pe_disk2 pe) = (current, None)" "st_Session current = st_Session status"
        "\<not> terminal current" "recovered pe current = (r, None)" "write_status J (pe_write pe) r (pe_disk2 pe) = (err, disk')"
  proof (cases "pe_lock pe")
    case None
    then show ?thesis using assms(2) that by (auto simp: recoverSession_def split: if_splits option.splits prod.splits)
  qed (use locked that in blast)
  then show ?thesis
  proof cases
    case made
    have s: "sound_status W G CP current" if "st_Session current = token"
      using assms(3) made(1) that by (simp add: sound_disk_def)
    have "sound_status W G CP r \<and> terminal r" if "st_Session r = token"
      using recovered_sound [OF made(4) s assms(4)] recovered_Session [OF made(4)] that by simp
    moreover have "terminal r" using recovered_sound [OF made(4), of UNIV UNIV UNIV] by (simp add: sound_status_def)
    ultimately show ?thesis
      using recovered_Session [OF made(4)] made(2) write_sound [OF assms(1) made(5) assms(3)] by simp
  qed (use assms(3) in \<open>auto simp: sound_disk_def\<close>)
qed

lemma Close_cases:
  assumes "Close J wo text shut clean after result s disk = (errs, s', disk')"
  obtains (again) "ss_closed s \<noteq> None" "s' = s" "disk' = disk"
    | (first) st err s0 where "ss_closed s = None" "put_status J wo st s disk = (err, s0, disk')" "terminal st"
      "st_Session st = st_Session (ss_status s)" "st_Progress st = st_Progress (ss_status s)" "st_State st = SessionCompleted \<longrightarrow> result = []"
      "s' = s0\<lparr>ss_serving := False, ss_closed := Some errs\<rparr>"
proof (cases "ss_closed s")
  case None
  let ?res = "result @ (if ss_serving s then shut else []) @ errors_Join [ss_writeErr s] @ clean"
  let ?st = "(ss_status s)\<lparr>st_State := (if ?res = [] then SessionCompleted else SessionFailed),
    st_Error := (if ?res = [] then [] else take 8000 (text ?res))\<rparr>"
  obtain err s0 d where p: "put_status J wo ?st s disk = (err, s0, d)" by (metis prod.exhaust)
  have s': "s' = s0\<lparr>ss_serving := False, ss_closed := Some errs\<rparr>" and d: "d = disk'"
    using assms unfolding Close_def None close_session_def Let_def p by auto
  have t: "terminal ?st" by (simp add: terminal_def)
  have c: "st_State ?st = SessionCompleted \<longrightarrow> result = []" by (auto simp: session_states)
  show ?thesis by (rule first [OF None p [unfolded d] t _ _ c s']) simp_all
next
  case (Some e)
  then show ?thesis using assms by (intro again) (simp_all add: Close_def)
qed

lemma session_step_inv:
  assumes "json_ok J" "session_inv J W G CP token s" "session_step J W G CP s s'"
  shows "session_inv J W G CP token s'"
  using assms(3)
proof cases
  case (step_ready wo err sess disk)
  then show ?thesis
    using assms(2) put_sound [OF assms(1), where W = W and G = G and CP = CP and token = token]
    by (force simp: Ready_def Let_def session_inv_def sound_status_def session_states split: if_splits)
next
  case (step_report pr wo err sess disk)
  then show ?thesis
    using assms(2) put_sound [OF assms(1), where W = W and G = G and CP = CP and token = token]
    by (force simp: Report_def Let_def session_inv_def sound_status_def session_states split: if_splits)
next
  case (step_handle wo r resp sess disk)
  let ?st = "(ss_status (sy_session s))\<lparr>st_State := SessionDraining\<rparr>"
  obtain err s0 d where p: "put_status J wo ?st (sy_session s) (sy_disk s) = (err, s0, d)" by (metis prod.exhaust)
  have "sound_status W G CP ?st" using assms(2) by (simp add: session_inv_def sound_status_def session_states)
  then have "sound_disk J W G CP token d" "ss_status s0 = ?st" using put_sound [OF assms(1) p, where W = W and G = G and CP = CP and token = token] assms(2)
    by (simp_all add: session_inv_def)
  moreover have "disk = sy_disk s \<and> sess = sy_session s \<or> disk = d \<and> ss_status sess = ss_status s0"
    using step_handle(4) p by (auto simp: handle_def split: if_splits)
  ultimately show ?thesis using assms(2) step_handle(1) \<open>sound_status W G CP ?st\<close> by (auto simp: session_inv_def)
next
  case step_server
  then show ?thesis using assms(2) by (simp add: session_inv_def server_failed_def)
next
  case (step_close result wo msg shut clean after errs sess disk)
  show ?thesis
    using step_close(4)
  proof (cases rule: Close_cases)
    case again
    then show ?thesis using step_close assms(2) by (simp add: session_inv_def)
  next
    case (first st err s0)
    have "sound_status W G CP st" using first assms(2) step_close(3) by (auto simp: session_inv_def sound_status_def)
    then show ?thesis
      using put_sound [OF assms(1) first(2), where W = W and G = G and CP = CP and token = token] assms(2) first step_close
      by (simp add: session_inv_def)
  qed
next
  case step_die
  then show ?thesis using assms(2) by (simp add: session_inv_def)
next
  case (step_recover pe status r disk)
  then show ?thesis
    using assms(2) recoverSession_sound [OF assms(1), where W = W and G = G and CP = CP and token = token and pe = pe and disk' = disk]
    by (cases r) (simp add: session_inv_def)
qed

interpretation session_run: step_invariant "session_step J W G CP" "\<lambda>s. json_ok J \<longrightarrow> session_inv J W G CP token s"
  for J W G CP token
  by unfold_locales (use session_step_inv in blast)

subsection \<open>The order of the states\<close>

definition rank :: "Status \<Rightarrow> nat" where
  "rank st = (if st_State st = SessionStarting then 0 else if st_State st = SessionReady then 1 else if terminal st then 3 else 2)"

text \<open>One status may follow another: further on, and not at all past a result.\<close>

definition follows :: "Status \<Rightarrow> Status \<Rightarrow> bool" where
  "follows st st' \<longleftrightarrow> rank st \<le> rank st' \<and> (terminal st \<longrightarrow> st_State st' = st_State st)"

lemma follows_refl [simp]: "follows st st"
  by (simp add: follows_def)

lemma follows_trans: "follows a b \<Longrightarrow> follows b c \<Longrightarrow> follows a c"
  by (auto simp: follows_def terminal_def)

lemma follows_state: "st_State b' = st_State b \<Longrightarrow> follows a b' \<longleftrightarrow> follows a b"
  by (simp add: follows_def rank_def terminal_def)

lemma follows_terminal: "\<not> terminal a \<Longrightarrow> terminal b \<Longrightarrow> follows a b"
  by (auto simp: follows_def rank_def terminal_def session_states)

definition follows_disk :: "json \<Rightarrow> string \<Rightarrow> Status \<Rightarrow> string option \<Rightarrow> bool" where
  "follows_disk J token low disk \<longleftrightarrow> (\<forall>st. ReadStatus J disk = (st, None) \<longrightarrow> st_Session st = token \<longrightarrow> follows low st)"

definition disk_follows :: "json \<Rightarrow> string \<Rightarrow> string option \<Rightarrow> Status \<Rightarrow> bool" where
  "disk_follows J token disk high \<longleftrightarrow> (\<forall>st. ReadStatus J disk = (st, None) \<longrightarrow> st_Session st = token \<longrightarrow> follows st high)"

definition order_inv :: "json \<Rightarrow> string \<Rightarrow> Status \<Rightarrow> sys \<Rightarrow> bool" where
  "order_inv J token low s \<longleftrightarrow>
     st_Session (ss_status (sy_session s)) = token \<and>
     (ss_closed (sy_session s) \<noteq> None \<longleftrightarrow> terminal (ss_status (sy_session s))) \<and>
     (ss_closed (sy_session s) \<noteq> None \<longrightarrow> \<not> ss_serving (sy_session s)) \<and>
     follows_disk J token low (sy_disk s) \<and>
     (sy_alive s \<longrightarrow> disk_follows J token (sy_disk s) (ss_status (sy_session s)) \<and> follows low (ss_status (sy_session s)))"

lemma put_order:
  assumes "json_ok J" "put_status J wo st s disk = (err, s', disk')" "follows (ss_status s) st" "follows low (ss_status s)"
    and "follows_disk J token low disk" "disk_follows J token disk (ss_status s)"
  shows "s' = s\<lparr>ss_status := st\<rparr> \<and> follows_disk J token low disk' \<and> disk_follows J token disk' st \<and> follows low st"
proof -
  have new: "follows low st'" "follows st' st" if "ReadStatus J (Some (js_enc J st)) = (st', None)" for st'
  proof -
    have "st_State st' = st_State st" using that assms(1) by (auto simp: ReadStatus_def json_ok_def split: prod.splits if_splits)
    then show "follows low st'" "follows st' st"
      using follows_trans [OF assms(4,3)] follows_state [of st' st low] by (simp_all add: follows_def rank_def terminal_def)
  qed
  have "disk_follows J token disk st" using assms(6,3) follows_trans by (auto simp: disk_follows_def)
  then show ?thesis
    using assms(2,5) new follows_trans [OF assms(4,3)]
    by (auto simp: put_status_def write_status_def follows_disk_def disk_follows_def split: write_outcome.splits)
qed

lemma recover_order:
  assumes "json_ok J" "recoverSession J pe status = (r, disk')" "follows_disk J token low (pe_disk2 pe)"
  shows "follows_disk J token low disk'"
proof (cases "disk' = pe_disk2 pe")
  case False
  then obtain current c where c: "ReadStatus J (pe_disk2 pe) = (current, None)" "\<not> terminal current" "recovered pe current = (c, None)"
    "disk' = Some (js_enc J c)"
    using assms(2)
    by (auto simp: recoverSession_def write_status_def split: if_splits option.splits prod.splits write_outcome.splits)
  have t: "terminal c" using recovered_sound [OF c(3), of UNIV UNIV UNIV] by (simp add: sound_status_def)
  show ?thesis
    unfolding follows_disk_def
  proof (intro allI impI)
    fix st assume st: "ReadStatus J disk' = (st, None)" "st_Session st = token"
    then have same: "st_State st = st_State c" "st_Session st = st_Session c"
      using c(4) assms(1) by (auto simp: ReadStatus_def json_ok_def split: prod.splits if_splits)
    then have "follows low current" using assms(3) c(1) recovered_Session [OF c(3)] st(2) by (simp add: follows_disk_def)
    then have "\<not> terminal low" using c(2) by (auto simp: follows_def terminal_def)
    then show "follows low st" using follows_terminal t same(1) follows_state by blast
  qed
qed (use assms(3) in simp)

lemma order_step:
  assumes "json_ok J" "order_inv J token low s" "session_step J W G CP s s'"
  shows "order_inv J token low s'"
  using assms(3)
proof cases
  case (step_ready wo err sess disk)
  let ?m = "ss_status (sy_session s)"
  let ?st = "if st_State ?m = SessionStarting then ?m\<lparr>st_State := SessionReady\<rparr> else ?m"
  have f: "follows ?m ?st" "terminal ?st = terminal ?m" "st_Session ?st = st_Session ?m"
    by (auto simp: follows_def rank_def terminal_def session_states)
  show ?thesis
    using put_order [OF assms(1) _ f(1), where wo = wo and disk = "sy_disk s" and err = err and s' = sess and disk' = disk and low = low and token = token] step_ready assms(2) f(2,3)
    by (simp add: order_inv_def Ready_def Let_def)
next
  case (step_report pr wo err sess disk)
  let ?m = "(ss_status (sy_session s))\<lparr>st_Progress := pr\<rparr>"
  let ?st = "if pr_Draining pr then ?m\<lparr>st_State := SessionDraining\<rparr> else ?m"
  have "\<not> terminal (ss_status (sy_session s))" using step_report assms(2) by (simp add: order_inv_def)
  then have f: "follows (ss_status (sy_session s)) ?st" "\<not> terminal ?st" "st_Session ?st = st_Session (ss_status (sy_session s))"
    by (auto simp: follows_def rank_def terminal_def session_states)
  show ?thesis
    using put_order [OF assms(1) _ f(1), where wo = wo and disk = "sy_disk s" and err = err and s' = sess and disk' = disk and low = low and token = token] step_report assms(2) f(2,3)
    by (simp add: order_inv_def Report_def Let_def)
next
  case (step_handle wo r resp sess disk)
  let ?m = "ss_status (sy_session s)"
  let ?st = "?m\<lparr>st_State := SessionDraining\<rparr>"
  have "\<not> terminal ?m" "ss_closed (sy_session s) = None" using step_handle assms(2) by (auto simp: order_inv_def)
  then have f: "follows ?m ?st" "\<not> terminal ?st" by (auto simp: follows_def rank_def terminal_def session_states)
  obtain err sess' disk' where p: "put_status J wo ?st (sy_session s) (sy_disk s) = (err, sess', disk')" by (cases "put_status J wo ?st (sy_session s) (sy_disk s)") auto
  have inv: "follows low ?m" "follows_disk J token low (sy_disk s)" "disk_follows J token (sy_disk s) ?m"
    using step_handle assms(2) by (simp_all add: order_inv_def)
  show ?thesis
    using put_order [OF assms(1) p f(1) inv] p step_handle assms(2) f(2) \<open>\<not> terminal ?m\<close> \<open>ss_closed (sy_session s) = None\<close>
    by (auto simp: order_inv_def handle_def split: if_splits prod.splits)
next
  case step_server
  then show ?thesis using assms(2) by (simp add: order_inv_def server_failed_def)
next
  case (step_close result wo msg shut clean after errs sess disk)
  show ?thesis
    using step_close(4)
  proof (cases rule: Close_cases)
    case again
    then have "s' = s" using step_close by (cases s) simp
    then show ?thesis using assms(2) by simp
  next
    case (first st err s0)
    let ?m = "ss_status (sy_session s)"
    have inv: "follows low ?m" "follows_disk J token low (sy_disk s)" "disk_follows J token (sy_disk s) ?m" "\<not> terminal ?m"
      using step_close assms(2) first(1) by (simp_all add: order_inv_def)
    show ?thesis
      using put_order [OF assms(1) first(2) follows_terminal [OF inv(4) first(3)] inv(1-3)] first step_close assms(2)
      by (simp add: order_inv_def)
  qed
next
  case step_die
  then show ?thesis using assms(2) by (simp add: order_inv_def)
next
  case (step_recover pe status r disk)
  then show ?thesis using assms(2) recover_order [OF assms(1) step_recover(5)] by (simp add: order_inv_def)
qed

interpretation session_order: step_invariant "session_step J W G CP" "\<lambda>s. json_ok J \<longrightarrow> order_inv J token low s"
  for J W G CP token low
  by unfold_locales (use order_step in blast)

section \<open>What a waiter may conclude\<close>

text \<open>A poll made while the session runs: the file is read in one state, and again, for a recovery, in a later one.\<close>

definition seen :: "json \<Rightarrow> session_error list set \<Rightarrow> int set \<Rightarrow> checkpoint set \<Rightarrow> Session \<Rightarrow> poll_env \<Rightarrow> bool" where
  "seen J W G CP sess pe \<longleftrightarrow>
     (\<exists>s1 s2. (session_step J W G CP)\<^sup>*\<^sup>* (session_start J sess) s1 \<and> (session_step J W G CP)\<^sup>*\<^sup>* s1 s2 \<and>
        pe_disk pe = sy_disk s1 \<and> pe_disk2 pe = sy_disk s2) \<and>
     (\<forall>cp. pe_state pe = Some cp \<longrightarrow> cp \<in> CP)"

lemma seen_at:
  assumes "(session_step J W G CP)\<^sup>*\<^sup>* (session_start J sess) s" "pe_disk pe = sy_disk s" "pe_disk2 pe = sy_disk s"
    and "\<forall>cp. pe_state pe = Some cp \<longrightarrow> cp \<in> CP"
  shows "seen J W G CP sess pe"
  using assms unfolding seen_def by blast

lemma NewSession_Inr:
  assumes "NewSession J e disk = (Inr sess, disk')"
  shows "st_State (ss_status sess) = SessionStarting \<and> st_Progress (ss_status sess) = no_progress \<and> ss_closed sess = None \<and>
    disk' = sy_disk (session_start J sess)"
  using assms
  by (auto simp: NewSession_def Let_def put_status_def write_status_def session_start_def
      split: option.splits if_splits prod.splits write_outcome.splits)

lemma start_inv:
  assumes "json_ok J" "NewSession J e disk0 = (Inr sess, disk1)" "st_Session (ss_status sess) = token"
  shows "session_inv J W G CP token (session_start J sess) \<and> order_inv J token (ss_status sess) (session_start J sess)"
proof -
  note n = NewSession_Inr [OF assms(2)]
  have r: "st_State st = SessionStarting \<and> pr_Generation (st_Progress st) = 0" if "ReadStatus J (Some (js_enc J (ss_status sess))) = (st, None)" for st
    using that assms(1) n by (auto simp: ReadStatus_def json_ok_def no_progress_def split: prod.splits if_splits)
  have "follows st' st \<and> follows st st'" if "st_State st = st_State st'" for st st' using that by (simp add: follows_def rank_def terminal_def)
  then show ?thesis
    using n r assms(3)
    by (auto simp: session_inv_def order_inv_def session_start_def sound_disk_def sound_status_def follows_disk_def disk_follows_def
        no_progress_def terminal_def session_states)
qed

lemma pollSession_done:
  assumes "pollSession J pe opts = ((st, True, None), disk)"
  shows "(opt_Ready opts \<and> st_State st = SessionReady \<and> (\<exists>st0. ReadStatus J (pe_disk pe) = (st0, None) \<and> st_Session st0 = st_Session st \<and>
            pe_control pe = Inr st)) \<or>
    (\<not> opt_Ready opts \<and> st_State st \<noteq> SessionFailed \<and> terminal st \<and> ReadStatus J (pe_disk pe) = (st, None)) \<or>
    (\<not> opt_Ready opts \<and> st_State st \<noteq> SessionFailed \<and> (\<exists>st0. recoverSession J pe st0 = ((st, None), disk)))"
  using assms
  by (auto simp: pollSession_def sessionResult_def split: prod.splits option.splits if_splits sum.splits)

lemma poll_verified:
  assumes "json_ok J" "NewSession J e disk0 = (Inr sess, disk1)" "st_Session (ss_status sess) = token" "seen J W G CP sess pe"
    and "pollSession J pe opts = ((st, True, None), disk)" "st_Session st = token"
  shows "if opt_Ready opts then st_State st = SessionReady \<and> pe_control pe = Inr st
    else st_State st = SessionCompleted \<and> ([] \<in> W \<or> (\<exists>cp\<in>CP. drained G cp))"
proof -
  obtain s1 s2 where s: "(session_step J W G CP)\<^sup>*\<^sup>* (session_start J sess) s1" "(session_step J W G CP)\<^sup>*\<^sup>* s1 s2"
    "pe_disk pe = sy_disk s1" "pe_disk2 pe = sy_disk s2" and cps: "\<forall>cp. pe_state pe = Some cp \<longrightarrow> cp \<in> CP"
    using assms(4) unfolding seen_def by blast
  have i1: "session_inv J W G CP token s1" using session_run.reach [OF s(1)] start_inv [OF assms(1-3)] assms(1) by blast
  have i2: "session_inv J W G CP token s2" using session_run.reach [OF s(2)] i1 assms(1) by blast
  show ?thesis
  proof (cases "opt_Ready opts")
    case True
    then show ?thesis using pollSession_done [OF assms(5)] by auto
  next
    case False
    have "terminal st \<and> st_State st \<noteq> SessionFailed \<and> sound_status W G CP st"
      using pollSession_done [OF assms(5)] False
    proof (elim disjE conjE exE)
      fix st0 assume "recoverSession J pe st0 = ((st, None), disk)" "st_State st \<noteq> SessionFailed"
      then show ?thesis using recoverSession_sound [OF assms(1) _ _ cps, of st0 st None disk W G token] i2 s(4) assms(6)
        by (simp add: session_inv_def)
    qed (use i1 s(3) assms(6) in \<open>auto simp: session_inv_def sound_disk_def\<close>)
    then show ?thesis using False by (auto simp: terminal_def sound_status_def)
  qed
qed

lemma sessionResult_over: "sessionResult st ready \<noteq> Some NotExist"
  by (simp add: sessionResult_def)

lemma pollSession_over: "pollSession J pe opts = ((st, True, err), disk) \<Longrightarrow> err \<noteq> Some NotExist"
  using sessionResult_over by (auto simp: pollSession_def split: prod.splits option.splits if_splits sum.splits)

lemma wait_loop_done:
  assumes "wait_loop J opts startup status polls = Some (st, None)"
  shows "\<exists>(pe, pause)\<in>set polls. \<exists>opts' disk. pollSession J pe opts' = ((st, True, None), disk) \<and> opt_Ready opts' = opt_Ready opts"
  using assms
proof (induction polls arbitrary: opts startup status)
  case (Cons x rest)
  obtain pe pause where x: "x = (pe, pause)" by fastforce
  obtain current over err disk where r: "pollSession J pe opts = ((current, over, err), disk)" by (metis prod.exhaust)
  show ?case
  proof (cases "err = None \<and> over")
    case True
    then show ?thesis using Cons.prems r x by (auto split: if_splits)
  next
    case False
    then have "wait_loop J (if err = None then opts\<lparr>opt_Session := st_Session current\<rparr> else opts)
        (startup \<and> (err = None \<longrightarrow> st_State current = SessionStarting)) (if err = None then current else status) rest = Some (st, None)"
      using Cons.prems r x pollSession_over [of J pe opts current err disk] by (cases over) (auto simp: Let_def split: if_splits)
    from Cons.IH [OF this] show ?thesis by (auto split: if_splits)
  qed
qed simp

text \<open>The error with which the owner closes its session, from those of \<^verbatim>\<open>Watch\<close>.\<close>

definition owner_result :: "run_error list \<Rightarrow> session_error list" where
  "owner_result errs = (if errs = [] then [] else [WatchErrs errs])"

lemma WaitSession_verified:
  assumes "json_ok J" "NewSession J e disk0 = (Inr sess, disk1)" "st_Session (ss_status sess) = token" "\<forall>(pe, _)\<in>set polls. seen J W G CP sess pe"
    and "WaitSession J opts polls = Some (st, None)" "st_Session st = token"
  shows "if opt_Ready opts then st_State st = SessionReady
    else st_State st = SessionCompleted \<and> ([] \<in> W \<or> (\<exists>cp\<in>CP. drained G cp))"
proof -
  obtain pe pause opts' disk where p: "(pe, pause) \<in> set polls" "pollSession J pe opts' = ((st, True, None), disk)" "opt_Ready opts' = opt_Ready opts"
    using wait_loop_done [OF assms(5) [unfolded WaitSession_def]] by auto
  then have "seen J W G CP sess pe" using assms(4) by auto
  from poll_verified [OF assms(1-3) this p(2) assms(6)] show ?thesis using p(3) by (auto split: if_splits)
qed

section \<open>A concrete session\<close>

definition example_token :: string where "example_token = replicate 64 CHR ''a''"

definition example_status :: "string \<Rightarrow> Status" where
  "example_status state =
     \<lparr>st_Version = 1, st_Session = example_token, st_PID = 7, st_State = state, st_Socket = ''/tmp/t/control'', st_Progress = no_progress,
      st_Error = []\<rparr>"

definition example_json :: json where
  "example_json =
     \<lparr>js_enc = (\<lambda>st. if st = example_status SessionStarting then ''s'' else if st = example_status SessionCompleted then ''c'' else []),
      js_dec = (\<lambda>f. if f = ''s'' then (example_status SessionStarting, True)
                    else if f = ''c'' then (example_status SessionCompleted, True) else (no_status, False))\<rparr>"

lemma example_json_ok: "json_ok example_json"
  by (auto simp: json_ok_def example_json_def split: if_splits)

definition example_session :: Session where
  "example_session =
     \<lparr>ss_status = example_status SessionStarting, ss_serving = True, ss_stopped = False, ss_cancelled = False, ss_writeErr = None,
      ss_closed = None\<rparr>"

definition example_session_env :: session_env where
  "example_session_env =
     \<lparr>nse_dir = Some (True, 448), nse_lock = None, nse_rand = Some (replicate 32 170), nse_pid = 7, nse_mkdtemp = Some ''/tmp/t'',
      nse_write = Written, nse_pidFile = True, nse_listen = True, nse_closeWrite = Written, nse_text = (\<lambda>_. [])\<rparr>"

lemma example_NewSession: "NewSession example_json example_session_env None = (Inr example_session, Some ''s'')"
proof -
  have "hex_EncodeToString (replicate 32 (170::byte)) = example_token" "(448::nat) AND 63 = 0"
    "filepath_Join [''/tmp/t'', ''control''] = ''/tmp/t/control''" by code_simp+
  then show ?thesis
    by (simp add: NewSession_def example_session_env_def put_status_def write_status_def example_json_def example_session_def
        example_status_def)
qed

lemma example_session_token: "st_Session (ss_status example_session) = example_token"
  by (simp add: example_session_def example_status_def)

definition example_poll :: poll_env where
  "example_poll =
     \<lparr>pe_disk = Some ''c'', pe_control = Inl SessionIO, pe_ctxErr = False, pe_lock = None, pe_disk2 = Some ''c'', pe_state = None,
      pe_closeFails = False, pe_write = Written, pe_text = (\<lambda>_. [])\<rparr>"

lemma example_valid: "valid_status (example_status SessionCompleted)" "valid_status (example_status SessionStarting)"
  by code_simp+

lemma example_states_differ: "example_status SessionCompleted \<noteq> example_status SessionStarting"
  by (simp add: example_status_def session_states)

lemma example_closes:
  "\<exists>sess'. session_step example_json {[]} {} {} (session_start example_json example_session)
     ((session_start example_json example_session)\<lparr>sy_session := sess', sy_disk := Some ''c''\<rparr>)"
proof -
  let ?sess = "example_session\<lparr>ss_status := example_status SessionCompleted, ss_serving := False, ss_closed := Some []\<rparr>"
  have "(example_status SessionStarting)\<lparr>st_State := SessionCompleted, st_Error := []\<rparr> = example_status SessionCompleted"
    by (simp add: example_status_def)
  then have "Close example_json Written (\<lambda>_. []) [] [] [] [] example_session (Some ''s'') = ([], ?sess, Some ''c'')"
    using example_states_differ
    by (simp add: Close_def close_session_def Let_def put_status_def write_status_def errors_Join_def List.map_filter_def
        example_session_def example_json_def)
  moreover have "session_start example_json example_session = \<lparr>sy_disk = Some ''s'', sy_session = example_session, sy_alive = True\<rparr>"
    by (simp add: session_start_def example_json_def example_session_def)
  ultimately have "session_step example_json {[]} {} {} (session_start example_json example_session)
     ((session_start example_json example_session)\<lparr>sy_session := ?sess, sy_disk := Some ''c''\<rparr>)"
    by (intro step_close) simp_all
  then show ?thesis by blast
qed

section \<open>Properties\<close>

text \<open>
  C39: the status of a session never goes back.  In any run of its owner (readiness, reports, control requests,
  closing, failing writes, death) and of those who recover it, a status that reads back later is at least as
  far along (starting, ready, draining, finished), and once it says completed or failed it keeps saying so.
\<close>

theorem session_never_goes_back:
  assumes "json_ok J" "NewSession J e disk0 = (Inr sess, disk1)" "st_Session (ss_status sess) = token"
    and "(session_step J W G CP)\<^sup>*\<^sup>* (session_start J sess) s" and "(session_step J W G CP)\<^sup>*\<^sup>* s s'"
    and "ReadStatus J (sy_disk s) = (st, None)" "st_Session st = token"
    and "ReadStatus J (sy_disk s') = (st', None)" "st_Session st' = token"
  shows "rank st \<le> rank st' \<and> (terminal st \<longrightarrow> st_State st' = st_State st)"
proof -
  have "order_inv J token (ss_status sess) s" using session_order.reach [OF assms(4)] start_inv [OF assms(1-3)] assms(1) by blast
  then have "order_inv J token st s" using assms(6,7) by (simp add: order_inv_def follows_disk_def disk_follows_def)
  then have "order_inv J token st s'" using session_order.reach [OF assms(5)] assms(1) by blast
  then show ?thesis using assms(8,9) by (simp add: order_inv_def follows_disk_def follows_def)
qed

theorem session_never_goes_back_witness:
  "\<exists>s. (session_step example_json {[]} {} {})\<^sup>*\<^sup>* (session_start example_json example_session) s \<and>
     fst (ReadStatus example_json (sy_disk s)) = example_status SessionCompleted \<and>
     rank (example_status SessionStarting) \<le> rank (example_status SessionCompleted)"
proof -
  obtain sess' where step: "session_step example_json {[]} {} {} (session_start example_json example_session)
     ((session_start example_json example_session)\<lparr>sy_session := sess', sy_disk := Some ''c''\<rparr>)" (is "session_step _ _ _ _ ?s ?s'")
    using example_closes by blast
  then have path: "(session_step example_json {[]} {} {})\<^sup>*\<^sup>* ?s ?s'" by blast
  have r: "ReadStatus example_json (sy_disk ?s) = (example_status SessionStarting, None)"
    "ReadStatus example_json (sy_disk ?s') = (example_status SessionCompleted, None)"
    using example_valid by (simp_all add: ReadStatus_def session_start_def example_json_def example_session_def)
  have t: "st_Session (example_status x) = example_token" for x by (simp add: example_status_def)
  have "rank (example_status SessionStarting) \<le> rank (example_status SessionCompleted)"
    using session_never_goes_back [OF example_json_ok example_NewSession example_session_token rtranclp.rtrancl_refl path r(1) t r(2) t] by blast
  then show ?thesis using path r(2) by (intro exI [of _ ?s']) simp
qed

text \<open>
  C40: \<^verbatim>\<open>wait-for\<close> succeeds only on a verified result.  Let the session's owner run \<^verbatim>\<open>Watch\<close> and close the session
  with its errors, and let others poll it at any times, recovering it when it died.  If \<^verbatim>\<open>WaitSession\<close> returns without
  an error, then with \<^verbatim>\<open>--ready\<close> the watcher was ready; otherwise the session is completed, and either every row of
  the Nix database that lay ahead when the watcher began and stayed there was uploaded or recorded as expired, with
  nothing else pending, or the state database of the dead watcher shows its reported drain as ended with nothing expired.
\<close>

theorem wait_success_delivers:
  assumes "json_ok J" "NewSession J e disk0 = (Inr sess, disk1)" "st_Session (ss_status sess) = token" "Watch_run w wp re = Some (errs, Some p')"
    and "\<forall>(pe, _)\<in>set polls. seen J {owner_result errs} G CP sess pe"
    and "WaitSession J opts polls = Some (st, None)" "st_Session st = token"
    and "newPoller wp (re_new re) (re_db re) (re_open re) (re_init re) = Inr p" "ws_cp (po_state p) = Some cp0"
    and "cp_Cursor cp0 < i" "cp_Boundary cp0 = None \<or> cp_DrainDiscovered cp0 = 0" "0 < i" "\<forall>e\<in>run_envs re. stays i path e"
  shows "if opt_Ready opts then st_State st = SessionReady
    else st_State st = SessionCompleted \<and>
      (((\<exists>e\<in>run_envs re. uploaded path e) \<or> (\<exists>r\<in>set (ws_pending (po_state p')). p_Path r = path \<and> p_Expired r \<noteq> 0)) \<and>
         \<not> q_HasPending (po_state p') \<or>
       (\<exists>cp\<in>CP. drained G cp))"
proof -
  have "errs = []" if "[] \<in> {owner_result errs}" using that by (simp add: owner_result_def split: if_splits)
  then have "((\<exists>e\<in>run_envs re. uploaded path e) \<or> (\<exists>r\<in>set (ws_pending (po_state p')). p_Path r = path \<and> p_Expired r \<noteq> 0)) \<and>
      \<not> q_HasPending (po_state p')" if "[] \<in> {owner_result errs}"
    using Watch_run_delivers [OF _ assms(8-13)] assms(4) that by blast
  with WaitSession_verified [OF assms(1-3,5-7)] show ?thesis by (auto split: if_splits)
qed

theorem wait_success_delivers_witness:
  "WaitSession example_json \<lparr>opt_Ready = False, opt_Stop = True, opt_Session = []\<rparr> [(example_poll, PauseTick)] =
     Some (example_status SessionCompleted, None) \<and>
   (\<exists>p'. Watch_run example_watcher example_paths example_watch_run = Some ([], Some p') \<and> \<not> q_HasPending (po_state p'))"
proof -
  obtain p' where run: "Watch_run example_watcher example_paths example_watch_run = Some ([], Some p')" using example_run_succeeds by blast
  obtain p cp where p: "newPoller example_paths (re_new example_watch_run) (re_db example_watch_run) (re_open example_watch_run) (re_init example_watch_run) = Inr p"
    "ws_cp (po_state p) = Some cp" "cp_Cursor cp = 1" "cp_Boundary cp = None" using example_new by (auto simp: example_watch_run_def Let_def)
  have stays: "\<forall>e\<in>run_envs example_watch_run. stays 5 ''new'' e" by (auto simp: run_envs_def example_watch_run_def Let_def example_stays)
  obtain sess' where "session_step example_json {[]} {} {} (session_start example_json example_session)
     ((session_start example_json example_session)\<lparr>sy_session := sess', sy_disk := Some ''c''\<rparr>)" (is "session_step _ _ _ _ ?s ?s'")
    using example_closes by blast
  then have path: "(session_step example_json {owner_result []} {} {})\<^sup>*\<^sup>* ?s ?s'" by (auto simp: owner_result_def)
  have "seen example_json {owner_result []} {} {} example_session example_poll"
    by (rule seen_at [OF path]) (simp_all add: example_poll_def)
  then have seen: "\<forall>(pe, _)\<in>set [(example_poll, PauseTick)]. seen example_json {owner_result []} {} {} example_session pe" by simp
  have "ReadStatus example_json (Some ''c'') = (example_status SessionCompleted, None)"
    using example_valid by (simp add: ReadStatus_def example_json_def)
  then have wait: "WaitSession example_json \<lparr>opt_Ready = False, opt_Stop = True, opt_Session = []\<rparr> [(example_poll, PauseTick)] =
      Some (example_status SessionCompleted, None)"
    by (simp add: WaitSession_def pollSession_def example_poll_def terminal_def sessionResult_def example_status_def session_states)
  have "st_Session (example_status SessionCompleted) = example_token" by (simp add: example_status_def)
  from wait_success_delivers [OF example_json_ok example_NewSession example_session_token run seen wait this p(1,2) _ _ _ stays] p(3,4)
  show ?thesis using wait run by auto
qed

end
