(* ===== verification/Serve.thy ===== *)
theory Serve
  imports Cache Gc NixImport
begin

text \<open>
  The \<^verbatim>\<open>serve\<close> command (\<^verbatim>\<open>cli/serve.go\<close>): checking the flags, deriving the configuration, opening the store,
  the key and the spool, and which handler ends up on which listener.  Files, sockets, the tailnet client and
  the start of the other parts are an environment.
\<close>

section \<open>Data\<close>

datatype serve_error =
    BadMaxNarSize | BadGCInterval gc_error | BadServeCompression string | MissingCodecBinary string | StoreFlagConflict string
  | StoreGCConflict | GCNonDefaultStore string | ReadSignKey | ParseSignKey signing_error | SpoolMkdir | SpoolStat | UnsafeSpoolDir
  | NoListeners | ListenErr string | CacheErr string | StoreUnavailable | InitChroot | OpenStore
  | TsnetMalformedPart string | TsnetUnknownKey string | TsnetBadBool string | TsnetTLSUnsupported
  | ReadAuthKey | TsnetStart | TsnetLocalClient | TsnetListen

record serveConfig =
  cf_dbPath :: string
  cf_storeDir :: string
  cf_signKeyFile :: string
  cf_priority :: int
  cf_spoolDir :: string
  cf_gcRootDir :: string
  cf_serveCompression :: string
  cf_nixStoreURI :: string
  cf_externalCompression :: bool
  cf_listenAddrs :: "string list"
  cf_localWrite :: bool
  cf_tsnetSpecs :: "string list"
  cf_gcRules :: "GCRule list"
  cf_gcInterval :: int
  cf_storePrefix :: string
  cf_storeRoot :: string
  cf_importConcurrency :: int
  cf_maxNarSize :: uint64

text \<open>The flags as parsed; \<open>fl_isSet\<close> is whether one was given, \<open>fl_base\<close> holds those copied as they are.\<close>

record serveFlags =
  fl_base :: serveConfig
  fl_gcInterval :: string
  fl_allowMissingCodecs :: bool
  fl_store :: string
  fl_isSet :: "string \<Rightarrow> bool"

definition multiFlag_Set :: "string list \<Rightarrow> string \<Rightarrow> string list" where
  "multiFlag_Set f v = f @ [v]"

definition defaultSpoolDir :: string where "defaultSpoolDir = ''/var/cache/tsnixcache/spool''"

definition defaultListenAddr :: string where "defaultListenAddr = ''127.0.0.1:5000''"

section \<open>Checking the flags\<close>

definition parseGCInterval :: "(nat \<Rightarrow> nat \<Rightarrow> nat \<Rightarrow> nat) \<Rightarrow> string \<Rightarrow> serve_error + int" where
  "parseGCInterval frac s = (case parseDurationString frac s of Inl e \<Rightarrow> Inl (BadGCInterval e) | Inr d \<Rightarrow> Inr d)"

fun codec_loop :: "bool \<Rightarrow> Requirement list \<Rightarrow> serve_error option" where
  "codec_loop allowMissing [] = None"
| "codec_loop allowMissing (req # reqs) =
     (if \<not> Decode req \<or> Present req then codec_loop allowMissing reqs
      else if Optional req then codec_loop allowMissing reqs
      else if allowMissing then codec_loop allowMissing reqs
      else Some (MissingCodecBinary (Binary req)))"

definition checkCodecBinaries :: "(string \<Rightarrow> bool) \<Rightarrow> bool \<Rightarrow> bool \<Rightarrow> serve_error option" where
  "checkCodecBinaries inPath useExternal allowMissing = codec_loop allowMissing (Requirements inPath useExternal)"

definition storePathFlags :: "string list" where
  "storePathFlags = [''store-dir'', ''db'', ''nix-store-uri'', ''gcroot-dir'']"

definition applyStorePrefix :: "(string \<Rightarrow> bool) \<Rightarrow> string \<Rightarrow> serveConfig \<Rightarrow> serve_error + serveConfig" where
  "applyStorePrefix isSet pfx cfg =
     (if pfx = [] then Inr cfg
      else case filter isSet storePathFlags of
        name # _ \<Rightarrow> Inl (StoreFlagConflict name)
      | [] \<Rightarrow> Inr (cfg\<lparr>cf_storePrefix := pfx, cf_storeRoot := pfx,
                cf_dbPath := filepath_Join [pfx, ''nix'', ''var'', ''nix'', ''db'', ''db.sqlite''],
                cf_nixStoreURI := pfx,
                cf_gcRootDir := filepath_Join [pfx, ''nix'', ''var'', ''nix'', ''gcroots'', ''tsnixcache'']\<rparr>))"

text \<open>\<^verbatim>\<open>Exec\<close> of the command, up to \<^verbatim>\<open>runServe\<close>.\<close>

definition serve_Exec ::
  "(nat \<Rightarrow> nat \<Rightarrow> nat \<Rightarrow> nat) \<Rightarrow> (string \<Rightarrow> bool) \<Rightarrow> serveFlags \<Rightarrow> serve_error + serveConfig" where
  "serve_Exec frac inPath fl =
     (let base = fl_base fl in
      if cf_maxNarSize base = 0 \<or> 2 ^ 63 - 1 \<le> cf_maxNarSize base then Inl BadMaxNarSize
      else case parseGCInterval frac (fl_gcInterval fl) of
        Inl e \<Rightarrow> Inl e
      | Inr interval \<Rightarrow>
          if cf_serveCompression base \<noteq> compressionNone \<and> cf_serveCompression base \<noteq> compressionZstd
          then Inl (BadServeCompression (cf_serveCompression base))
          else case checkCodecBinaries inPath (cf_externalCompression base) (fl_allowMissingCodecs fl) of
            Some e \<Rightarrow> Inl e
          | None \<Rightarrow>
              (case applyStorePrefix (fl_isSet fl) (fl_store fl)
                      (base\<lparr>cf_gcInterval := interval, cf_storePrefix := [], cf_storeRoot := []\<rparr>) of
                 Inl e \<Rightarrow> Inl e
               | Inr cfg \<Rightarrow>
                   if cf_gcRules cfg \<noteq> [] \<and> cf_storePrefix cfg \<noteq> [] then Inl StoreGCConflict
                   else if cf_gcRules cfg \<noteq> [] \<and> path_Clean (cf_storeDir cfg) \<noteq> defaultStoreDir
                   then Inl (GCNonDefaultStore (cf_storeDir cfg))
                   else Inr cfg))"

section \<open>The store\<close>

text \<open>\<^verbatim>\<open>openStore\<close>: whether the database exists, whether \<^verbatim>\<open>nix-store --init\<close> works, what \<^verbatim>\<open>store.Open\<close> gives.\<close>

definition ensureChrootStore :: "(string \<Rightarrow> bool) \<Rightarrow> (string \<Rightarrow> bool) \<Rightarrow> string \<Rightarrow> string \<Rightarrow> serve_error option" where
  "ensureChrootStore exists initOk pfx dbPath =
     (if exists dbPath then None else if initOk pfx then None else Some InitChroot)"

definition openStore ::
  "(string \<Rightarrow> bool) \<Rightarrow> (string \<Rightarrow> bool) \<Rightarrow> (string \<Rightarrow> string \<Rightarrow> Store option) \<Rightarrow> serveConfig \<Rightarrow> serve_error + Store" where
  "openStore exists initOk open_db cfg =
     (case (if cf_storePrefix cfg \<noteq> [] then ensureChrootStore exists initOk (cf_storePrefix cfg) (cf_dbPath cfg) else None) of
        Some e \<Rightarrow> Inl e
      | None \<Rightarrow> (case open_db (cf_dbPath cfg) (cf_storeDir cfg) of None \<Rightarrow> Inl OpenStore | Some st \<Rightarrow> Inr st))"

text \<open>\<^verbatim>\<open>pendingStore\<close>: the handle, once opened.\<close>

type_synonym pendingStore = "Store option"

definition pending_open :: "serve_error + Store \<Rightarrow> pendingStore \<Rightarrow> serve_error option \<times> pendingStore" where
  "pending_open res p = (case res of Inl e \<Rightarrow> (Some e, p) | Inr st \<Rightarrow> (None, Some st))"

definition pending_PathInfo :: "pendingStore \<Rightarrow> string \<Rightarrow> (serve_error + (store_error + PathInfo)) \<times> pendingStore" where
  "pending_PathInfo p hp =
     (case p of
        None \<Rightarrow> (Inl StoreUnavailable, p)
      | Some st \<Rightarrow> (case Store_PathInfo st hp of (res, st', _) \<Rightarrow> (Inr res, Some st')))"

definition storeRetryMin :: int where "storeRetryMin = 500 * 10 ^ 6"
definition storeRetryMax :: int where "storeRetryMax = 30 * 10 ^ 9"

text \<open>
  \<^verbatim>\<open>openWithRetry\<close> over the outcomes of its attempts until the context is cancelled; the result also lists the
  waits before the attempts.
\<close>

fun retry_loop :: "int \<Rightarrow> (serve_error + Store) list \<Rightarrow> pendingStore \<Rightarrow> int list \<times> pendingStore" where
  "retry_loop delay [] p = ([], p)"
| "retry_loop delay (res # outcomes) p =
     (case pending_open res p of
        (None, p') \<Rightarrow> ([delay], p')
      | (Some _, p') \<Rightarrow>
          (case retry_loop (min (delay * 2) storeRetryMax) outcomes p' of (waits, p'') \<Rightarrow> (delay # waits, p'')))"

definition openWithRetry :: "(serve_error + Store) list \<Rightarrow> pendingStore \<Rightarrow> int list \<times> pendingStore" where
  "openWithRetry = retry_loop storeRetryMin"

section \<open>Key, spool, importer\<close>

definition loadSigner :: "ed25519 \<Rightarrow> (string \<Rightarrow> string option) \<Rightarrow> string \<Rightarrow> serve_error + SecretKey option" where
  "loadSigner E readFile keyFile =
     (if keyFile = [] then Inr None
      else case readFile keyFile of
        None \<Rightarrow> Inl ReadSignKey
      | Some content \<Rightarrow> (case ParseSecretKey E (TrimSpace content) of Inl e \<Rightarrow> Inl (ParseSignKey e) | Inr sk \<Rightarrow> Inr (Some sk)))"

record file_info =
  fi_symlink :: bool
  fi_isDir :: bool
  fi_perm :: nat
  fi_uid :: "int option"

definition ensureSpoolDir :: "bool \<Rightarrow> file_info option \<Rightarrow> int \<Rightarrow> serve_error option" where
  "ensureSpoolDir mkdirOk lstat_res uid =
     (if \<not> mkdirOk then Some SpoolMkdir
      else case lstat_res of
        None \<Rightarrow> Some SpoolStat
      | Some fi \<Rightarrow>
          if fi_symlink fi then Some UnsafeSpoolDir
          else if \<not> fi_isDir fi then Some UnsafeSpoolDir
          else if fi_perm fi AND 18 \<noteq> 0 then Some UnsafeSpoolDir
          else (case fi_uid fi of Some u \<Rightarrow> if u \<noteq> uid then Some UnsafeSpoolDir else None | None \<Rightarrow> None))"

definition newImporter :: "serveConfig \<Rightarrow> Importer" where
  "newImporter cfg =
     \<lparr>SpoolDir = cf_spoolDir cfg, GCRootDir = cf_gcRootDir cfg, imp_StoreDir = cf_storeDir cfg,
      NixStoreURI = (if cf_nixStoreURI cfg = ''auto'' then [] else cf_nixStoreURI cfg),
      UseExternal = cf_externalCompression cfg, MaxNarSize = cf_maxNarSize cfg\<rparr>"

definition cache_config :: "serveConfig \<Rightarrow> (string \<Rightarrow> string) option \<Rightarrow> config" where
  "cache_config cfg signer =
     \<lparr>cfg_Signer = signer, cfg_Priority = cf_priority cfg, cfg_SpoolDir = cf_spoolDir cfg,
      cfg_ServeCompression = cf_serveCompression cfg, cfg_StoreDir = cf_storeDir cfg, cfg_StoreRoot = cf_storeRoot cfg,
      cfg_ImportFn = True, cfg_ImportConcurrency = cf_importConcurrency cfg, cfg_MaxNarSize = cf_maxNarSize cfg\<rparr>"

section \<open>Listeners\<close>

definition localListenAddrs :: "string list \<Rightarrow> string list \<Rightarrow> string list" where
  "localListenAddrs flagValues tsnetSpecs =
     (if flagValues = [] then (if tsnetSpecs \<noteq> [] then [] else [defaultListenAddr])
      else filter (\<lambda>addr. addr \<noteq> []) (map TrimSpace flagValues))"

text \<open>
  \<^verbatim>\<open>listenAll\<close>: the result and the sockets that stay open; \<open>bind\<close> says whether an address can be bound
  beside those already bound.
\<close>

fun listen_loop :: "(string list \<Rightarrow> string \<Rightarrow> bool) \<Rightarrow> string list \<Rightarrow> string list \<Rightarrow> (serve_error + string list) \<times> string list" where
  "listen_loop bind listeners [] = (Inr listeners, listeners)"
| "listen_loop bind listeners (addr # addrs) =
     (if bind listeners addr then listen_loop bind (listeners @ [addr]) addrs else (Inl (ListenErr addr), []))"

definition listenAll :: "(string list \<Rightarrow> string \<Rightarrow> bool) \<Rightarrow> string list \<Rightarrow> (serve_error + string list) \<times> string list" where
  "listenAll bind addrs = listen_loop bind [] addrs"

record tsnetSpec =
  ts_hostname :: string
  ts_authKeyFile :: string
  ts_dir :: string
  ts_port :: string
  ts_control :: string

text \<open>\<^verbatim>\<open>strconv.ParseBool\<close>.\<close>

definition ParseBool :: "string \<Rightarrow> bool option" where
  "ParseBool s =
     (if s \<in> {''1'', ''t'', ''T'', ''TRUE'', ''true'', ''True''} then Some True
      else if s \<in> {''0'', ''f'', ''F'', ''FALSE'', ''false'', ''False''} then Some False else None)"

definition tsnet_part :: "string \<Rightarrow> tsnetSpec \<Rightarrow> serve_error + tsnetSpec" where
  "tsnet_part part spec =
     (if TrimSpace part = [] then Inr spec
      else case Cut part ''='' of (k, v, ok) \<Rightarrow>
        if \<not> ok then Inl (TsnetMalformedPart part)
        else let key = TrimSpace k in
          if key = ''hostname'' then Inr (spec\<lparr>ts_hostname := v\<rparr>)
          else if key = ''authkey-file'' then Inr (spec\<lparr>ts_authKeyFile := v\<rparr>)
          else if key = ''dir'' then Inr (spec\<lparr>ts_dir := v\<rparr>)
          else if key = ''port'' then Inr (spec\<lparr>ts_port := v\<rparr>)
          else if key = ''tls'' then
            (case ParseBool v of None \<Rightarrow> Inl (TsnetBadBool v) | Some enabled \<Rightarrow> if enabled then Inl TsnetTLSUnsupported else Inr spec)
          else if key = ''control'' then Inr (spec\<lparr>ts_control := v\<rparr>)
          else Inl (TsnetUnknownKey k))"

fun tsnet_parts :: "string list \<Rightarrow> tsnetSpec \<Rightarrow> serve_error + tsnetSpec" where
  "tsnet_parts [] spec = Inr spec"
| "tsnet_parts (part # parts) spec = (case tsnet_part part spec of Inl e \<Rightarrow> Inl e | Inr spec' \<Rightarrow> tsnet_parts parts spec')"

definition parseTsnetSpec :: "string \<Rightarrow> serve_error + tsnetSpec" where
  "parseTsnetSpec s =
     (case tsnet_parts (split_char CHR '','' s) \<lparr>ts_hostname = [], ts_authKeyFile = [], ts_dir = [], ts_port = [], ts_control = []\<rparr> of
        Inl e \<Rightarrow> Inl e
      | Inr spec \<Rightarrow> Inr (if ts_hostname spec = [] then spec\<lparr>ts_hostname := ''tsnixcache''\<rparr> else spec))"

text \<open>\<open>tsnet_env\<close>: reading the key file, starting the node with that key, its local client, listening on a port.\<close>

record tsnet_env =
  te_readFile :: "string \<Rightarrow> string option"
  te_start :: "tsnetSpec \<Rightarrow> string \<Rightarrow> bool"
  te_client :: bool
  te_listen :: "string \<Rightarrow> bool"

datatype listener = LocalListener string | TsnetListener tsnetSpec string

definition setupTsnetListener :: "tsnet_env \<Rightarrow> string \<Rightarrow> serve_error + listener" where
  "setupTsnetListener te s =
     (case parseTsnetSpec s of
        Inl e \<Rightarrow> Inl e
      | Inr spec \<Rightarrow>
          (case (if ts_authKeyFile spec \<noteq> [] then map_option TrimSpace (te_readFile te (ts_authKeyFile spec)) else Some []) of
             None \<Rightarrow> Inl ReadAuthKey
           | Some authKey \<Rightarrow>
               if \<not> te_start te spec authKey then Inl TsnetStart
               else if \<not> te_client te then Inl TsnetLocalClient
               else let port = (if ts_port spec = [] then ''80'' else ts_port spec) in
                 if te_listen te ('':'' @ port) then Inr (TsnetListener spec port) else Inl TsnetListen))"

fun setup_tsnet :: "tsnet_env \<Rightarrow> string list \<Rightarrow> listener list \<times> serve_error option" where
  "setup_tsnet te [] = ([], None)"
| "setup_tsnet te (s # ss) =
     (case setupTsnetListener te s of
        Inl e \<Rightarrow> ([], Some e)
      | Inr l \<Rightarrow> (case setup_tsnet te ss of (ls, e) \<Rightarrow> (l # ls, e)))"

section \<open>Running\<close>

record 'n serve_env =
  se_readFile :: "string \<Rightarrow> string option"
  se_mkdirOk :: bool
  se_lstat :: "file_info option"
  se_uid :: int
  se_exists :: "string \<Rightarrow> bool"
  se_initOk :: "string \<Rightarrow> bool"
  se_openDB :: "string \<Rightarrow> string \<Rightarrow> Store option"
  se_initZstd :: "string option"
  se_numCPU :: nat
  se_version :: string
  se_env :: "'n env"
  se_emptyStore :: Store
  se_spool :: spool_dir
  se_nixstore :: 'n
  se_bind :: "string list \<Rightarrow> string \<Rightarrow> bool"
  se_tsnet :: tsnet_env

text \<open>
  What is up when \<^verbatim>\<open>runServe\<close> starts waiting: the server, its listeners, whether the store is still to be
  opened (its place is taken by \<open>se_emptyStore\<close> meanwhile) and the error that brings everything down again.
\<close>

record 'n running =
  ru_server :: server
  ru_state :: "'n cache_state"
  ru_listeners :: "listener list"
  ru_degraded :: bool
  ru_failed :: "serve_error option"

definition runServe :: "ed25519 \<Rightarrow> 'n serve_env \<Rightarrow> serveConfig \<Rightarrow> serve_error + 'n running" where
  "runServe E se cfg =
     (case loadSigner E (se_readFile se) (cf_signKeyFile cfg) of
        Inl e \<Rightarrow> Inl e
      | Inr signer \<Rightarrow>
     (case ensureSpoolDir (se_mkdirOk se) (se_lstat se) (se_uid se) of
        Some e \<Rightarrow> Inl e
      | None \<Rightarrow>
     let pending = snd (pending_open (openStore (se_exists se) (se_initOk se) (se_openDB se) cfg) None) in
     (case New (cache_config cfg (map_option (Sign E) signer)) (se_initZstd se) (se_numCPU se) (se_version se) (se_env se)
             (case pending of None \<Rightarrow> se_emptyStore se | Some st \<Rightarrow> st) (se_spool se) (se_nixstore se) of
        Inl e \<Rightarrow> Inl (CacheErr e)
      | Inr (srv, s) \<Rightarrow>
     let addrs = localListenAddrs (cf_listenAddrs cfg) (cf_tsnetSpecs cfg) in
     if addrs = [] \<and> cf_tsnetSpecs cfg = [] then Inl NoListeners
     else (case listenAll (se_bind se) addrs of
        (Inl e, _) \<Rightarrow> Inl e
      | (Inr bound, _) \<Rightarrow>
          (case setup_tsnet (se_tsnet se) (cf_tsnetSpecs cfg) of
             (ts, err) \<Rightarrow>
               Inr \<lparr>ru_server = srv, ru_state = s, ru_listeners = map LocalListener bound @ ts, ru_degraded = (pending = None),
                    ru_failed = err\<rparr>)))))"

text \<open>The handler a listener serves.\<close>

definition handler_of ::
  "serveConfig \<Rightarrow> tailnet \<Rightarrow> server \<Rightarrow> listener \<Rightarrow> 'n http_request \<Rightarrow> 'n cache_state auth_state \<Rightarrow>
     response \<times> 'n cache_state auth_state" where
  "handler_of cfg T srv l =
     (case l of LocalListener _ \<Rightarrow> localHandler (cache_handler srv) (cf_localWrite cfg)
      | TsnetListener _ _ \<Rightarrow> tsnetHandler T (cache_handler srv))"

definition zstdMaxIdle :: int where "zstdMaxIdle = 60 * 60 * 10 ^ 9"
definition spoolMaxIdle :: int where "spoolMaxIdle = 24 * 60 * 60 * 10 ^ 9"

text \<open>The spool half of \<^verbatim>\<open>sweepOnce\<close>; the compressed cache is swept by \<^verbatim>\<open>SweepZstdCache\<close>.\<close>

definition sweepOnce :: "'n env \<Rightarrow> spool_dir \<Rightarrow> spool_dir" where
  "sweepOnce e sp = snd (SweepSpool e spoolMaxIdle sp)"


text \<open>Requests arriving at the listeners, in the order in which they are served.\<close>

fun serve_all ::
  "serveConfig \<Rightarrow> tailnet \<Rightarrow> server \<Rightarrow> (listener \<times> 'n http_request) list \<Rightarrow> 'n cache_state auth_state \<Rightarrow>
   'n cache_state auth_state" where
  "serve_all cfg T srv [] s = s"
| "serve_all cfg T srv ((l, r) # reqs) s = serve_all cfg T srv reqs (snd (handler_of cfg T srv l r s))"

definition unprivileged :: "tailnet \<Rightarrow> listener \<Rightarrow> 'n http_request \<Rightarrow> bool" where
  "unprivileged T l r = (case l of LocalListener _ \<Rightarrow> True | TsnetListener _ _ \<Rightarrow> \<not> may_push T (RemoteAddr r))"

section \<open>Lemmas\<close>

lemma codec_loop_None:
  "codec_loop am reqs = None \<longleftrightarrow> (\<forall>r\<in>set reqs. Decode r \<and> \<not> Optional r \<longrightarrow> Present r \<or> am)"
  by (induction am reqs rule: codec_loop.induct) auto

lemma checkCodecBinaries_None: "checkCodecBinaries inPath ue am = None \<longleftrightarrow> inPath ''xz'' \<or> am"
  by (auto simp: checkCodecBinaries_def codec_loop_None Requirements_def requirement_table_def)

lemma checkCodecBinaries_ok [simp]: "inPath ''xz'' \<or> am \<Longrightarrow> checkCodecBinaries inPath ue am = None"
  by (simp add: checkCodecBinaries_None)

lemma parseGCInterval_bounds: "parseGCInterval frac s = Inr d \<Longrightarrow> 0 < d \<and> d < 2 ^ 63"
  using parseDurationString_bounds by (auto simp: parseGCInterval_def split: sum.splits)

lemma applyStorePrefix_Inr:
  assumes "applyStorePrefix isSet pfx cfg = Inr cfg'"
  shows "(pfx = [] \<and> cfg' = cfg) \<or>
    (pfx \<noteq> [] \<and> (\<forall>n\<in>set storePathFlags. \<not> isSet n) \<and>
     cfg' = cfg\<lparr>cf_storePrefix := pfx, cf_storeRoot := pfx,
                cf_dbPath := filepath_Join [pfx, ''nix'', ''var'', ''nix'', ''db'', ''db.sqlite''],
                cf_nixStoreURI := pfx,
                cf_gcRootDir := filepath_Join [pfx, ''nix'', ''var'', ''nix'', ''gcroots'', ''tsnixcache'']\<rparr>)"
  using assms by (auto simp: applyStorePrefix_def filter_empty_conv split: if_splits list.splits)

text \<open>What the accepted configuration is made of.\<close>

lemma serve_Exec_Inr:
  assumes "serve_Exec frac inPath fl = Inr cfg"
  obtains interval where
    "0 < cf_maxNarSize (fl_base fl)" "cf_maxNarSize (fl_base fl) < 2 ^ 63 - 1"
    "parseGCInterval frac (fl_gcInterval fl) = Inr interval"
    "cf_serveCompression (fl_base fl) \<in> {compressionNone, compressionZstd}"
    "inPath ''xz'' \<or> fl_allowMissingCodecs fl"
    "applyStorePrefix (fl_isSet fl) (fl_store fl)
       ((fl_base fl)\<lparr>cf_gcInterval := interval, cf_storePrefix := [], cf_storeRoot := []\<rparr>) = Inr cfg"
    "cf_gcRules cfg \<noteq> [] \<longrightarrow> cf_storePrefix cfg = [] \<and> path_Clean (cf_storeDir cfg) = defaultStoreDir"
  using assms by (auto simp: serve_Exec_def Let_def checkCodecBinaries_None word_neq_0_conv not_le split: if_splits sum.splits option.splits)

lemma serve_Exec_keeps:
  assumes "serve_Exec frac inPath fl = Inr cfg"
  shows "cf_localWrite cfg = cf_localWrite (fl_base fl) \<and> cf_listenAddrs cfg = cf_listenAddrs (fl_base fl) \<and>
    cf_tsnetSpecs cfg = cf_tsnetSpecs (fl_base fl) \<and> cf_maxNarSize cfg = cf_maxNarSize (fl_base fl) \<and>
    cf_serveCompression cfg = cf_serveCompression (fl_base fl) \<and> cf_gcRules cfg = cf_gcRules (fl_base fl) \<and>
    cf_storeDir cfg = cf_storeDir (fl_base fl)"
proof -
  obtain interval where "applyStorePrefix (fl_isSet fl) (fl_store fl)
       ((fl_base fl)\<lparr>cf_gcInterval := interval, cf_storePrefix := [], cf_storeRoot := []\<rparr>) = Inr cfg"
    using serve_Exec_Inr [OF assms] by blast
  from applyStorePrefix_Inr [OF this] show ?thesis by auto
qed

lemma listen_loop_Inr:
  "listen_loop bind ls addrs = (Inr bound, opened) \<longleftrightarrow> bound = ls @ addrs \<and> opened = bound \<and> fst (listen_loop bind ls addrs) = Inr (ls @ addrs)"
  by (induction bind ls addrs rule: listen_loop.induct) auto

lemma listenAll_Inr: "listenAll bind addrs = (Inr bound, opened) \<Longrightarrow> bound = addrs \<and> opened = addrs"
  using listen_loop_Inr [of bind "[]" addrs bound opened] by (simp add: listenAll_def)

lemma listenAll_Inl: "listenAll bind addrs = (Inl e, opened) \<Longrightarrow> opened = []"
proof -
  have "listen_loop bind ls addrs = (Inl e, opened) \<Longrightarrow> opened = []" for ls
    by (induction bind ls addrs rule: listen_loop.induct) (auto split: if_splits)
  then show "listenAll bind addrs = (Inl e, opened) \<Longrightarrow> opened = []" by (auto simp: listenAll_def)
qed

lemma setupTsnetListener_Inr:
  "setupTsnetListener te s = Inr l \<Longrightarrow> \<exists>spec port. l = TsnetListener spec port \<and> port \<noteq> [] \<and> parseTsnetSpec s = Inr spec"
  by (auto simp: setupTsnetListener_def Let_def split: sum.splits option.splits if_splits)

lemma setup_tsnet_listeners: "l \<in> set (fst (setup_tsnet te ss)) \<Longrightarrow> \<exists>spec port. l = TsnetListener spec port"
  by (induction te ss rule: setup_tsnet.induct) (auto split: sum.splits prod.splits dest: setupTsnetListener_Inr)

lemma setup_tsnet_length:
  "length (fst (setup_tsnet te ss)) \<le> length ss \<and>
   (snd (setup_tsnet te ss) = None \<longleftrightarrow> length (fst (setup_tsnet te ss)) = length ss)"
  by (induction te ss rule: setup_tsnet.induct) (auto split: sum.splits prod.splits)

lemma parseTsnetSpec_hostname: "parseTsnetSpec s = Inr spec \<Longrightarrow> ts_hostname spec \<noteq> []"
  by (auto simp: parseTsnetSpec_def split: sum.splits if_splits)

lemma perm_mask: "(p::nat) AND 18 = 0 \<longleftrightarrow> \<not> bit p 1 \<and> \<not> bit p 4"
proof -
  have b: "bit (18::nat) i \<longleftrightarrow> i = 1 \<or> i = 4" for i
  proof -
    have e: "(18::nat) = set_bit 1 (set_bit 4 0)" by code_simp
    show ?thesis unfolding e bit_set_bit_iff by (auto simp del: set_bit_0)
  qed
  have "p AND 18 = 0 \<longleftrightarrow> (\<forall>i. \<not> (bit p i \<and> (i = 1 \<or> i = 4)))"
    unfolding bit_eq_iff [of "p AND 18"] bit_and_iff b by simp
  then show ?thesis by auto
qed

definition spool_safe :: "file_info \<Rightarrow> int \<Rightarrow> bool" where
  "spool_safe fi uid \<longleftrightarrow> \<not> fi_symlink fi \<and> fi_isDir fi \<and> \<not> bit (fi_perm fi) 1 \<and> \<not> bit (fi_perm fi) 4 \<and>
     (\<forall>u. fi_uid fi = Some u \<longrightarrow> u = uid)"

lemma ensureSpoolDir_None:
  "ensureSpoolDir ok st uid = None \<longleftrightarrow> ok \<and> (\<exists>fi. st = Some fi \<and> spool_safe fi uid)"
  by (auto simp: ensureSpoolDir_def spool_safe_def perm_mask split: option.splits if_splits)

lemma runServe_Inr:
  assumes "runServe E se cfg = Inr ru"
  obtains signer where
    "loadSigner E (se_readFile se) (cf_signKeyFile cfg) = Inr signer"
    "ensureSpoolDir (se_mkdirOk se) (se_lstat se) (se_uid se) = None"
    "ru_listeners ru = map LocalListener (localListenAddrs (cf_listenAddrs cfg) (cf_tsnetSpecs cfg)) @
       fst (setup_tsnet (se_tsnet se) (cf_tsnetSpecs cfg))"
    "sv_signer (ru_server ru) = map_option (Sign E) signer"
    "sv_maxNarSize (ru_server ru) = (if cf_maxNarSize cfg = 0 then word_of_nat maxNarBytes else cf_maxNarSize cfg)"
    "sv_storeDirLogical (ru_server ru) = cf_storeDir cfg"
    "sv_storeDir (ru_server ru) = filepath_Join [cf_storeRoot cfg, cf_storeDir cfg]"
    "ru_failed ru = snd (setup_tsnet (se_tsnet se) (cf_tsnetSpecs cfg))"
    "ru_degraded ru = (\<exists>e. openStore (se_exists se) (se_initOk se) (se_openDB se) cfg = Inl e)"
    "localListenAddrs (cf_listenAddrs cfg) (cf_tsnetSpecs cfg) = [] \<longrightarrow> cf_tsnetSpecs cfg \<noteq> []"
  using assms
  by (auto simp: runServe_def Let_def New_def cache_config_def pending_open_def dest!: listenAll_Inr split: sum.splits option.splits prod.splits if_splits)

lemma handler_of_keeps:
  assumes "\<not> cf_localWrite cfg" "unprivileged T l r"
  shows "view (inner (snd (handler_of cfg T srv l r s))) = view (inner s)"
proof (cases l)
  case (LocalListener a)
  then show ?thesis using local_keeps [of srv "[r]" s] assms(1) by (simp add: handler_of_def)
next
  case (TsnetListener spec port)
  then show ?thesis
    using cache_reads.serve_tsnet_keeps [of T "[r]" srv s] assms(2) by (simp add: handler_of_def unprivileged_def)
qed

lemma serve_all_keeps:
  "\<not> cf_localWrite cfg \<Longrightarrow> \<forall>(l, r)\<in>set reqs. unprivileged T l r \<Longrightarrow>
   view (inner (serve_all cfg T srv reqs s)) = view (inner s)"
  by (induction cfg T srv reqs s rule: serve_all.induct) (auto simp: handler_of_keeps)

lemma retry_loop_opens:
  assumes "delay \<le> storeRetryMax" "storeRetryMin \<le> delay"
  shows "retry_loop delay (map Inl es @ Inr st # rest) p =
    (map (\<lambda>i. min (delay * 2 ^ i) storeRetryMax) [0..<Suc (length es)], Some st)"
  using assms
proof (induction es arbitrary: delay)
  case (Cons e es)
  have pos: "0 < delay" using Cons.prems by (simp add: storeRetryMin_def)
  have "min (min (delay * 2) storeRetryMax * 2 ^ i) storeRetryMax = min (delay * 2 ^ Suc i) storeRetryMax" for i
  proof (cases "delay * 2 \<le> storeRetryMax")
    case False
    have "(1::int) \<le> 2 ^ i" by simp
    then have "delay * 2 * 1 \<le> delay * 2 * 2 ^ i" "storeRetryMax * 1 \<le> storeRetryMax * 2 ^ i"
      using pos Cons.prems by (auto intro!: mult_left_mono)
    then show ?thesis using False by (simp add: min_def)
  qed (simp add: ac_simps)
  then show ?case
    using Cons.IH [of "min (delay * 2) storeRetryMax"] Cons.prems pos
    by (simp add: pending_open_def map_upt_Suc del: upt_Suc)
qed (auto simp: pending_open_def)

lemma retry_loop_fails: "snd (retry_loop delay (map Inl es) p) = p"
proof (induction es arbitrary: delay)
  case (Cons e es)
  then show ?case
    using Cons.IH [of "min (delay * 2) storeRetryMax"] by (simp add: pending_open_def split_def)
qed simp

text \<open>The command lines that are accepted, and what becomes of them.\<close>

lemma serve_Exec_accepts:
  "(\<exists>cfg. serve_Exec frac inPath fl = Inr cfg) \<longleftrightarrow>
     0 < cf_maxNarSize (fl_base fl) \<and> cf_maxNarSize (fl_base fl) < 2 ^ 63 - 1 \<and>
     (\<exists>d. parseDurationString frac (fl_gcInterval fl) = Inr d) \<and>
     cf_serveCompression (fl_base fl) \<in> {compressionNone, compressionZstd} \<and>
     (inPath ''xz'' \<or> fl_allowMissingCodecs fl) \<and>
     (fl_store fl = [] \<or> (\<forall>n\<in>set storePathFlags. \<not> fl_isSet fl n)) \<and>
     (cf_gcRules (fl_base fl) = [] \<or> fl_store fl = [] \<and> path_Clean (cf_storeDir (fl_base fl)) = defaultStoreDir)"
  (is "?A \<longleftrightarrow> ?B")
proof
  assume ?A
  then obtain cfg where c: "serve_Exec frac inPath fl = Inr cfg" by blast
  obtain i where i: "parseGCInterval frac (fl_gcInterval fl) = Inr i"
    "applyStorePrefix (fl_isSet fl) (fl_store fl) ((fl_base fl)\<lparr>cf_gcInterval := i, cf_storePrefix := [], cf_storeRoot := []\<rparr>) = Inr cfg"
    and rest: "0 < cf_maxNarSize (fl_base fl)" "cf_maxNarSize (fl_base fl) < 2 ^ 63 - 1"
    "cf_serveCompression (fl_base fl) \<in> {compressionNone, compressionZstd}" "inPath ''xz'' \<or> fl_allowMissingCodecs fl"
    "cf_gcRules cfg \<noteq> [] \<longrightarrow> cf_storePrefix cfg = [] \<and> path_Clean (cf_storeDir cfg) = defaultStoreDir"
    by (rule serve_Exec_Inr [OF c]) (rule that; assumption)
  have "\<exists>d. parseDurationString frac (fl_gcInterval fl) = Inr d"
    using i(1) by (auto simp: parseGCInterval_def split: sum.splits)
  then show ?B using rest applyStorePrefix_Inr [OF i(2)] by auto
next
  assume b: ?B
  then have "fl_store fl \<noteq> [] \<Longrightarrow> filter (fl_isSet fl) storePathFlags = []" by (auto simp: filter_empty_conv)
  with b show ?A
    by (cases "fl_store fl = []")
      (auto simp: serve_Exec_def parseGCInterval_def applyStorePrefix_def word_neq_0_conv Let_def)
qed

lemma serve_Exec_config:
  assumes "serve_Exec frac inPath fl = Inr cfg"
  shows "0 < cf_gcInterval cfg \<and> cf_gcInterval cfg < 2 ^ 63 \<and> cf_storePrefix cfg = fl_store fl \<and> cf_storeRoot cfg = fl_store fl \<and>
    (if fl_store fl = [] then cf_dbPath cfg = cf_dbPath (fl_base fl) \<and> cf_gcRootDir cfg = cf_gcRootDir (fl_base fl) \<and>
       cf_nixStoreURI cfg = cf_nixStoreURI (fl_base fl)
     else cf_dbPath cfg = path_Clean (fl_store fl @ ''/nix/var/nix/db/db.sqlite'') \<and>
       cf_gcRootDir cfg = path_Clean (fl_store fl @ ''/nix/var/nix/gcroots/tsnixcache'') \<and>
       cf_nixStoreURI cfg = fl_store fl)"
proof -
  obtain i where i: "parseGCInterval frac (fl_gcInterval fl) = Inr i"
    "applyStorePrefix (fl_isSet fl) (fl_store fl) ((fl_base fl)\<lparr>cf_gcInterval := i, cf_storePrefix := [], cf_storeRoot := []\<rparr>) = Inr cfg"
    by (rule serve_Exec_Inr [OF assms]) (rule that; assumption)
  then show ?thesis
    using applyStorePrefix_Inr [OF i(2)] parseGCInterval_bounds [OF i(1)] by (auto simp: filepath_Join_def)
qed

text \<open>Flags close to the defaults.\<close>

definition example_flags :: serveFlags where
  "example_flags =
     \<lparr>fl_base = \<lparr>cf_dbPath = ''/nix/var/nix/db/db.sqlite'', cf_storeDir = ''/nix/store'', cf_signKeyFile = [], cf_priority = 30,
        cf_spoolDir = defaultSpoolDir, cf_gcRootDir = ''/nix/var/nix/gcroots/tsnixcache'', cf_serveCompression = compressionNone,
        cf_nixStoreURI = ''auto'', cf_externalCompression = False, cf_listenAddrs = [], cf_localWrite = False, cf_tsnetSpecs = [],
        cf_gcRules = [], cf_gcInterval = 0, cf_storePrefix = [], cf_storeRoot = [], cf_importConcurrency = 4,
        cf_maxNarSize = 1024\<rparr>,
      fl_gcInterval = ''1d'', fl_allowMissingCodecs = False, fl_store = [], fl_isSet = (\<lambda>_. False)\<rparr>"

definition example_serve_env :: "nat serve_env" where
  "example_serve_env =
     \<lparr>se_readFile = (\<lambda>_. None), se_mkdirOk = True,
      se_lstat = Some \<lparr>fi_symlink = False, fi_isDir = True, fi_perm = 488, fi_uid = Some 0\<rparr>, se_uid = 0, se_exists = (\<lambda>_. True),
      se_initOk = (\<lambda>_. True), se_openDB = (\<lambda>_ _. None), se_initZstd = None, se_numCPU = 4, se_version = ''1'',
      se_env = example_env, se_emptyStore = example_store, se_spool = Map.empty, se_nixstore = 0, se_bind = (\<lambda>_ _. True),
      se_tsnet = \<lparr>te_readFile = (\<lambda>_. None), te_start = (\<lambda>_ _. True), te_client = True, te_listen = (\<lambda>_. True)\<rparr>\<rparr>"

definition no_key :: ed25519 where
  "no_key = \<lparr>ed_pub = (\<lambda>_. []), ed_sign = (\<lambda>_ _. []), ed_verify = (\<lambda>_ _ _. False)\<rparr>"

definition example_config :: serveConfig where
  "example_config = (fl_base example_flags)\<lparr>cf_gcInterval := 86400 * 10 ^ 9\<rparr>"

lemma example_accepts: "serve_Exec (\<lambda>_ _ _. 0) (\<lambda>b. b = ''xz'') example_flags = Inr example_config"
proof -
  have "format_nat (Suc 0) = ''1''" by code_simp
  then have "parseDurationString (\<lambda>_ _ _. 0) ''1d'' = Inr (86400 * 10 ^ 9)"
    using parseDurationString_format [of "86400 * 10 ^ 9" "\<lambda>_ _ _. 0"]
    by (simp add: formatDuration_def day_ns format_int_def)
  then show ?thesis
    by (simp add: serve_Exec_def example_flags_def example_config_def parseGCInterval_def applyStorePrefix_def
      checkCodecBinaries_None Let_def)
qed

lemma example_server_runs: "\<exists>ru. runServe no_key example_serve_env example_config = Inr ru"
proof -
  have "ensureSpoolDir True (Some \<lparr>fi_symlink = False, fi_isDir = True, fi_perm = 488, fi_uid = Some 0\<rparr>) 0 = None" by code_simp
  then show ?thesis
    by (simp add: runServe_def example_serve_env_def example_config_def example_flags_def loadSigner_def
      openStore_def pending_open_def New_def Let_def localListenAddrs_def listenAll_def)
qed

section \<open>Properties\<close>

text \<open>
  C31: which command lines start a server, and what their configuration is.  \<^verbatim>\<open>Exec\<close> goes on to \<^verbatim>\<open>runServe\<close>
  exactly if the size limit is positive and below the largest signed 64-bit number, the interval parses, the
  compression is one of the two, \<^verbatim>\<open>xz\<close> is installed or its absence allowed, no flag that \<^verbatim>\<open>--store\<close> replaces
  accompanies it, and garbage collection is asked for only for the default store.  The configuration then has an
  interval that is positive and fits in 64 bits, and with \<^verbatim>\<open>--store\<close> every path below that prefix.
\<close>

theorem accepted_config_wf:
  "((\<exists>cfg. serve_Exec frac inPath fl = Inr cfg) \<longleftrightarrow>
      0 < cf_maxNarSize (fl_base fl) \<and> cf_maxNarSize (fl_base fl) < 2 ^ 63 - 1 \<and>
      (\<exists>d. parseDurationString frac (fl_gcInterval fl) = Inr d) \<and>
      cf_serveCompression (fl_base fl) \<in> {compressionNone, compressionZstd} \<and>
      (inPath ''xz'' \<or> fl_allowMissingCodecs fl) \<and>
      (fl_store fl = [] \<or> (\<forall>n\<in>set storePathFlags. \<not> fl_isSet fl n)) \<and>
      (cf_gcRules (fl_base fl) = [] \<or> fl_store fl = [] \<and> path_Clean (cf_storeDir (fl_base fl)) = defaultStoreDir)) \<and>
   (\<forall>cfg. serve_Exec frac inPath fl = Inr cfg \<longrightarrow>
      0 < cf_gcInterval cfg \<and> cf_gcInterval cfg < 2 ^ 63 \<and> cf_storePrefix cfg = fl_store fl \<and> cf_storeRoot cfg = fl_store fl \<and>
      (if fl_store fl = [] then cf_dbPath cfg = cf_dbPath (fl_base fl) \<and> cf_gcRootDir cfg = cf_gcRootDir (fl_base fl) \<and>
         cf_nixStoreURI cfg = cf_nixStoreURI (fl_base fl)
       else cf_dbPath cfg = path_Clean (fl_store fl @ ''/nix/var/nix/db/db.sqlite'') \<and>
         cf_gcRootDir cfg = path_Clean (fl_store fl @ ''/nix/var/nix/gcroots/tsnixcache'') \<and>
         cf_nixStoreURI cfg = fl_store fl))"
  using serve_Exec_accepts [of frac inPath fl] serve_Exec_config [of frac inPath fl] by blast

theorem accepted_config_wf_witness:
  "\<exists>cfg. serve_Exec (\<lambda>_ _ _. 0) (\<lambda>b. b = ''xz'') example_flags = Inr cfg \<and> 0 < cf_gcInterval cfg \<and> cf_storeRoot cfg = []"
proof -
  have "cf_storeRoot example_config = fl_store example_flags" "0 < cf_gcInterval example_config"
    using accepted_config_wf [where frac = "\<lambda>_ _ _. 0" and inPath = "\<lambda>b. b = ''xz''" and fl = example_flags] example_accepts by blast+
  then show ?thesis using example_accepts by (simp add: example_flags_def)
qed

text \<open>
  C32: without \<^verbatim>\<open>--local-write\<close> nobody without a push grant can write.  When the server comes up, no sequence of
  requests on its listeners, in any order, changes the spool, the Nix store or the import slots, unless one
  comes from a tailnet peer that may push; and a listener outside the tailnet exists without \<^verbatim>\<open>--listen\<close> only
  when there is no \<^verbatim>\<open>--tsnet\<close>, and is then the loopback default.
\<close>

theorem read_only_server_takes_no_writes:
  assumes "serve_Exec frac inPath fl = Inr cfg" "\<not> cf_localWrite (fl_base fl)"
    and "runServe E se cfg = Inr ru"
    and "\<forall>(l, r)\<in>set reqs. l \<in> set (ru_listeners ru) \<and> unprivileged T l r"
  shows "view (inner (serve_all cfg T (ru_server ru) reqs s)) = view (inner s) \<and>
    (\<forall>a. LocalListener a \<in> set (ru_listeners ru) \<and> cf_listenAddrs (fl_base fl) = [] \<longrightarrow>
       a = defaultListenAddr \<and> cf_tsnetSpecs (fl_base fl) = [])"
proof -
  note keeps = serve_Exec_keeps [OF assms(1)]
  obtain l: "ru_listeners ru = map LocalListener (localListenAddrs (cf_listenAddrs cfg) (cf_tsnetSpecs cfg)) @
      fst (setup_tsnet (se_tsnet se) (cf_tsnetSpecs cfg))"
    by (rule runServe_Inr [OF assms(3)]) (rule that; assumption)
  have "a = defaultListenAddr \<and> cf_tsnetSpecs cfg = []"
    if "LocalListener a \<in> set (ru_listeners ru)" "cf_listenAddrs cfg = []" for a
    using that by (auto simp: l localListenAddrs_def dest!: setup_tsnet_listeners split: if_splits)
  then show ?thesis using assms(2,4) keeps by (auto intro!: serve_all_keeps)
qed

theorem read_only_server_takes_no_writes_witness:
  "\<exists>ru. runServe no_key example_serve_env example_config = Inr ru \<and>
     (\<forall>r s. view (inner (serve_all example_config nobody (ru_server ru) [(LocalListener defaultListenAddr, r)] s)) = view (inner s))"
proof -
  obtain ru where ru: "runServe no_key example_serve_env example_config = Inr ru" using example_server_runs by blast
  have "LocalListener defaultListenAddr \<in> set (ru_listeners ru)"
    by (rule runServe_Inr [OF ru]) (simp add: localListenAddrs_def example_config_def example_flags_def)
  then have "view (inner (serve_all example_config nobody (ru_server ru) [(LocalListener defaultListenAddr, r)] s)) = view (inner s)" for r s
    using read_only_server_takes_no_writes
      [OF example_accepts _ ru, where reqs = "[(LocalListener defaultListenAddr, r)]" and T = nobody and s = s]
    by (simp add: unprivileged_def example_flags_def)
  then show ?thesis using ru by blast
qed

text \<open>
  C33: a server that comes up has passed its checks.  Its spool is a real directory, not a link, of its own
  user and not writable by group or others; with a key file its narinfos are signed with the key read from it,
  and without one they are not signed; the server and the importer agree on the store and the size limit; it
  listens somewhere unless a tailnet listener failed, and it stays up only if every \<^verbatim>\<open>--tsnet\<close> got its listener.
\<close>

theorem running_server_checked:
  assumes "serve_Exec frac inPath fl = Inr cfg" "runServe E se cfg = Inr ru"
  shows "(\<exists>fi. se_lstat se = Some fi \<and> spool_safe fi (se_uid se)) \<and>
    (if cf_signKeyFile cfg = [] then sv_signer (ru_server ru) = None
     else \<exists>content sk. se_readFile se (cf_signKeyFile cfg) = Some content \<and> ParseSecretKey E (TrimSpace content) = Inr sk \<and>
       sv_signer (ru_server ru) = Some (Sign E sk)) \<and>
    sv_maxNarSize (ru_server ru) = MaxNarSize (newImporter cfg) \<and> sv_storeDirLogical (ru_server ru) = imp_StoreDir (newImporter cfg) \<and>
    (ru_listeners ru \<noteq> [] \<or> ru_failed ru \<noteq> None) \<and>
    (ru_failed ru = None \<longleftrightarrow>
       length (filter (\<lambda>l. \<exists>spec port. l = TsnetListener spec port) (ru_listeners ru)) = length (cf_tsnetSpecs (fl_base fl)))"
proof -
  obtain signer where r:
    "loadSigner E (se_readFile se) (cf_signKeyFile cfg) = Inr signer"
    "ensureSpoolDir (se_mkdirOk se) (se_lstat se) (se_uid se) = None"
    "ru_listeners ru = map LocalListener (localListenAddrs (cf_listenAddrs cfg) (cf_tsnetSpecs cfg)) @
       fst (setup_tsnet (se_tsnet se) (cf_tsnetSpecs cfg))"
    "sv_signer (ru_server ru) = map_option (Sign E) signer"
    "sv_maxNarSize (ru_server ru) = (if cf_maxNarSize cfg = 0 then word_of_nat maxNarBytes else cf_maxNarSize cfg)"
    "sv_storeDirLogical (ru_server ru) = cf_storeDir cfg"
    "ru_failed ru = snd (setup_tsnet (se_tsnet se) (cf_tsnetSpecs cfg))"
    "localListenAddrs (cf_listenAddrs cfg) (cf_tsnetSpecs cfg) = [] \<longrightarrow> cf_tsnetSpecs cfg \<noteq> []"
    by (rule runServe_Inr [OF assms(2)]) (rule that; assumption)
  note keeps = serve_Exec_keeps [OF assms(1)]
  have "cf_maxNarSize cfg \<noteq> 0" using serve_Exec_accepts [of frac inPath fl] assms(1) keeps by auto
  moreover have "filter (\<lambda>l. \<exists>spec port. l = TsnetListener spec port) (ru_listeners ru) = fst (setup_tsnet (se_tsnet se) (cf_tsnetSpecs cfg))"
    by (simp add: r(3) filter_empty_conv filter_id_conv) (auto dest: setup_tsnet_listeners)
  moreover note setup_tsnet_length [of "se_tsnet se" "cf_tsnetSpecs cfg"]
  moreover have "ru_listeners ru \<noteq> [] \<or> ru_failed ru \<noteq> None"
    using r(3,7,8) setup_tsnet_length [of "se_tsnet se" "cf_tsnetSpecs cfg"] by auto
  moreover have "\<exists>fi. se_lstat se = Some fi \<and> spool_safe fi (se_uid se)" using r(2) by (simp add: ensureSpoolDir_None)
  moreover have "if cf_signKeyFile cfg = [] then signer = None
    else \<exists>content sk. se_readFile se (cf_signKeyFile cfg) = Some content \<and> ParseSecretKey E (TrimSpace content) = Inr sk \<and> signer = Some sk"
    using r(1) by (auto simp: loadSigner_def split: if_splits option.splits sum.splits)
  ultimately show ?thesis using r keeps by (auto simp: newImporter_def split: if_splits)
qed

theorem running_server_checked_witness:
  "\<exists>ru. runServe no_key example_serve_env example_config = Inr ru \<and> sv_signer (ru_server ru) = None \<and>
     (ru_listeners ru \<noteq> [] \<or> ru_failed ru \<noteq> None)"
proof -
  obtain ru where ru: "runServe no_key example_serve_env example_config = Inr ru" using example_server_runs by blast
  have "cf_signKeyFile example_config = []" by (simp add: example_config_def example_flags_def)
  with running_server_checked [OF example_accepts ru] ru show ?thesis by auto
qed

text \<open>
  A server that came up without its store finds it.  If opening fails any number of times and then
  succeeds, the attempts stop there with the opened store answering queries; the waits double from half a
  second to at most thirty seconds.  Until then every query is refused.
\<close>

theorem degraded_server_recovers:
  "openWithRetry (map Inl errs @ Inr st # rest) None =
     (map (\<lambda>i. min (storeRetryMin * 2 ^ i) storeRetryMax) [0..<Suc (length errs)], Some st) \<and>
   fst (pending_PathInfo (Some st) hp) = Inr (fst (Store_PathInfo st hp)) \<and>
   snd (openWithRetry (map Inl errs) None) = None \<and> pending_PathInfo None hp = (Inl StoreUnavailable, None)"
  using retry_loop_opens [of storeRetryMin errs st rest None] retry_loop_fails [of storeRetryMin errs None]
  by (simp add: openWithRetry_def pending_PathInfo_def storeRetryMin_def storeRetryMax_def split: prod.splits)

end
