(* ===== verification/Spec2Isabelle.thy ===== *)
theory Spec2Isabelle
  imports Nixbase32 Narinfo Signing Nar Auth Store Nixcompress Cache ZstdCacheInv Gc NixImport UploadSched WatchDrain Session Serve
begin

text \<open>
  A model of tsnixcache, a Nix binary cache that serves a store over HTTP and accepts pushes from a
  tailnet.  Definitions are translated from the Go sources and keep their names; each theory below
  models one part, and this one states what holds of several parts together.

  How the program hangs together.  A listener wraps the cache server in \<^verbatim>\<open>auth\<close>: pushes need a grant on
  the tailnet and a switch on local listeners.  The server (\<^verbatim>\<open>cache/cache.go\<close>) answers lookups from the Nix
  database (\<^verbatim>\<open>store\<close>), renders and signs them (\<^verbatim>\<open>narinfo\<close>, \<^verbatim>\<open>signing\<close>, \<^verbatim>\<open>nixbase32\<close>), streams archives of
  store paths (\<^verbatim>\<open>nar\<close>) or the compressed files of a bounded cache (\<^verbatim>\<open>cache/zstd.go\<close>).  A push spools a
  NAR and then its narinfo, which makes \<^verbatim>\<open>niximport\<close> verify the spooled bytes, root the path under a lock of
  \<^verbatim>\<open>gcroot\<close> and hand it to \<^verbatim>\<open>nix-store --serve\<close>.  The watcher of \<^verbatim>\<open>cli/gc.go\<close> prunes old roots under the
  same locks and runs the collector; \<^verbatim>\<open>cli/serve.go\<close> checks the flags and puts the parts together.  On the client
  side \<^verbatim>\<open>upload\<close> pushes a closure in the order of its references, \<^verbatim>\<open>watch\<close> discovers new paths in the Nix
  database, keeps them in a durable queue until they are uploaded and drains that queue before it ends, and a
  session file tells others how that went.

  Theories, from the bottom:
    \<^item> \<open>Prelude\<close>, \<open>GoText\<close>, \<open>GoTime\<close>: what the sources use of Go's \<^verbatim>\<open>strings\<close>, \<^verbatim>\<open>path\<close>, \<^verbatim>\<open>strconv\<close>,
      \<^verbatim>\<open>encoding\<close>, \<^verbatim>\<open>unicode\<close> and \<^verbatim>\<open>time\<close>, with the lemmas on them that several parts share; the locale
      \<open>step_invariant\<close> carries an invariant of a step relation along its runs, and is interpreted for the watcher and
      its sessions.  Strings are
      lists of bytes, \<^verbatim>\<open>uint64\<close> is a 64-bit word, durations are integers with the wrap-around written out.
    \<^item> \<open>Nixbase32\<close> (\<^verbatim>\<open>nixbase32/nixbase32.go\<close>): encoder and decoder; round trip, exact domain of the decoder,
      the hash parts of store paths.
    \<^item> \<open>Narinfo\<close> (\<^verbatim>\<open>narinfo/narinfo.go\<close>): parser with every error, renderer, canonical hashes, fingerprint;
      round trip, exact range of the parser, what a fingerprint binds, size estimate.
    \<^item> \<open>Signing\<close> (\<^verbatim>\<open>signing/signing.go\<close>): keys and signatures over an abstract ed25519; a signature verifies
      under the printed public key, keys survive printing.
    \<^item> \<open>Nar\<close> (\<^verbatim>\<open>nar/nar.go\<close>): the archive writer over a tree of files and a sink that may fail; it refines
      the archive format both ways, what it wrote identifies the tree, the export stream is exact.
    \<^item> \<open>Auth\<close> (\<^verbatim>\<open>auth/auth.go\<close> and the handler wrappers of \<^verbatim>\<open>cli/serve.go\<close>): who may write; the locale
      \<open>read_only_reads\<close> is the contract an inner handler gives, interpreted by \<open>Cache\<close> on the server's own mux.
    \<^item> \<open>Store\<close> (\<^verbatim>\<open>store\<close>): opening and querying the database; SQLite is a parameter, \<open>sqlite_ok\<close> states
      what its prepared statements return.
    \<^item> \<open>Nixcompress\<close> (\<^verbatim>\<open>nixcompress/nixcompress.go\<close>): which codecs exist and need which binary.
    \<^item> \<open>Cache\<close> (\<^verbatim>\<open>cache/cache.go\<close>): every HTTP handler as a function of request, environment and state,
      with its counters, import slots and the spool sweeper.
    \<^item> \<open>ZstdCache\<close>, \<open>ZstdCacheInv\<close> (\<^verbatim>\<open>cache/zstd.go\<close>): the concurrent cache of compressed archives as a
      transition system whose steps are the critical sections of the source, and the invariants of all
      reachable states (pins and leases, byte budget, files, order of last use).
    \<^item> \<open>GCRoot\<close> (\<^verbatim>\<open>gcroot\<close>), \<open>Gc\<close> (\<^verbatim>\<open>cli/gc.go\<close>): root directory and locks; rules, pruning, collecting,
      the watcher.
    \<^item> \<open>NixImport\<close> (\<^verbatim>\<open>niximport\<close>): verification, roots, the serve protocol, rollback; what a child of
      \<^verbatim>\<open>nix-store\<close> was sent, and exactly when an import nobody acknowledged leaves a root.
    \<^item> \<open>Upload\<close>, \<open>UploadSched\<close> (\<^verbatim>\<open>upload/upload.go\<close>): the closure and its graph, the transfers with their errors
      and retries, the stall watchdog; the scheduler as a transition system over all interleavings of its
      workers, with order, concurrency limit, termination and the summary.
    \<^item> \<open>Watch\<close>, \<open>WatchInv\<close>, \<open>WatchDrain\<close> (\<^verbatim>\<open>watch/retry.go\<close>, the statements of \<^verbatim>\<open>gen/dbsqlc\<close>): discovery, anchors
      and replay, the queue, attempts, polls and the final drain; no row is passed over whatever fails and
      however often the watcher restarts, a drain that succeeds has delivered, and a drain ends.
    \<^item> \<open>WatchRun\<close> (\<^verbatim>\<open>db/db.go\<close>, \<^verbatim>\<open>watch/watch.go\<close>, \<^verbatim>\<open>cli/watch.go\<close>): opening the state, which never turns into a
      fresh baseline, the event loop, and what a run without an error has delivered.
    \<^item> \<open>Session\<close> (\<^verbatim>\<open>watch/session.go\<close>, \<^verbatim>\<open>cli/waitfor.go\<close>): the session's status as a state machine shared by its
      owner, its control endpoint and those who recover it; what the success of \<^verbatim>\<open>wait-for\<close> means.
    \<^item> \<open>Serve\<close> (\<^verbatim>\<open>cli/serve.go\<close>): which command lines are accepted, the derived configuration, start-up checks,
      which handler each listener serves, and the retried opening of the store.

  Conventions.  Every fallible call of the outside world (system calls, the database, child processes,
  clocks) is a field of an environment record or a parameter, so a theorem quantifies over all its
  outcomes; errors are constructors of a datatype per part, results are sums.  State is passed
  explicitly.  Loops are structural recursion, or have a termination proof by a measure: the rune and
  duration parsers consume their input, a reservation shortens the list of evictable entries, a page of
  the queue's cleanup starts behind the last one.  Only the loop of the final drain has fuel, because it goes on
  for as long as its surroundings keep changing; in steady ones two rounds per row of the Nix database, one per
  queued path and two more are enough.  The event loop, the scheduler and the waiting for a session run over a list of
  what happens to them.
  Hypotheses of a property state documented behaviour of a parameter (SHA-256 has 32 bytes, a
  decoder is a function of its input, ed25519 verifies its own signatures, a connection loses data or
  breaks but does not alter what it carries) or bounds of the platform (a
  budget of at most \<open>2^63\<close> bytes, writes below \<open>2^63 - 2^16\<close> bytes); each such property is followed by a
  witness that discharges them at a concrete input.

  Not modelled, and why: the dashboard, the terminal progress displays, the formatting of sizes, log lines
  and the registration of metrics (presentation); \<^verbatim>\<open>flakehash\<close> (a build-time helper); the Nix daemon, SQLite, compression codecs,
  SHA-256, ed25519, JSON, tailscale, the backoff library and the file notifier (not code of this repository:
  parameters, where the code relies on them); lock-directory creation and ownership repair in \<^verbatim>\<open>gcroot\<close>
  (sequences of system calls whose failure is one parameter); timers, rates, the pipe between archiver and
  transport in \<^verbatim>\<open>upload\<close> and the idle clock of the watcher; the HTTP timeouts, graceful shutdown and background goroutines of
  \<^verbatim>\<open>serve\<close>; the control socket and PID file of a session beyond their outcomes; the registration of flags, key
  generation and the \<^verbatim>\<open>push\<close> command, which call the modelled parts.  Handlers of the server run one at a time
  here, except for the compressed cache, whose interleavings are modelled.
\<close>

section \<open>Serving signed metadata\<close>

text \<open>What a row of the database has to look like to be described by a narinfo of the store.\<close>

definition wf_pathinfo :: "string \<Rightarrow> PathInfo \<Rightarrow> bool" where
  "wf_pathinfo dir info \<longleftrightarrow>
     in_store (storePrefix dir) (pi_StorePath info) \<and> line_safe (pi_StorePath info) \<and>
     canonical (pi_NarHash info) \<and> 0 < pi_NarSize info \<and> pi_NarSize info < 2 ^ 63 \<and>
     list_all (in_store (storePrefix dir)) (pi_References info) \<and>
     (pi_Deriver info = [] \<or> in_store (storePrefix dir) (pi_Deriver info)) \<and>
     length (pi_Sigs info) < maxSignatures \<and> list_all line_safe (pi_Sigs info) \<and> line_safe (pi_CA info)"

lemma narSize_positive: "0 < k \<Longrightarrow> k < 2 ^ 63 \<Longrightarrow> narSize k \<noteq> 0"
proof
  assume k: "0 < k" "k < 2 ^ 63" "narSize k = 0"
  then have "uint (word_of_int k :: uint64) = k mod 2 ^ 64" by (simp add: uint_word_of_int)
  moreover have "k mod 2 ^ 64 = k" using k(1,2) by simp
  ultimately show False using k by (simp add: narSize_def)
qed

lemma Store_PathInfo_valid: "Store_PathInfo st hp = (Inr info, st', w) \<Longrightarrow> ValidHashPart hp"
  by (simp add: Store_PathInfo_def split: if_splits)

lemma hash_url_safe:
  assumes "ValidHashPart hp" and "line_safe sfx" and "sfx \<noteq> []"
  shows "line_safe (''nar/'' @ hp @ sfx)"
proof -
  have "set hp \<subseteq> set alphabet" using assms(1) by (auto simp: ValidHashPart_def list_all_iff decTable_valid)
  moreover have "LF \<notin> set alphabet" by (simp add: alphabet_def)
  ultimately show ?thesis using assms(2,3) by (auto simp: line_safe_def)
qed

text \<open>The narinfo the server builds from such a row is one its own parser accepts.\<close>

lemma buildNarInfo_wf:
  assumes build: "buildNarInfo srv e hp c st = (Inr ni, st')"
    and info: "Store_PathInfo st hp = (Inr info, st1, w)" and wf: "wf_pathinfo dir info"
    and zstd: "\<forall>h z d. e_zstd e info = Inr (h, z, d) \<longrightarrow> canonical (''sha256:'' @ h)"
    and sign: "\<forall>sg fp. sv_signer srv = Some sg \<longrightarrow> line_safe (sg fp)"
  shows "wf_narinfo dir ni \<and> StorePath ni = pi_StorePath info"
    and "\<And>sg. sv_signer srv = Some sg \<Longrightarrow> sg (Fingerprint ni) \<in> set (Sigs ni)"
proof -
  define plain where "plain = (''nar/'' @ hp @ ''.nar'', ''none'', pi_NarHash info, narSize (pi_NarSize info))"
  obtain url compr fh fs where fl: "(url, compr, fh, fs) =
      (if c \<and> sv_serveCompression srv = ''zstd''
       then (case e_zstd e info of Inl _ \<Rightarrow> plain
             | Inr (h, z, _) \<Rightarrow> (''nar/'' @ hp @ ''.nar.zstd'', ''zstd'', ''sha256:'' @ h, z))
       else plain)"
    by (metis prod_cases4)
  have suffix: "line_safe ''.nar''" "line_safe ''.nar.zstd''" "line_safe ''none''" "line_safe ''zstd''"
    by (simp_all add: line_safe_def)
  have url: "url \<noteq> [] \<and> line_safe url \<and> compr \<noteq> [] \<and> line_safe compr \<and> canonical fh"
    using fl zstd wf hash_url_safe [OF Store_PathInfo_valid [OF info]] suffix
    by (auto simp: plain_def wf_pathinfo_def split: if_splits sum.splits)
  define ni0 where "ni0 = \<lparr>StorePath = pi_StorePath info, URL = url, Compression = compr, FileHash = fh,
      FileSize = fs, NarHash = pi_NarHash info, NarSize = narSize (pi_NarSize info),
      References = pi_References info, Deriver = pi_Deriver info, Sigs = pi_Sigs info, CA = pi_CA info\<rparr>"
  have ni: "ni = (case sv_signer srv of None \<Rightarrow> ni0 | Some sg \<Rightarrow> ni0\<lparr>Sigs := Sigs ni0 @ [sg (Fingerprint ni0)]\<rparr>)"
    using build unfolding buildNarInfo_def info prod.case sum.case Let_def plain_def [symmetric] fl [symmetric]
      ni0_def [symmetric] by simp
  have size: "narSize (pi_NarSize info) \<noteq> 0" using wf narSize_positive by (simp add: wf_pathinfo_def)
  show "wf_narinfo dir ni \<and> StorePath ni = pi_StorePath info"
    using wf url size sign by (auto simp: ni ni0_def wf_narinfo_def wf_pathinfo_def split: option.splits)
  show "\<And>sg. sv_signer srv = Some sg \<Longrightarrow> sg (Fingerprint ni) \<in> set (Sigs ni)"
    by (simp add: ni ni0_def Fingerprint_def)
qed

definition example_info :: PathInfo where
  "example_info =
     \<lparr>pi_StorePath = ''/nix/store/'' @ example_base ''a'', pi_NarHash = ''sha256:'' @ EncodeToString (replicate 32 0),
      pi_NarSize = 120, pi_References = [''/nix/store/'' @ example_base ''a''], pi_Deriver = [],
      pi_Sigs = [''k:AAAA''], pi_CA = []\<rparr>"

lemma example_info_lookup: "Store_PathInfo example_store example_hash = (Inr example_info, example_store, [])"
proof -
  have "strings_Fields ''k:AAAA'' = [''k:AAAA'']"
  proof -
    have "map (char_of :: nat \<Rightarrow> char) (map of_char ''k:AAAA'') = ''k:AAAA''"
      unfolding map_map comp_def by (simp only: char_of_char map_ident)
    then show ?thesis
      by (simp add: strings_Fields_def DecodeRune_def unicode_IsSpace_def)
  qed
  moreover have "q_refs (s_db example_store) 1 = Inr [''/nix/store/'' @ example_base ''a'']"
    by (simp add: example_store_def table_db_def queryRefs_def example_row_def)
  ultimately show ?thesis
    unfolding Store_PathInfo_def lookup_rows [OF example_lookup(1)] Let_def hash_prefix_def example_lookup(2)
    using example_hash_valid example_lookup(4)
    by (simp add: example_info_def) (simp add: example_row_def null_string_def)
qed

lemma example_info_wf: "wf_pathinfo ''/nix/store'' example_info"
proof -
  have pre: "storePrefix ''/nix/store'' = ''/nix/store/''"
    by (simp add: storePrefix_def TrimSuffix_def HasSuffix_def)
  have "hashSizes ''sha256'' = Some (length (replicate 32 (0 :: byte)))" by (simp add: hashSizes_def)
  from CanonicalHash_colon [OF this, of "EncodeToString (replicate 32 0)"] decodeDigest_encodings(2) [OF this]
  have "canonical (''sha256:'' @ EncodeToString (replicate 32 0))" by (simp add: canonical_def)
  moreover have "in_store ''/nix/store/'' (''/nix/store/'' @ example_base ''a'')"
    unfolding in_store_iff using example_base_valid(1) by blast
  moreover have "line_safe (''/nix/store/'' @ example_base ''a'')"
    by (rule line_safe_append) (auto intro: validBasename_line_safe example_base_valid)
  ultimately show ?thesis
    unfolding wf_pathinfo_def example_info_def pre
    by (simp add: maxSignatures_def line_safe_def del: append.simps)
qed

definition example_signer :: SecretKey where
  "example_signer = \<lparr>sk_Name = ''k-1'', sk_key = replicate 32 1 @ replicate 32 0xfe\<rparr>"

text \<open>
  C16: what the cache serves, a Nix client accepts.  For a well-formed row of the database, a
  successful \<^verbatim>\<open>GET\<close> of its narinfo from a server that signs with a parsed key returns text that
  parses, in the same store, to metadata for that very path, and one of its signatures verifies
  against the fingerprint the client computes, under the key's public half.
\<close>

theorem served_narinfo_verifies:
  assumes "ed25519_ok E" and "ParseSecretKey E keyfile = Inr sk" and "sv_signer srv = Some (Sign E sk)"
    and "handleGetNarInfo srv r s = (resp, s')" and "status resp = 200"
    and "narInfoHash (URLPath r) = Some hp" and "fst (Store_PathInfo (c_store s) hp) = Inr info"
    and "wf_pathinfo (sv_storeDirLogical srv) info"
    and "\<forall>h z d. e_zstd (r_env r) info = Inr (h, z, d) \<longrightarrow> canonical (''sha256:'' @ h)"
  shows "\<exists>ni. Parse (rbody resp, EOF) (sv_storeDirLogical srv) = Inr ni \<and> StorePath ni = pi_StorePath info \<and>
    (\<exists>sig \<in> set (Sigs ni). Verify E (Public sk) (Fingerprint ni) sig)"
proof -
  have wf: "wf_secret E sk" using assms(2) by (rule ParseSecretKey_wf)
  obtain st w where info: "Store_PathInfo (c_store s) hp = (Inr info, st, w)" using assms(7) by (metis prod.collapse)
  obtain ni st' where build: "buildNarInfo srv (r_env r) hp True (c_store s) = (Inr ni, st')" and body: "rbody resp = Marshal ni"
    using assms(4-6) by (auto simp: handleGetNarInfo_def ok_response_def http_NotFound_def internal_error_def http_Error_def
        split: prod.splits sum.splits if_splits)
  have "\<forall>sg fp. sv_signer srv = Some sg \<longrightarrow> line_safe (sg fp)" using assms(3) Sign_line_safe [OF wf] by simp
  note built = buildNarInfo_wf [OF build info assms(8,9) this]
  have "Sign E sk (Fingerprint ni) \<in> set (Sigs ni)" using built(2) assms(3) by blast
  then show ?thesis
    using built(1) Parse_Marshal Verify_Sign [OF assms(1) wf] body by metis
qed

theorem served_narinfo_verifies_witness:
  "\<exists>ni. Parse (rbody (fst (handleGetNarInfo (example_server\<lparr>sv_signer := Some (Sign example_scheme example_signer)\<rparr>)
      example_put example_state)), EOF) ''/nix/store'' = Inr ni \<and>
    (\<exists>sig \<in> set (Sigs ni). Verify example_scheme (Public example_signer) (Fingerprint ni) sig)"
proof -
  let ?srv = "example_server\<lparr>sv_signer := Some (Sign example_scheme example_signer)\<rparr>"
  have wf: "wf_secret example_scheme example_signer"
    using GenerateKey_wf [OF example_key example_scheme_ok] by (auto simp: key_sizes example_signer_def)
  have hash: "narInfoHash (URLPath example_put) = Some example_hash"
  proof -
    have "HasSuffix (example_hash @ ''.narinfo'') ''.narinfo''" unfolding HasSuffix_iff by blast
    then show ?thesis
      by (simp add: narInfoHash_def example_put_def TrimPrefix_def HasPrefix_def CutSuffix_def)
        (simp add: example_hash_def)
  qed
  have info: "Store_PathInfo (c_store example_state) example_hash = (Inr example_info, example_store, [])"
    using example_info_lookup by (simp add: example_state_def)
  then have status: "status (fst (handleGetNarInfo ?srv example_put example_state)) = 200"
    unfolding handleGetNarInfo_def hash option.case buildNarInfo_def info
    by (simp add: example_server_def ok_response_def)
  have zstd: "\<forall>h z d. e_zstd (r_env example_put) example_info = Inr (h, z, d) \<longrightarrow> canonical (''sha256:'' @ h)"
    by (simp add: example_put_def example_env_def)
  show ?thesis
    using served_narinfo_verifies [OF example_scheme_ok secret_roundtrip [OF example_scheme_ok wf] _
        prod.collapse [symmetric] status hash _ _ zstd] info example_info_wf
    by (fastforce simp: example_server_def)
qed

section \<open>Pushing to a server\<close>

text \<open>What \<^verbatim>\<open>nix path-info\<close> says of a path of the store.\<close>

definition wf_pathMeta :: "string \<Rightarrow> pathMeta \<Rightarrow> bool" where
  "wf_pathMeta dir m \<longleftrightarrow>
     in_store (storePrefix dir) (pm_Path m) \<and> line_safe (pm_Path m) \<and> 0 < pm_NarSize m \<and> pm_NarSize m < 2 ^ 63 - 1 \<and>
     list_all (in_store (storePrefix dir)) (pm_References m) \<and> (pm_Deriver m = [] \<or> in_store (storePrefix dir) (pm_Deriver m))"

text \<open>What the client sees of a response of the server: an aborted one breaks the connection.\<close>

definition answer_of :: "response \<Rightarrow> do_result" where
  "answer_of resp =
     (if aborted resp then Inl ''EOF''
      else Inr \<lparr>a_status = int (status resp), a_body = rbody resp, a_readErr = None, a_cause = None\<rparr>)"

lemma upload_narinfo_wf:
  assumes m: "wf_pathMeta dir m" and h: "CanonicalHash (pm_NarHash m) = Inr h"
    and put: "putNar ob = Inr (wire, fileHash)" and digest: "length (po_digest ob) = 32"
  shows "wf_narinfo dir (upload_narinfo m (hashPartOf (pm_Path m) @ narExt) h wire fileHash)"
proof -
  have size: "hashSizes ''sha256'' = Some (length (po_digest ob))" using digest by (simp add: hashSizes_def)
  have fh: "fileHash = ''sha256:'' @ EncodeToString (po_digest ob)"
    using put by (auto simp: putNar_def Let_def split: prod.splits sum.splits option.splits)
  have "canonical fileHash"
    using CanonicalHash_colon [OF size, of "EncodeToString (po_digest ob)"] decodeDigest_encodings(2) [OF size]
    unfolding fh by (simp add: canonical_def)
  moreover have "canonical h" using CanonicalHash_idem [OF h] by (simp add: canonical_def)
  moreover have "line_safe (''nar/'' @ hashPartOf (pm_Path m) @ narExt)"
  proof -
    obtain b where b: "validBasename b" "pm_Path m = storePrefix dir @ b"
      using m unfolding wf_pathMeta_def in_store_iff by blast
    have "set (hashPartOf (pm_Path m)) \<subseteq> set b"
      using path_Base_store [OF b(1), of dir] set_take_subset [of HashPartLen b] by (simp add: hashPartOf_def b(2))
    then have "LF \<notin> set (hashPartOf (pm_Path m))" using validBasename_line_safe [OF b(1)] by (auto simp: line_safe_def)
    then show ?thesis by (auto simp: line_safe_def narExt_def narCompression_def)
  qed
  moreover have "(word_of_int (pm_NarSize m) :: uint64) \<noteq> 0"
    using narSize_positive [of "pm_NarSize m"] m by (simp add: narSize_def wf_pathMeta_def)
  ultimately show ?thesis
    using m by (simp add: wf_narinfo_def wf_pathMeta_def upload_narinfo_def narCompression_def line_safe_def)
qed

lemma upload_narinfo_accepted:
  assumes wf: "wf_narinfo (sv_storeDirLogical srv) ni" and len: "length (Marshal ni) \<le> maxNarInfoBytes"
    and size: "NarSize ni \<le> sv_maxNarSize srv" "NarSize ni < 2 ^ 63 - 1" and compr: "Compression ni = narCompression"
  shows "accept_narinfo srv (Marshal ni, EOF) = Inr ni"
proof -
  have "read_limited maxNarInfoBytes (Marshal ni, EOF) = (Marshal ni, BodyDone)" using len by (simp add: read_limited_def)
  then show ?thesis
    using Parse_Marshal [OF wf] size compr
    by (simp add: accept_narinfo_def Supported_def compressionZstd_def narCompression_def not_less not_le)
qed

text \<open>
  What reaches the server of a body the client sends: all of it, or some bytes and an error.  What the client sees
  of the response: nothing, when the connection breaks or the handler aborts it, or its status and a part of its
  body, possibly with an error.  An answer that arrived is complete and in time.
\<close>

definition arrives :: "string \<Rightarrow> Narinfo.reader \<Rightarrow> bool" where
  "arrives body rb \<longleftrightarrow> rb = (body, EOF) \<or> (\<exists>e. snd rb = ReadErr e)"

definition relays :: "response \<Rightarrow> do_result \<Rightarrow> bool" where
  "relays resp res \<longleftrightarrow>
     (case res of
        Inl _ \<Rightarrow> True
      | Inr a \<Rightarrow> \<not> aborted resp \<and> a_status a = int (status resp) \<and> a_body a = take (length (a_body a)) (rbody resp))"

definition answered :: "do_result \<times> bool \<Rightarrow> bool" where
  "answered = (\<lambda>(res, wedged). \<not> wedged \<and>
     (case res of Inl _ \<Rightarrow> False | Inr a \<Rightarrow> a_readErr a = None \<and> a_cause a = None))"

lemma putNarInfo_relayed:
  assumes "relays resp res" and "status resp = 200 \<Longrightarrow> \<not> aborted resp \<Longrightarrow> rbody resp = []"
  shows "putNarInfo res wedged = None \<longleftrightarrow> status resp = 200 \<and> \<not> aborted resp \<and> answered (res, wedged)"
proof (cases res)
  case (Inr a)
  then have a: "\<not> aborted resp" "a_status a = int (status resp)" "a_body a = take (length (a_body a)) (rbody resp)"
    using assms(1) by (simp_all add: relays_def)
  show ?thesis
  proof (cases "status resp = 200")
    case True
    then have "a_body a = []" using a assms(2) by simp
    then show ?thesis using Inr True a(1,2) by (auto simp: putNarInfo_def readResponse_def answered_def Let_def)
  next
    case False
    then show ?thesis using Inr a(2) by (auto simp: putNarInfo_def readResponse_def Let_def split: prod.splits)
  qed
qed (simp add: putNarInfo_def answered_def)

text \<open>The path of a store path's narinfo is routed to its handler.\<close>

lemma path_Clean_rooted:
  assumes "plain_name w"
  shows "path_Clean (CHR ''/'' # w) = CHR ''/'' # w"
  using assms split_char_append [of "CHR ''/''" "[]" w]
  by (simp add: path_Clean_def Let_def split_char_notin clean_step_def plain_name_def)

lemma Handler_put_narinfo:
  assumes h: "ValidHashPart h" and put: "Method r = ''PUT''" and url: "URLPath r = ''/'' @ h @ ''.narinfo''"
  shows "Handler srv r s = handlePutNarInfo srv r s"
proof -
  let ?w = "h @ ''.narinfo''"
  have w: "plain_name ?w" using ValidHashPart_plain(3) [OF h, of "''narinfo''"] by simp
  then have slash: "CHR ''/'' \<notin> set ?w" by (simp add: plain_name_def)
  have len: "length h = 32" "h \<noteq> []" using h by (auto simp: ValidHashPart_def HashPartLen_def)
  have clean: "mux_clean (''/'' @ ?w) = ''/'' @ ?w"
    using path_Clean_rooted [OF w] by (simp add: mux_clean_def Let_def)
  have nest: "\<not> HasPrefix (''/'' @ ?w) (''/'' @ x @ ''/'')" for x
  proof
    assume "HasPrefix (''/'' @ ?w) (''/'' @ x @ ''/'')"
    then obtain t where "''/'' @ ?w = (''/'' @ x @ ''/'') @ t" unfolding HasPrefix_iff by blast
    then have "?w = x @ CHR ''/'' # t" by simp
    then have "CHR ''/'' \<in> set ?w" by (simp only: set_append list.set) blast
    with slash show False by blast
  qed
  have "\<not> HasPrefix (''/'' @ ?w) ''/debug/''" "\<not> HasPrefix (''/'' @ ?w) ''/nar/''"
    using nest [of "''debug''"] nest [of "''nar''"] by simp_all
  moreover have "''/'' @ ?w \<noteq> ''/nar''" "''/'' @ ?w \<noteq> ''/debug''"
    using len(1) by (auto dest: arg_cong [where f = length])
  moreover have "narInfoHash (''/'' @ ?w) = Some h"
    using len(2) by (simp add: narInfoHash_def TrimPrefix_def HasPrefix_def CutSuffix_def HasSuffix_iff)
  ultimately show ?thesis
    using clean by (simp add: Handler_def mux_ServeHTTP_def Let_def handleRoot_def put url del: append.simps)
qed

lemma hashPartOf_valid:
  assumes "in_store (storePrefix dir) p"
  shows "ValidHashPart (hashPartOf p)"
proof -
  obtain b where b: "validBasename b" "p = storePrefix dir @ b" using assms unfolding in_store_iff by blast
  obtain h nm where h: "b = h @ CHR ''-'' # nm" "ValidHashPart h" using validBasename_split [OF b(1)] by blast
  then have "hashPartOf p = h"
    using path_Base_store [OF b(1), of dir] by (simp add: hashPartOf_def b(2) Let_def ValidHashPart_def)
  then show ?thesis using h(2) by simp
qed

text \<open>What the server makes of the narinfo of a well-formed upload.\<close>

definition vetted :: "server \<Rightarrow> NarInfo \<Rightarrow> Narinfo.reader \<Rightarrow> bool" where
  "vetted srv ni rb \<longleftrightarrow> rb = (Marshal ni, EOF) \<and> length (Marshal ni) \<le> maxNarInfoBytes \<and> NarSize ni \<le> sv_maxNarSize srv"

lemma not_vetted_refused:
  assumes "wf_narinfo (sv_storeDirLogical srv) ni" and "arrives (Marshal ni) rb" and "\<not> vetted srv ni rb"
  shows "\<exists>resp reason. accept_narinfo srv rb = Inl (resp, reason)"
proof (cases "rb = (Marshal ni, EOF)")
  case True
  then show ?thesis
    using assms(3) Parse_Marshal [OF assms(1)] by (auto simp: vetted_def accept_narinfo_def read_limited_def not_le)
next
  case False
  then have "snd (read_limited maxNarInfoBytes rb) \<noteq> BodyDone"
    using assms(2) by (auto simp: arrives_def read_limited_def)
  then show ?thesis by (auto simp: accept_narinfo_def split: prod.splits)
qed

lemma put_narinfo_outcome:
  assumes wf: "wf_narinfo (sv_storeDirLogical srv) ni" and ni: "Compression ni = narCompression" "NarSize ni < 2 ^ 63 - 1"
    and rb: "arrives (Marshal ni) (r_body r)" and run: "handlePutNarInfo srv r s = (resp, s')"
    and e: "e_import (r_env r) ni (spool s, nixstore s) = (err, sp, ns)"
  shows "(status resp = 200 \<and> \<not> aborted resp \<longleftrightarrow>
      vetted srv ni (r_body r) \<and> (sv_importFn srv \<longrightarrow> slot_free srv (r_env r) s \<and> err = None)) \<and>
    (status resp = 200 \<and> \<not> aborted resp \<longrightarrow> rbody resp = []) \<and>
    view s' = (if vetted srv ni (r_body r) \<and> sv_importFn srv \<and> slot_free srv (r_env r) s then (sp, ns, slots s) else view s)"
proof (cases "vetted srv ni (r_body r)")
  case False
  then obtain rsp reason where x: "accept_narinfo srv (r_body r) = Inl (rsp, reason)"
    using not_vetted_refused [OF wf rb] by blast
  show ?thesis using False handlePutNarInfo_refused [OF x, of s] accept_narinfo_Inl [OF x] run by simp
next
  case True
  then have acc: "accept_narinfo srv (r_body r) = Inr ni"
    using upload_narinfo_accepted [OF wf _ _ ni(2,1)] by (simp add: vetted_def)
  show ?thesis
  proof (cases "sv_importFn srv")
    case imp: True
    from handlePutNarInfo_outcome [OF acc imp e] run True imp show ?thesis
      by (cases "slot_free srv (r_env r) s"; cases err) (auto simp: ok_response_def http_Error_def)
  next
    case False
    then show ?thesis using run acc True by (auto simp: handlePutNarInfo_split view_def ok_response_def)
  qed
qed

lemma transfer_Inr:
  "transfer u rm m h = Inr st \<longleftrightarrow>
     (\<exists>narHash wire fileHash ni. CanonicalHash (pm_NarHash m) = Inr narHash \<and>
        putNar (rm_putNar rm (u_target u @ ''/nar/'' @ h @ narExt)) = Inr (wire, fileHash) \<and>
        ni = upload_narinfo m (h @ narExt) narHash wire fileHash \<and>
        (case rm_putInfo rm (u_target u @ ''/'' @ h @ ''.narinfo'') (Marshal ni) of (res, wedged) \<Rightarrow> putNarInfo res wedged = None) \<and>
        st = \<lparr>s_Path = pm_Path m, s_NarSize = pm_NarSize m, s_WireBytes = wire, s_Skipped = False, s_Err = None\<rparr>)"
  by (auto simp: transfer_def Let_def split: sum.splits prod.splits option.splits)

text \<open>The second half of a transfer: the narinfo the client sends, the server's work on it and the client's verdict.\<close>

lemma push_narinfo:
  assumes m: "wf_pathMeta (sv_storeDirLogical srv) m"
    and req: "Method r = ''PUT''" "URLPath r = ''/'' @ hashPartOf (pm_Path m) @ ''.narinfo''"
    and h: "CanonicalHash (pm_NarHash m) = Inr narHash" and put: "putNar ob = Inr (wire, fileHash)"
    and digest: "length (po_digest ob) = 32"
    and ni: "ni = upload_narinfo m (hashPartOf (pm_Path m) @ narExt) narHash wire fileHash"
    and rb: "arrives (Marshal ni) (r_body r)" and res: "relays (fst (Handler srv r s)) res"
  shows "(putNarInfo res wedged = None \<longleftrightarrow> vetted srv ni (r_body r) \<and>
      (sv_importFn srv \<longrightarrow> slot_free srv (r_env r) s \<and> fst (e_import (r_env r) ni (spool s, nixstore s)) = None) \<and>
      answered (res, wedged)) \<and>
    view (snd (Handler srv r s)) =
      (if vetted srv ni (r_body r) \<and> sv_importFn srv \<and> slot_free srv (r_env r) s
       then (case e_import (r_env r) ni (spool s, nixstore s) of (_, sp, ns) \<Rightarrow> (sp, ns, slots s)) else view s)"
proof -
  have store: "ValidHashPart (hashPartOf (pm_Path m))" using m hashPartOf_valid unfolding wf_pathMeta_def by blast
  have wf: "wf_narinfo (sv_storeDirLogical srv) ni" unfolding ni by (rule upload_narinfo_wf [OF m h put digest])
  have "0 < pm_NarSize m" "pm_NarSize m < 2 ^ 63 - 1" using m by (simp_all add: wf_pathMeta_def)
  then have sizes: "Compression ni = narCompression" "NarSize ni < 2 ^ 63 - 1"
    by (simp_all add: ni upload_narinfo_def word_less_def uint_word_of_int)
  obtain resp s' where run: "handlePutNarInfo srv r s = (resp, s')" by fastforce
  have handler: "Handler srv r s = (resp, s')" using Handler_put_narinfo [OF store req] run by simp
  obtain err sp ns where e: "e_import (r_env r) ni (spool s, nixstore s) = (err, sp, ns)" by (metis prod_cases3)
  note out = put_narinfo_outcome [OF wf sizes rb run e]
  have "relays resp res" using res handler by simp
  then have v: "putNarInfo res wedged = None \<longleftrightarrow> (status resp = 200 \<and> \<not> aborted resp) \<and> answered (res, wedged)"
    using putNarInfo_relayed conjunct1 [OF conjunct2 [OF out]] by blast
  show ?thesis
    unfolding handler e fst_conv snd_conv prod.case v conjunct1 [OF out] using conjunct2 [OF conjunct2 [OF out]] by blast
qed

definition example_path_meta :: pathMeta where
  "example_path_meta =
     \<lparr>pm_Path = ''/nix/store/'' @ example_base ''a'', pm_NarHash = ''sha256:'' @ EncodeToString (replicate 32 0), pm_NarSize = 120,
      pm_References = [''/nix/store/'' @ example_base ''a''], pm_Deriver = []\<rparr>"

definition example_options :: Options where
  "example_options = \<lparr>o_Jobs = 0, o_Attempts = 0, o_StallTimeout = 0\<rparr>"

definition example_put_obs :: put_obs where
  "example_put_obs =
     \<lparr>po_do = Inr \<lparr>a_status = 200, a_body = [], a_readErr = None, a_cause = None\<rparr>, po_stalled = False,
      po_reads = [(60, False), (0, True)], po_producerErr = None, po_digest = replicate 32 0\<rparr>"

definition example_pushed :: NarInfo where
  "example_pushed = upload_narinfo example_path_meta (hashPartOf (pm_Path example_path_meta) @ narExt)
     (''sha256:'' @ EncodeToString (replicate 32 0)) 60 (''sha256:'' @ EncodeToString (replicate 32 0))"

text \<open>The other end: the NAR is taken, and the narinfo is put to the example server, whose answer comes back.\<close>

definition example_push :: "nat http_request" where
  "example_push = example_put\<lparr>URLPath := ''/'' @ hashPartOf (pm_Path example_path_meta) @ ''.narinfo''\<rparr>"

definition example_remote :: remote where
  "example_remote =
     \<lparr>rm_putNar = (\<lambda>_. example_put_obs),
      rm_putInfo = (\<lambda>_ body. (answer_of (fst (Handler example_server (example_push\<lparr>r_body := (body, EOF)\<rparr>) example_state)), False)),
      rm_head = (\<lambda>_. Inl ''refused'')\<rparr>"

lemma answer_of_relays: "relays resp (answer_of resp)"
  by (simp add: relays_def answer_of_def)

lemma answer_of_answered: "answered (answer_of resp, False) \<longleftrightarrow> \<not> aborted resp"
  by (simp add: answered_def answer_of_def)

lemma example_pushed_length: "length (Marshal example_pushed) \<le> maxNarInfoBytes"
proof -
  have base: "path_Base (''/nix/store/'' @ example_base ''a'') = example_base ''a''"
    using path_Base_store [OF example_base_valid(1), of "[]"] by (simp add: storePrefix_def DefaultStoreDir_def TrimSuffix_def HasSuffix_def)
  have "length (Marshal example_pushed) \<le> marshalSize example_pushed"
    using marshalSize_Marshal [of example_pushed] FormatUint_length [of "FileSize example_pushed"]
      FormatUint_length [of "NarSize example_pushed"] by linarith
  also have "\<dots> \<le> 2000"
    using base length_EncodeToString [of "replicate 32 0"]
    by (simp add: marshalSize_def example_pushed_def upload_narinfo_def example_path_meta_def compression_def narExt_def narCompression_def
        hashPartOf_def HashPartLen_def encodedLen_def example_base_def Let_def del: append.simps)
  also have "\<dots> \<le> maxNarInfoBytes" by (simp add: maxNarInfoBytes_def)
  finally show ?thesis .
qed

text \<open>
  C30: when a push succeeds, and what it leaves on the server.  For a path of the store as \<^verbatim>\<open>nix path-info\<close>
  describes it, the transfer succeeds exactly if the client can canonicalise its NAR hash, the NAR was uploaded,
  the server vetted the narinfo (all of it arrived, and it and the NAR are within the limits), a slot was
  free and the import succeeded (where the server imports), and the answer came back whole and in time.  There is
  no other way for it to fail: the server never finds fault with what the client wrote.  If the
  narinfo was vetted and a slot was free, spool and store are what the import of exactly this narinfo made of
  them, also when the answer is lost; otherwise they are as before.  The request is one that reached the
  server's routes: the gate of the listener in front of them is not part of this property.
\<close>

theorem push_succeeds_exactly:
  assumes "wf_pathMeta (sv_storeDirLogical srv) m" and "h = hashPartOf (pm_Path m)"
    and "ob = rm_putNar rm (u_target u @ ''/nar/'' @ h @ narExt)" and "length (po_digest ob) = 32"
    and "Method r = ''PUT''" and "URLPath r = ''/'' @ h @ ''.narinfo''"
    and "answer = rm_putInfo rm (u_target u @ ''/'' @ h @ ''.narinfo'')"
    and "\<And>body. arrives body (sent body)"
    and "\<And>body. relays (fst (Handler srv (r\<lparr>r_body := sent body\<rparr>) s)) (fst (answer body))"
  shows "(transfer u rm m h = Inr st \<longleftrightarrow>
      (\<exists>narHash wire fileHash ni. CanonicalHash (pm_NarHash m) = Inr narHash \<and> putNar ob = Inr (wire, fileHash) \<and>
         ni = upload_narinfo m (h @ narExt) narHash wire fileHash \<and> vetted srv ni (sent (Marshal ni)) \<and>
         (sv_importFn srv \<longrightarrow>
            slot_free srv (r_env r) s \<and> fst (e_import (r_env r) ni (spool s, nixstore s)) = None) \<and>
         answered (answer (Marshal ni)) \<and>
         st = \<lparr>s_Path = pm_Path m, s_NarSize = pm_NarSize m, s_WireBytes = wire, s_Skipped = False, s_Err = None\<rparr>)) \<and>
    (\<forall>narHash wire fileHash ni. CanonicalHash (pm_NarHash m) = Inr narHash \<and> putNar ob = Inr (wire, fileHash) \<and>
       ni = upload_narinfo m (h @ narExt) narHash wire fileHash \<longrightarrow>
       view (snd (Handler srv (r\<lparr>r_body := sent (Marshal ni)\<rparr>) s)) =
         (if vetted srv ni (sent (Marshal ni)) \<and> sv_importFn srv \<and> slot_free srv (r_env r) s
          then (case e_import (r_env r) ni (spool s, nixstore s) of (_, sp, ns) \<Rightarrow> (sp, ns, slots s)) else view s))"
proof -
  have env: "r_env (r\<lparr>r_body := b\<rparr>) = r_env r" "r_body (r\<lparr>r_body := b\<rparr>) = b"
      "Method (r\<lparr>r_body := b\<rparr>) = ''PUT''" "URLPath (r\<lparr>r_body := b\<rparr>) = ''/'' @ hashPartOf (pm_Path m) @ ''.narinfo''" for b
    using assms(2,5,6) by simp_all
  note step = push_narinfo [OF assms(1) env(3,4) _ _ assms(4) _ _ assms(9), where wedged = "snd (answer _)",
      unfolded env prod.collapse assms(2) [symmetric], OF _ _ _ assms(8)]
  have verdict: "(case answer (Marshal ni) of (res, wedged) \<Rightarrow> putNarInfo res wedged = None) \<longleftrightarrow>
      vetted srv ni (sent (Marshal ni)) \<and>
      (sv_importFn srv \<longrightarrow> slot_free srv (r_env r) s \<and> fst (e_import (r_env r) ni (spool s, nixstore s)) = None) \<and>
      answered (answer (Marshal ni))"
    if "CanonicalHash (pm_NarHash m) = Inr narHash" "putNar ob = Inr (wire, fileHash)"
      "ni = upload_narinfo m (h @ narExt) narHash wire fileHash" for narHash wire fileHash ni
    using step [OF that] by (simp add: case_prod_beta)
  have t: "transfer u rm m h = Inr st \<longleftrightarrow>
      (\<exists>narHash wire fileHash ni. CanonicalHash (pm_NarHash m) = Inr narHash \<and> putNar ob = Inr (wire, fileHash) \<and>
         ni = upload_narinfo m (h @ narExt) narHash wire fileHash \<and>
         (vetted srv ni (sent (Marshal ni)) \<and>
          (sv_importFn srv \<longrightarrow> slot_free srv (r_env r) s \<and> fst (e_import (r_env r) ni (spool s, nixstore s)) = None) \<and>
          answered (answer (Marshal ni))) \<and>
         st = \<lparr>s_Path = pm_Path m, s_NarSize = pm_NarSize m, s_WireBytes = wire, s_Skipped = False, s_Err = None\<rparr>)"
    unfolding transfer_Inr assms(3,7) [symmetric] by (intro iff_exI conj_cong refl verdict)
  show ?thesis
    by (rule conjI, rule t [unfolded conj_assoc], intro allI impI, elim conjE, rule conjunct2 [OF step])
qed

lemma example_push_simps:
  "Method example_push = ''PUT''" "URLPath example_push = ''/'' @ hashPartOf (pm_Path example_path_meta) @ ''.narinfo''"
  "r_env example_push = example_env" "rm_putNar example_remote url = example_put_obs" "length (po_digest example_put_obs) = 32"
  "rm_putInfo example_remote url body =
     (answer_of (fst (Handler example_server (example_push\<lparr>r_body := (body, EOF)\<rparr>) example_state)), False)"
  "putNar example_put_obs = Inr (60, ''sha256:'' @ EncodeToString (replicate 32 0))"
  by (simp_all add: example_push_def example_remote_def example_put_def putNar_def example_put_obs_def meter_read_def readResponse_def
      join_errors_def List.map_filter_def)

lemma example_meta_wf: "wf_pathMeta (sv_storeDirLogical example_server) example_path_meta"
  using example_info_wf by (simp add: wf_pathMeta_def wf_pathinfo_def example_info_def example_path_meta_def example_server_def)

lemma example_meta_hash: "CanonicalHash (pm_NarHash example_path_meta) = Inr (''sha256:'' @ EncodeToString (replicate 32 0))"
proof -
  have size: "hashSizes ''sha256'' = Some (length (replicate 32 (0 :: byte)))" by (simp add: hashSizes_def)
  show ?thesis
    using CanonicalHash_colon [OF size, of "EncodeToString (replicate 32 0)"] decodeDigest_encodings(2) [OF size]
    by (simp add: example_path_meta_def)
qed

lemma example_vetted: "vetted example_server example_pushed (Marshal example_pushed, EOF)"
  using example_pushed_length
  by (simp add: vetted_def example_pushed_def upload_narinfo_def example_server_def example_path_meta_def)

lemma example_slot: "slot_free example_server (r_env example_push) example_state"
  unfolding example_push_simps by (simp add: slot_free_def example_server_def example_env_def example_state_def)

lemma example_import:
  "e_import (r_env example_push) example_pushed (spool example_state, nixstore example_state) = (None, (\<lambda>_. None), 1)"
  unfolding example_push_simps by (simp add: example_env_def example_state_def)

lemma example_push_not_aborted:
  "\<not> aborted (fst (Handler example_server (example_push\<lparr>r_body := (Marshal example_pushed, EOF)\<rparr>) example_state))"
proof -
  let ?r = "example_push\<lparr>r_body := (Marshal example_pushed, EOF)\<rparr>"
  have "ValidHashPart (hashPartOf (pm_Path example_path_meta))"
    using example_meta_wf hashPartOf_valid unfolding wf_pathMeta_def by blast
  moreover have "Method ?r = ''PUT''" "URLPath ?r = ''/'' @ hashPartOf (pm_Path example_path_meta) @ ''.narinfo''"
    by (simp_all add: example_push_simps)
  ultimately have route: "Handler example_server ?r example_state = handlePutNarInfo example_server ?r example_state"
    by (rule Handler_put_narinfo)
  have wf: "wf_narinfo (sv_storeDirLogical example_server) example_pushed"
    unfolding example_pushed_def
    by (rule upload_narinfo_wf [OF example_meta_wf example_meta_hash example_push_simps(7,5)])
  have sizes: "Compression example_pushed = narCompression" "NarSize example_pushed < 2 ^ 63 - 1"
    by (simp_all add: example_pushed_def upload_narinfo_def example_path_meta_def)
  have "accept_narinfo example_server (r_body ?r) = Inr example_pushed"
    using upload_narinfo_accepted [OF wf _ _ sizes(2,1)] example_vetted by (simp add: vetted_def)
  moreover have "sv_importFn example_server" by (simp add: example_server_def)
  moreover have "e_import (r_env ?r) example_pushed (spool example_state, nixstore example_state) = (None, (\<lambda>_. None), 1)"
    using example_import by simp
  ultimately have "fst (handlePutNarInfo example_server ?r example_state) = ok_response [] []"
    using handlePutNarInfo_outcome [of example_server ?r example_pushed example_state None "\<lambda>_. None" 1] example_slot by simp
  then show ?thesis unfolding route by (simp add: ok_response_def)
qed

theorem push_succeeds_exactly_witness:
  "transfer (newUploader ''http://cache/'' example_options) example_remote example_path_meta (hashPartOf (pm_Path example_path_meta)) =
     Inr \<lparr>s_Path = pm_Path example_path_meta, s_NarSize = 120, s_WireBytes = 60, s_Skipped = False, s_Err = None\<rparr> \<and>
   view (snd (Handler example_server (example_push\<lparr>r_body := (Marshal example_pushed, EOF)\<rparr>) example_state)) = (\<lambda>_. None, 1, 0)"
proof -
  let ?u = "newUploader ''http://cache/'' example_options"
  let ?h = "hashPartOf (pm_Path example_path_meta)"
  let ?sha = "''sha256:'' @ EncodeToString (replicate 32 0)"
  let ?info = "u_target ?u @ ''/'' @ ?h @ ''.narinfo''"
  have digest: "length (po_digest (rm_putNar example_remote (u_target ?u @ ''/nar/'' @ ?h @ narExt))) = 32"
    by (simp add: example_push_simps)
  have arr: "arrives body (body, EOF)" for body by (simp add: arrives_def)
  have rel: "relays (fst (Handler example_server (example_push\<lparr>r_body := (body, EOF)\<rparr>) example_state))
      (fst (rm_putInfo example_remote ?info body))" for body
    by (simp add: example_push_simps answer_of_relays)
  have ans: "answered (rm_putInfo example_remote ?info (Marshal example_pushed))"
    using example_push_not_aborted by (simp add: example_push_simps answer_of_answered)
  have put: "putNar (rm_putNar example_remote (u_target ?u @ ''/nar/'' @ ?h @ narExt)) = Inr (60, ?sha)"
    by (simp add: example_push_simps)
  have pushed: "example_pushed = upload_narinfo example_path_meta (?h @ narExt) ?sha 60 ?sha" by (simp add: example_pushed_def)
  have imp: "sv_importFn example_server" "slots example_state = 0" "pm_NarSize example_path_meta = 120"
    by (simp_all add: example_server_def example_state_def example_path_meta_def)
  note exact = push_succeeds_exactly [where srv = example_server and u = ?u and rm = example_remote and s = example_state
      and sent = "\<lambda>b. (b, EOF)", OF example_meta_wf refl refl digest example_push_simps(1,2) refl arr rel]
  have "transfer ?u example_remote example_path_meta ?h =
      Inr \<lparr>s_Path = pm_Path example_path_meta, s_NarSize = 120, s_WireBytes = 60, s_Skipped = False, s_Err = None\<rparr>"
    by (rule iffD2 [OF conjunct1 [OF exact]], intro exI [of _ ?sha] exI [of _ "60 :: int"] exI [of _ example_pushed] conjI impI)
      (use example_meta_hash put pushed example_vetted example_slot example_import ans imp in simp_all)
  moreover have "view (snd (Handler example_server (example_push\<lparr>r_body := (Marshal example_pushed, EOF)\<rparr>) example_state)) =
      (\<lambda>_. None, 1, 0)"
    using conjunct2 [OF exact] example_meta_hash put pushed example_vetted example_slot example_import imp by auto
  ultimately show ?thesis by blast
qed

section \<open>Imports and the garbage collector\<close>

lemma root_lock_of_hash:
  assumes "ValidHashPart h"
  shows "root_lock sha h = lock_name sha h" "root_lock sha (h @ CHR ''.'' # t) = lock_name sha h"
  using ValidHashPart_plain(2) [OF assms] by (simp_all add: root_lock_def Cut_char_notin Cut_char_append)

definition importer_names :: "string \<Rightarrow> string \<Rightarrow> bool" where
  "importer_names h name \<longleftrightarrow> name = h \<or> (\<exists>t. name = h @ CHR ''.'' # t)"

lemma locked_root_kept:
  assumes "ValidHashPart h" "lock_name sha h \<in> set (gd_held d)" "importer_names h name" "CHR ''/'' \<notin> set name"
    and "only_stale sha pe es d d'" "\<And>x. x \<in> set es \<Longrightarrow> CHR ''/'' \<notin> set x"
  shows "gd_files d' (root_path pe name) = gd_files d (root_path pe name)"
proof (rule ccontr)
  have plain: "plain_name name"
  proof (cases "name = h")
    case True
    then show ?thesis using ValidHashPart_plain(1) [OF assms(1)] by simp
  next
    case False
    then obtain t where t: "name = h @ CHR ''.'' # t" using assms(3) unfolding importer_names_def by blast
    then show ?thesis using ValidHashPart_plain(3) [OF assms(1), of t] assms(4) by (simp del: append.simps)
  qed
  assume "gd_files d' (root_path pe name) \<noteq> gd_files d (root_path pe name)"
  moreover have "gd_files d' (root_path pe name) = gd_files d (root_path pe name) \<or>
      (\<exists>x\<in>set es. root_path pe name = root_path pe x \<and> stale_root pe d x \<and> root_lock sha x \<notin> set (gd_held d))"
    using assms(5) unfolding only_stale_def by blast
  ultimately obtain x where x: "x \<in> set es" "root_path pe name = root_path pe x" "stale_root pe d x" "root_lock sha x \<notin> set (gd_held d)"
    by blast
  have "plain_name x" using stale_root_plain [OF x(3)] assms(6) x(1) by blast
  then have "x = name" using x(2) Join_plain_inj [OF plain] by (simp add: root_path_def)
  then show False
    using x(4) assms(2,3) root_lock_of_hash [OF assms(1)] by (auto simp: importer_names_def)
qed

text \<open>The temporary link of an import is one of the importer's names, in the same directory.\<close>

lemma tmp_root_name:
  assumes "ValidHashPart h"
  shows "tmp_root (filepath_Join [dir, h]) pid k = filepath_Join [dir, h @ CHR ''.'' # ''tmp.'' @ format_nat pid @ ''.'' @ format_nat k]"
    and "CHR ''/'' \<notin> set (h @ CHR ''.'' # ''tmp.'' @ format_nat pid @ ''.'' @ format_nat k)"
proof -
  have digits: "CHR ''/'' \<notin> set (format_nat x)" for x using format_nat_digits [of "CHR ''/''" x] by auto
  then show slash: "CHR ''/'' \<notin> set (h @ CHR ''.'' # ''tmp.'' @ format_nat pid @ ''.'' @ format_nat k)"
    using ValidHashPart_plain(1) [OF assms] by (simp add: plain_name_def)
  obtain p where p: "\<And>w. plain_name w \<Longrightarrow> filepath_Join [dir, w] = p @ w" using Join_plain [of dir] by blast
  have "plain_name (h @ CHR ''.'' # ''tmp.'' @ format_nat pid @ ''.'' @ format_nat k)"
    using ValidHashPart_plain(3) [OF assms] slash by (simp del: append.simps)
  then show "tmp_root (filepath_Join [dir, h]) pid k = filepath_Join [dir, h @ CHR ''.'' # ''tmp.'' @ format_nat pid @ ''.'' @ format_nat k]"
    using p [OF ValidHashPart_plain(1) [OF assms]] p by (simp add: tmp_root_def)
qed

text \<open>
  C26: the collector cannot touch the root of an import in progress: while the lock the importer takes for
  a store path is held, no pass of the pruner, whatever fails, changes the root of that path or any
  temporary link of an import of it.
\<close>

theorem import_lock_protects_root:
  assumes "lockGCRoot imp ie (StorePath ni) = Inr (Some l)" and "l \<in> set (gd_held d)"
    and "\<And>name. name \<in> set es \<Longrightarrow> CHR ''/'' \<notin> set name"
    and "pruneOldGCRoots (ie_sha ie) flt (Entries es) now (GCRootDir imp) storeDir minAge dryRun d = (res, errs, d')"
  shows "gd_files d' (import_root imp ni) = gd_files d (import_root imp ni) \<and>
    gd_files d' (tmp_root (import_root imp ni) pid k) = gd_files d (tmp_root (import_root imp ni) pid k)"
proof -
  let ?h = "storePathHash imp (StorePath ni)" and ?pe = "prune_env_of flt now (GCRootDir imp) storeDir minAge"
  have l: "l = lock_name (ie_sha ie) ?h" "?h \<noteq> []" using assms(1) by (auto simp: lockGCRoot_def Let_def split: if_splits)
  note valid = storePathHash_valid [OF l(2)]
  have only: "only_stale (ie_sha ie) ?pe es d d'" using pruneOld_only_stale [OF assms(3,4)] by simp
  have path: "filepath_Join [GCRootDir imp, x] = root_path ?pe x" for x by (simp add: root_path_def prune_env_of_def)
  have "gd_files d' (root_path ?pe name) = gd_files d (root_path ?pe name)" if "importer_names ?h name" "CHR ''/'' \<notin> set name" for name
    using locked_root_kept [OF valid _ that only assms(3)] assms(2) l(1) by simp
  from this [of ?h] this [OF _ tmp_root_name(2) [OF valid, of pid k]] show ?thesis
    unfolding import_root_def path tmp_root_name(1) [OF valid, of "GCRootDir imp" pid k, unfolded path]
    using ValidHashPart_plain(1) [OF valid] by (auto simp: importer_names_def plain_name_def)
qed

theorem import_lock_protects_root_witness:
  "\<exists>l. lockGCRoot import_imp import_example (StorePath import_ni) = Inr (Some l) \<and>
     (let d = example_gcdir\<lparr>gd_held := [l]\<rparr>; d' = snd (snd (pruneOldGCRoots import_sha no_faults (Entries [example_root]) (gcRootEpoch + 10)
        ''/gc'' ''/nix/store'' 5 False d)) in gd_files d' (''/gc/'' @ example_root) \<noteq> None)"
proof -
  let ?l = "lock_name import_sha example_root" let ?d = "example_gcdir\<lparr>gd_held := [?l]\<rparr>"
  have hash: "storePathHash import_imp (StorePath import_ni) = example_root" by (simp add: import_ni_simps example_root_def)
  have sha: "ie_sha import_example = import_sha" "GCRootDir import_imp = ''/gc''" by (simp_all add: import_example_def import_imp_def)
  have l: "lockGCRoot import_imp import_example (StorePath import_ni) = Inr (Some ?l)"
    using example_root_valid(2) by (simp add: lockGCRoot_def hash sha import_example_fields plain_name_def)
  have root: "import_root import_imp import_ni = ''/gc/'' @ example_root" by (simp add: import_root_def hash sha example_paths)
  obtain res errs d' where p: "pruneOldGCRoots import_sha no_faults (Entries [example_root]) (gcRootEpoch + 10) ''/gc'' ''/nix/store'' 5 False ?d = (res, errs, d')"
    by (metis prod_cases3)
  have "gd_files d' (''/gc/'' @ example_root) = gd_files ?d (''/gc/'' @ example_root)"
    using import_lock_protects_root [OF l, of ?d "[example_root]" no_faults "gcRootEpoch + 10" "''/nix/store''" 5 False res errs d']
      p example_root_valid(2) unfolding sha root by (simp add: plain_name_def)
  then show ?thesis using l p by (auto simp: Let_def example_gcdir_def)
qed

end
